(* ===== verification/Prelude.thy ===== *)
theory Prelude
  imports Complex_Main
begin

text \<open>
  What every other theory of the development shares: the exceptions the Python code can
  raise, the result type of a fallible call with its sequencing operator, the type of a
  call that also updates an object, and the generic lemmas and lemma collections the
  component theories use.
\<close>

section \<open>Exceptions and fallible results\<close>

text \<open>
  One constructor per exception class the package raises or lets through. The message is
  kept where the source builds one.
\<close>

datatype exn =
    ValueError string
  | TypeError string
  | OverflowError string
  | ZeroDivisionError string
  | RuntimeError string
  | FileNotFoundError string
  | YAMLError string
  | RiskProviderError string string
  | IndexError string

type_synonym 'a res = "exn + 'a"

text \<open>
  A method call on a mutable object: the result (or the exception) together with the
  object after the call, which is there even when the call raised.
\<close>

type_synonym ('s, 'a) upd = "'a res \<times> 's"

definition rbind :: "'a res \<Rightarrow> ('a \<Rightarrow> 'b res) \<Rightarrow> 'b res" where
  "rbind r f = (case r of Inl e \<Rightarrow> Inl e | Inr x \<Rightarrow> f x)"

definition rguard :: "bool \<Rightarrow> exn \<Rightarrow> 'a res \<Rightarrow> 'a res" where
  "rguard b e r = (if b then Inl e else r)"

definition is_ok :: "'a res \<Rightarrow> bool" where
  "is_ok r = (case r of Inl _ \<Rightarrow> False | Inr _ \<Rightarrow> True)"

text \<open>Short-circuiting boolean disjunction of fallible tests (Python \<open>or\<close>).\<close>

fun any_res :: "bool res list \<Rightarrow> bool res" where
  "any_res [] = Inr False"
| "any_res (r # rs) = rbind r (\<lambda>b. if b then Inr True else any_res rs)"

lemma rbind_simps [simp]:
  "rbind (Inl e) f = Inl e"
  "rbind (Inr x) f = f x"
  by (simp_all add: rbind_def)

lemma rbind_assoc [simp]: "rbind (rbind r f) g = rbind r (\<lambda>x. rbind (f x) g)"
  by (cases r) simp_all

lemma rbind_eq_Inr: "rbind r f = Inr y \<longleftrightarrow> (\<exists>x. r = Inr x \<and> f x = Inr y)"
  by (cases r) simp_all

lemma rbind_eq_Inl: "rbind r f = Inl e \<longleftrightarrow> r = Inl e \<or> (\<exists>x. r = Inr x \<and> f x = Inl e)"
  by (cases r) simp_all

lemma rguard_simps [simp]:
  "rguard True e r = Inl e"
  "rguard False e r = r"
  by (simp_all add: rguard_def)

lemma rguard_eq_Inr: "rguard b e r = Inr y \<longleftrightarrow> \<not> b \<and> r = Inr y"
  by (simp add: rguard_def)

lemma rguard_eq_Inl: "rguard b e r = Inl e' \<longleftrightarrow> (if b then e' = e else r = Inl e')"
  by (auto simp: rguard_def)

lemma is_ok_simps [simp]:
  "is_ok (Inl e) = False"
  "is_ok (Inr x) = True"
  by (simp_all add: is_ok_def)

lemma is_ok_iff: "is_ok r \<longleftrightarrow> (\<exists>x. r = Inr x)"
  by (cases r) simp_all

lemma any_res_Inr_False: "any_res rs = Inr False \<longleftrightarrow> (\<forall>r \<in> set rs. r = Inr False)"
  by (induction rs) (auto simp: rbind_eq_Inr split: if_splits)

lemma any_res_all_ok:
  "(\<forall>r \<in> set rs. is_ok r) \<Longrightarrow> any_res rs = Inr (Inr True \<in> set rs)"
  by (induction rs) (auto simp: is_ok_iff)

lemmas res_eq_iff = rbind_eq_Inr rbind_eq_Inl rguard_eq_Inr rguard_eq_Inl

section \<open>Lemma collections\<close>

text \<open>
  \<open>gate_defs\<close> unfolds the pre-trade gates; the component theories add to it.
\<close>

named_theorems gate_defs \<open>definitions of the pre-trade gates\<close>

section \<open>Powers of two\<close>

lemma two_powi_pos [simp]: "(0::real) < 2 powi k"
  by simp

lemma two_powi_not_neg [simp]: "\<not> (2::real) powi k \<le> 0" "\<not> (2::real) powi k < 0"
  using two_powi_pos [of k] by linarith+

lemma two_powi_less_iff: "(2::real) powi j < 2 powi k \<longleftrightarrow> j < k"
proof
  assume "(2::real) powi j < 2 powi k"
  then show "j < k"
    using power_int_increasing [of k j "2::real"] by (meson linorder_not_le one_le_numeral)
next
  assume "j < k"
  then show "(2::real) powi j < 2 powi k"
    by (intro power_int_strict_increasing) simp_all
qed

lemma two_powi_le_iff: "(2::real) powi j \<le> 2 powi k \<longleftrightarrow> j \<le> k"
  using two_powi_less_iff [of k j] by linarith

lemma two_powi_add: "(2::real) powi (j + k) = 2 powi j * 2 powi k"
  by (simp add: power_int_add)

lemma two_powi_nat: "0 \<le> k \<Longrightarrow> (2::real) ^ nat k = 2 powi k"
  by (simp add: power_int_def)

lemma two_powi_diff: "(2::real) powi (j - k) = 2 powi j / 2 powi k"
  by (simp add: power_int_diff)

end
