(* ===== verification/Binary64.thy ===== *)
theory Binary64
  imports Prelude
begin

text \<open>
  IEEE 754 binary64, the arithmetic of Python's \<open>float\<close>: not-a-number, the infinities and
  the finite values \<open>\<plusminus> m * 2^e\<close>, with addition, subtraction, multiplication and division
  rounded to nearest, ties to even, executable on integers. The second half relates every
  operation to the exact operation on \<open>real\<close> followed by one rounding, and proves the
  rounding monotone, which is what the order properties of the risk gates rest on.
\<close>

section \<open>Representation\<close>

text \<open>
  \<open>Fin s m e\<close> is the value \<open>m * 2^e\<close>, negated when \<open>s\<close>; \<open>m\<close> is never negative. Zeros
  keep their sign. A value produced by rounding is canonical: 53 significant bits unless
  it is subnormal.
\<close>

datatype f64 = NaN | Inf bool | Fin bool int int

definition canonical :: "f64 \<Rightarrow> bool" where
  "canonical x = (case x of NaN \<Rightarrow> True | Inf _ \<Rightarrow> True
     | Fin s m e \<Rightarrow> 0 \<le> m \<and> m < 2 ^ 53 \<and> -1074 \<le> e \<and> e \<le> 971
         \<and> (2 ^ 52 \<le> m \<or> e = -1074))"

fun is_finite :: "f64 \<Rightarrow> bool" where
  "is_finite (Fin s m e) = True"
| "is_finite _ = False"

fun sgn_int :: "bool \<Rightarrow> int \<Rightarrow> int" where
  "sgn_int s m = (if s then - m else m)"

section \<open>Rounding\<close>

text \<open>Python's \<open>int.bit_length\<close>.\<close>

fun bit_length :: "int \<Rightarrow> int" where
  "bit_length n = (if n \<le> 0 then 0 else 1 + bit_length (n div 2))"

declare bit_length.simps [simp del]

text \<open>The largest \<open>k\<close> with \<open>2^k \<le> p / q\<close>, for positive \<open>p\<close> and \<open>q\<close>.\<close>

definition flog2 :: "int \<Rightarrow> int \<Rightarrow> int" where
  "flog2 p q =
     (let l = bit_length p - bit_length q
      in if q * 2 ^ nat l \<le> p * 2 ^ nat (- l) then l else l - 1)"

text \<open>The quotient rounded to the nearest integer, ties to even.\<close>

definition rne_div :: "int \<Rightarrow> int \<Rightarrow> int" where
  "rne_div num den =
     (let d = num div den; r = num mod den
      in if 2 * r < den then d else if den < 2 * r then d + 1
         else if even d then d else d + 1)"

text \<open>The float nearest to \<open>(p / q) * 2^e\<close>, for \<open>0 \<le> p\<close> and \<open>0 < q\<close>, with sign \<open>s\<close>.\<close>

definition round_f64 :: "bool \<Rightarrow> int \<Rightarrow> int \<Rightarrow> int \<Rightarrow> f64" where
  "round_f64 s p q e =
     (if p \<le> 0 then Fin s 0 (-1074)
      else let t = max (flog2 p q + e - 52) (-1074);
               m = rne_div (p * 2 ^ nat (e - t)) (q * 2 ^ nat (t - e));
               m' = (if m = 2 ^ 53 then 2 ^ 52 else m);
               t' = (if m = 2 ^ 53 then t + 1 else t)
           in if 971 < t' then Inf s else Fin s m' t')"

section \<open>Arithmetic\<close>

definition f64_zero :: f64 where
  "f64_zero = Fin False 0 (-1074)"

fun fneg :: "f64 \<Rightarrow> f64" where
  "fneg NaN = NaN"
| "fneg (Inf s) = Inf (\<not> s)"
| "fneg (Fin s m e) = Fin (\<not> s) m e"

fun fadd :: "f64 \<Rightarrow> f64 \<Rightarrow> f64" where
  "fadd (Fin s1 m1 e1) (Fin s2 m2 e2) =
     (let e = min e1 e2;
          n = sgn_int s1 m1 * 2 ^ nat (e1 - e) + sgn_int s2 m2 * 2 ^ nat (e2 - e)
      in if n = 0 then Fin (s1 \<and> s2) 0 (-1074) else round_f64 (n < 0) \<bar>n\<bar> 1 e)"
| "fadd NaN _ = NaN"
| "fadd _ NaN = NaN"
| "fadd (Inf s) (Inf t) = (if s = t then Inf s else NaN)"
| "fadd (Inf s) (Fin _ _ _) = Inf s"
| "fadd (Fin _ _ _) (Inf t) = Inf t"

definition fsub :: "f64 \<Rightarrow> f64 \<Rightarrow> f64" where
  "fsub x y = fadd x (fneg y)"

fun fmul :: "f64 \<Rightarrow> f64 \<Rightarrow> f64" where
  "fmul (Fin s1 m1 e1) (Fin s2 m2 e2) = round_f64 (s1 \<noteq> s2) (m1 * m2) 1 (e1 + e2)"
| "fmul NaN _ = NaN"
| "fmul _ NaN = NaN"
| "fmul (Inf s) (Inf t) = Inf (s \<noteq> t)"
| "fmul (Inf s) (Fin t m e) = (if m = 0 then NaN else Inf (s \<noteq> t))"
| "fmul (Fin t m e) (Inf s) = (if m = 0 then NaN else Inf (s \<noteq> t))"

text \<open>
  Division as the hardware does it; Python raises on a zero divisor before it gets here
  (see \<open>PyNum\<close>).
\<close>

fun fdiv :: "f64 \<Rightarrow> f64 \<Rightarrow> f64" where
  "fdiv (Fin s1 m1 e1) (Fin s2 m2 e2) =
     (if m2 = 0 then (if m1 = 0 then NaN else Inf (s1 \<noteq> s2))
      else round_f64 (s1 \<noteq> s2) m1 m2 (e1 - e2))"
| "fdiv NaN _ = NaN"
| "fdiv _ NaN = NaN"
| "fdiv (Inf s) (Inf t) = NaN"
| "fdiv (Inf s) (Fin t m e) = Inf (s \<noteq> t)"
| "fdiv (Fin t m e) (Inf s) = Fin (s \<noteq> t) 0 (-1074)"

text \<open>The float nearest to an integer; too large an integer gives an infinity.\<close>

definition f64_of_int :: "int \<Rightarrow> f64" where
  "f64_of_int n = round_f64 (n < 0) \<bar>n\<bar> 1 0"

text \<open>An integer as an exact (not canonical) value, for comparisons only.\<close>

definition exact_int :: "int \<Rightarrow> f64" where
  "exact_int n = Fin (n < 0) \<bar>n\<bar> 0"

section \<open>Comparison\<close>

text \<open>All comparisons with a NaN are false.\<close>

fun flt :: "f64 \<Rightarrow> f64 \<Rightarrow> bool" where
  "flt (Fin s1 m1 e1) (Fin s2 m2 e2) =
     (let e = min e1 e2
      in sgn_int s1 m1 * 2 ^ nat (e1 - e) < sgn_int s2 m2 * 2 ^ nat (e2 - e))"
| "flt NaN _ = False"
| "flt _ NaN = False"
| "flt (Inf s) (Inf t) = (s \<and> \<not> t)"
| "flt (Inf s) (Fin _ _ _) = s"
| "flt (Fin _ _ _) (Inf t) = (\<not> t)"

fun fle :: "f64 \<Rightarrow> f64 \<Rightarrow> bool" where
  "fle (Fin s1 m1 e1) (Fin s2 m2 e2) =
     (let e = min e1 e2
      in sgn_int s1 m1 * 2 ^ nat (e1 - e) \<le> sgn_int s2 m2 * 2 ^ nat (e2 - e))"
| "fle NaN _ = False"
| "fle _ NaN = False"
| "fle (Inf s) (Inf t) = (s \<or> \<not> t)"
| "fle (Inf s) (Fin _ _ _) = s"
| "fle (Fin _ _ _) (Inf t) = (\<not> t)"

definition feq :: "f64 \<Rightarrow> f64 \<Rightarrow> bool" where
  "feq x y = (fle x y \<and> fle y x)"

text \<open>
  A literal: the float nearest to \<open>p / q\<close>, so that \<open>0.1\<close> is \<open>lit 1 10\<close>.
\<close>

definition lit :: "int \<Rightarrow> int \<Rightarrow> f64" where
  "lit p q = round_f64 (p < 0) \<bar>p\<bar> q 0"


section \<open>Exact values and the rounding function on the reals\<close>

fun fval :: "f64 \<Rightarrow> real" where
  "fval (Fin s m e) = of_int (sgn_int s m) * 2 powi e"
| "fval _ = 0"

definition ilog2 :: "real \<Rightarrow> int" where
  "ilog2 v = \<lfloor>log 2 v\<rfloor>"

lemma ilog2_bounds:
  assumes "0 < v"
  shows "2 powi ilog2 v \<le> v" and "v < 2 powi (ilog2 v + 1)"
proof -
  have v: "v = 2 powr log 2 v" using assms by simp
  have "2 powr of_int (ilog2 v) \<le> 2 powr log 2 v"
    by (rule powr_mono) (simp_all add: ilog2_def)
  then show "2 powi ilog2 v \<le> v"
    using v by (simp add: powr_real_of_int')
  have "2 powr log 2 v < 2 powr of_int (ilog2 v + 1)"
    by (rule powr_less_mono) (simp_all add: ilog2_def)
  then show "v < 2 powi (ilog2 v + 1)"
    using v powr_real_of_int' [of 2 "ilog2 v + 1"] by simp
qed

lemma ilog2_unique:
  assumes "2 powi k \<le> v" and "v < 2 powi (k + 1)"
  shows "ilog2 v = k"
proof -
  have v: "0 < v" using assms(1) two_powi_pos [of k] by linarith
  have "(2::real) powi ilog2 v < 2 powi (k + 1)"
    using ilog2_bounds(1) [OF v] assms(2) by linarith
  moreover have "(2::real) powi k < 2 powi (ilog2 v + 1)"
    using ilog2_bounds(2) [OF v] assms(1) by linarith
  ultimately show ?thesis by (simp add: two_powi_less_iff)
qed

lemma ilog2_mono: "0 < v \<Longrightarrow> v \<le> w \<Longrightarrow> ilog2 v \<le> ilog2 w"
  unfolding ilog2_def by (intro floor_mono) simp

text \<open>Nearest integer, ties to even.\<close>

definition rne_real :: "real \<Rightarrow> int" where
  "rne_real x =
     (let d = \<lfloor>x\<rfloor>; r = x - of_int d
      in if r < 1 / 2 then d else if 1 / 2 < r then d + 1
         else if even d then d else d + 1)"

lemma rne_real_bounds: "\<lfloor>x\<rfloor> \<le> rne_real x" "rne_real x \<le> \<lfloor>x\<rfloor> + 1"
  by (auto simp: rne_real_def Let_def)

lemma rne_real_error: "\<bar>of_int (rne_real x) - x\<bar> \<le> 1 / 2"
proof -
  have "of_int \<lfloor>x\<rfloor> \<le> x" "x < of_int \<lfloor>x\<rfloor> + 1" by linarith+
  then show ?thesis by (auto simp: rne_real_def Let_def)
qed

lemma rne_real_of_int [simp]: "rne_real (of_int k) = k"
  by (simp add: rne_real_def)

lemma rne_real_mono:
  assumes "x \<le> y"
  shows "rne_real x \<le> rne_real y"
proof (cases "\<lfloor>x\<rfloor> = \<lfloor>y\<rfloor>")
  case True
  with assms show ?thesis by (auto simp: rne_real_def Let_def)
next
  case False
  with assms have "\<lfloor>x\<rfloor> + 1 \<le> \<lfloor>y\<rfloor>" using floor_mono [of x y] by linarith
  then show ?thesis using rne_real_bounds(2) [of x] rne_real_bounds(1) [of y] by linarith
qed

text \<open>The exponent of the rounding grid at \<open>v\<close>, and the rounded magnitude.\<close>

definition grid :: "real \<Rightarrow> int" where
  "grid v = max (ilog2 v - 52) (-1074)"

definition mag :: "real \<Rightarrow> real" where
  "mag v = (if v \<le> 0 then 0 else of_int (rne_real (v / 2 powi grid v)) * 2 powi grid v)"

lemma mag_nonneg: "0 \<le> mag v"
proof (cases "v \<le> 0")
  case False
  then have "0 \<le> \<lfloor>v / 2 powi grid v\<rfloor>" by simp
  with rne_real_bounds(1) [of "v / 2 powi grid v"] have "0 \<le> rne_real (v / 2 powi grid v)"
    by linarith
  then show ?thesis by (simp add: mag_def)
qed (simp add: mag_def)

lemma scaled_less:
  assumes "0 < v"
  shows "v / 2 powi grid v < 2 ^ 53"
proof -
  have "v < 2 powi (ilog2 v + 1)" using ilog2_bounds(2) assms .
  also have "\<dots> \<le> 2 powi (53 + grid v)"
    by (simp add: two_powi_le_iff grid_def)
  also have "\<dots> = 2 ^ 53 * 2 powi grid v" by (simp add: two_powi_add)
  finally show ?thesis by (simp add: divide_less_eq)
qed

lemma mag_le_binade:
  assumes "0 < v"
  shows "mag v \<le> 2 powi (grid v + 53)"
proof -
  have "rne_real (v / 2 powi grid v) \<le> rne_real (of_int (2 ^ 53))"
    using scaled_less [OF assms] by (intro rne_real_mono) simp
  then have "rne_real (v / 2 powi grid v) \<le> 2 ^ 53" by (simp only: rne_real_of_int)
  then have "real_of_int (rne_real (v / 2 powi grid v)) \<le> real_of_int (2 ^ 53)"
    by (simp only: of_int_le_iff)
  then show ?thesis using assms by (simp add: mag_def two_powi_add mult.commute)
qed

lemma mag_ge_binade:
  assumes "0 < v" and "-1074 < grid v"
  shows "2 powi (grid v + 52) \<le> mag v"
proof -
  from assms(2) have g: "ilog2 v = grid v + 52" by (simp add: grid_def max_def split: if_splits)
  have "2 powi (grid v + 52) \<le> v" using ilog2_bounds(1) [OF assms(1)] g by simp
  then have "2 ^ 52 \<le> v / 2 powi grid v" by (simp add: two_powi_add le_divide_eq mult.commute)
  then have "rne_real (of_int (2 ^ 52)) \<le> rne_real (v / 2 powi grid v)"
    by (intro rne_real_mono) simp
  then have "2 ^ 52 \<le> rne_real (v / 2 powi grid v)" by (simp only: rne_real_of_int)
  then have "real_of_int (2 ^ 52) \<le> real_of_int (rne_real (v / 2 powi grid v))"
    by (simp only: of_int_le_iff)
  then show ?thesis using assms(1) by (simp add: mag_def two_powi_add mult.commute)
qed

text \<open>Rounding is monotone: larger exact results never give smaller floats.\<close>

lemma mag_mono:
  assumes "v \<le> w"
  shows "mag v \<le> mag w"
proof (cases "v \<le> 0")
  case True
  then show ?thesis using mag_nonneg [of w] by (simp add: mag_def)
next
  case False
  then have v: "0 < v" and w: "0 < w" using assms by simp_all
  have "grid v \<le> grid w" using ilog2_mono [OF v assms] by (simp add: grid_def)
  then consider "grid v = grid w" | "grid v < grid w" by linarith
  then show ?thesis
  proof cases
    case 1
    have "rne_real (v / 2 powi grid v) \<le> rne_real (w / 2 powi grid w)"
      using assms 1 by (intro rne_real_mono) (simp add: divide_right_mono)
    then show ?thesis using v w 1 by (simp add: mag_def)
  next
    case 2
    have "mag v \<le> 2 powi (grid v + 53)" by (rule mag_le_binade [OF v])
    also have "\<dots> \<le> 2 powi (grid w + 52)" using 2 by (simp add: two_powi_le_iff)
    also have "\<dots> \<le> mag w" using 2 w by (intro mag_ge_binade) (auto simp: grid_def)
    finally show ?thesis .
  qed
qed


section \<open>The executable rounding computes the real one\<close>

lemma bit_length_nonneg: "0 \<le> bit_length n"
  by (induction n rule: bit_length.induct) (subst bit_length.simps, simp)

lemma bit_length_pos: "0 < n \<Longrightarrow> 0 < bit_length n"
  using bit_length_nonneg [of "n div 2"] by (simp add: bit_length.simps [of n])

lemma bit_length_bounds:
  "0 < n \<Longrightarrow> 2 powi (bit_length n - 1) \<le> real_of_int n \<and> real_of_int n < 2 powi bit_length n"
proof (induction n rule: bit_length.induct)
  case (1 n)
  have bl: "bit_length n = 1 + bit_length (n div 2)"
    using "1.prems" by (simp add: bit_length.simps [of n])
  show ?case
  proof (cases "n = 1")
    case True
    then have "bit_length n = 1" using bl by (simp add: bit_length.simps [of 0])
    then show ?thesis using True by simp
  next
    case False
    then have pos: "0 < n div 2" using "1.prems" by linarith
    define k where "k = bit_length (n div 2)"
    have IH: "2 powi (k - 1) \<le> real_of_int (n div 2)" "real_of_int (n div 2) < 2 powi k"
      using "1.IH" "1.prems" pos by (simp_all add: k_def)
    have k: "0 < k" using bit_length_pos [OF pos] by (simp add: k_def)
    have "real_of_int (n div 2) < real_of_int (2 ^ nat k)"
      using IH(2) k by (simp add: two_powi_nat)
    then have "n div 2 + 1 \<le> 2 ^ nat k" by (simp only: of_int_less_iff)
    then have "n < 2 * 2 ^ nat k" by linarith
    then have "real_of_int n < real_of_int (2 * 2 ^ nat k)" by (simp only: of_int_less_iff)
    then have up: "real_of_int n < 2 * 2 powi k" using k by (simp add: two_powi_nat)
    have "2 * real_of_int (n div 2) \<le> real_of_int n" by linarith
    then have lo: "2 * 2 powi (k - 1) \<le> real_of_int n" using IH(1) by linarith
    have b: "bit_length n = k + 1" using bl by (simp add: k_def)
    have "2 powi k = 2 * (2::real) powi (k - 1)" using two_powi_add [of 1 "k - 1"] by simp
    moreover have "2 powi (k + 1) = 2 * (2::real) powi k" using two_powi_add [of k 1] by simp
    ultimately show ?thesis using up lo b by simp
  qed
qed

lemma scale_frac:
  "real_of_int (p * 2 ^ nat k) / real_of_int (q * 2 ^ nat (- k))
     = real_of_int p / real_of_int q * 2 powi k"
proof (cases "0 \<le> k")
  case True
  then show ?thesis by (simp add: two_powi_nat)
next
  case False
  then have "(2::real) powi k = 1 / 2 ^ nat (- k)"
    by (simp add: power_int_def inverse_eq_divide power_one_over)
  then show ?thesis using False by simp
qed

lemma flog2_ilog2:
  assumes "0 < p" and "0 < q"
  shows "ilog2 (real_of_int p / real_of_int q) = flog2 p q"
proof -
  define l where "l = bit_length p - bit_length q"
  let ?v = "real_of_int p / real_of_int q"
  note bp = bit_length_bounds [OF assms(1)] and bq = bit_length_bounds [OF assms(2)]
  have q0: "0 < real_of_int q" using assms(2) by simp
  have "?v < 2 powi bit_length p / 2 powi (bit_length q - 1)"
    using bp bq assms by (intro frac_less) auto
  then have up: "?v < 2 powi (l + 1)"
    by (simp add: l_def two_powi_diff two_powi_add field_simps)
  have "2 powi (bit_length p - 1) / 2 powi bit_length q \<le> ?v"
    using bp bq assms q0 by (intro frac_le) auto
  moreover have "2 powi (bit_length p - 1) / 2 powi bit_length q = (2::real) powi (l - 1)"
    by (simp add: l_def algebra_simps flip: two_powi_diff)
  ultimately have lo: "2 powi (l - 1) \<le> ?v" by simp
  have "q * 2 ^ nat l \<le> p * 2 ^ nat (- l) \<longleftrightarrow>
      real_of_int (q * 2 ^ nat l) \<le> real_of_int (p * 2 ^ nat (- l))"
    by (simp only: of_int_le_iff)
  also have "\<dots> \<longleftrightarrow> real_of_int (q * 2 ^ nat l) / real_of_int (1 * 2 ^ nat (- l)) \<le> real_of_int p"
    by (simp add: divide_le_eq)
  also have "\<dots> \<longleftrightarrow> real_of_int q * 2 powi l \<le> real_of_int p"
    by (simp only: scale_frac of_int_1 div_by_1)
  also have "\<dots> \<longleftrightarrow> 2 powi l \<le> ?v"
    using q0 by (simp add: le_divide_eq mult.commute)
  finally have c: "q * 2 ^ nat l \<le> p * 2 ^ nat (- l) \<longleftrightarrow> 2 powi l \<le> ?v" .
  show ?thesis
  proof (cases "2 powi l \<le> ?v")
    case True
    with c up show ?thesis by (auto simp: flog2_def Let_def l_def intro: ilog2_unique)
  next
    case False
    then have "ilog2 ?v = l - 1" using lo by (intro ilog2_unique) simp_all
    with False c show ?thesis by (simp add: flog2_def Let_def l_def)
  qed
qed

lemma rne_div_real:
  assumes "0 < den"
  shows "rne_div num den = rne_real (real_of_int num / real_of_int den)"
proof -
  define d where "d = num div den"
  define r where "r = num mod den"
  have n: "real_of_int num = real_of_int d * real_of_int den + real_of_int r"
    unfolding d_def r_def by (metis div_mult_mod_eq of_int_add of_int_mult)
  have fl: "\<lfloor>real_of_int num / real_of_int den\<rfloor> = d"
    by (simp add: d_def floor_divide_of_int_eq)
  have fr: "real_of_int num / real_of_int den - real_of_int d = real_of_int r / real_of_int den"
    using assms n by (simp add: field_simps)
  have "real_of_int r / real_of_int den < 1 / 2 \<longleftrightarrow> 2 * r < den"
    using assms by (simp add: field_simps) linarith
  moreover have "1 / 2 < real_of_int r / real_of_int den \<longleftrightarrow> den < 2 * r"
    using assms by (simp add: field_simps) linarith
  ultimately show ?thesis
    unfolding rne_div_def rne_real_def Let_def fl fr d_def [symmetric] r_def [symmetric]
    by (simp only:)
qed

text \<open>
  \<open>approx x v\<close>: the float \<open>x\<close> is the exact real \<open>v\<close> rounded once (overflow giving an
  infinity of the right sign).
\<close>

definition f64_limit :: real where
  "f64_limit = 2 ^ 1024"

definition approx :: "f64 \<Rightarrow> real \<Rightarrow> bool" where
  "approx x v = (case x of NaN \<Rightarrow> False
     | Inf s \<Rightarrow> (s \<longleftrightarrow> v < 0) \<and> f64_limit \<le> mag \<bar>v\<bar>
     | Fin s m e \<Rightarrow> fval x = sgn v * mag \<bar>v\<bar> \<and> mag \<bar>v\<bar> < f64_limit)"


lemma ilog2_scale:
  assumes "0 < v"
  shows "ilog2 (v * 2 powi e) = ilog2 v + e"
proof (rule ilog2_unique)
  show "2 powi (ilog2 v + e) \<le> v * 2 powi e"
    using ilog2_bounds(1) [OF assms] by (simp add: two_powi_add)
  have "v * 2 powi e < 2 powi (ilog2 v + 1) * 2 powi e"
    using ilog2_bounds(2) [OF assms] by simp
  also have "\<dots> = 2 powi (ilog2 v + e + 1)" by (simp add: algebra_simps flip: two_powi_add)
  finally show "v * 2 powi e < 2 powi (ilog2 v + e + 1)" .
qed

text \<open>The rounded significand of a positive number, and when it is too large.\<close>

lemma significand_bounds:
  assumes "0 < v"
  shows "0 \<le> rne_real (v / 2 powi grid v)" and "rne_real (v / 2 powi grid v) \<le> 2 ^ 53"
    and "2 ^ 52 \<le> rne_real (v / 2 powi grid v) \<or> grid v = -1074"
proof -
  define m where "m = rne_real (v / 2 powi grid v)"
  have mag: "mag v = real_of_int m * 2 powi grid v" using assms by (simp add: mag_def m_def)
  show "0 \<le> rne_real (v / 2 powi grid v)"
    using mag mag_nonneg [of v] unfolding m_def by (simp add: zero_le_mult_iff)
  have "real_of_int m \<le> 2 ^ 53"
    using mag_le_binade [OF assms] mag by (simp add: two_powi_add mult.commute)
  then have "real_of_int m \<le> real_of_int (2 ^ 53)" by simp
  then show "rne_real (v / 2 powi grid v) \<le> 2 ^ 53" unfolding m_def by (simp only: of_int_le_iff)
  show "2 ^ 52 \<le> rne_real (v / 2 powi grid v) \<or> grid v = -1074"
  proof (cases "grid v = -1074")
    case False
    then have "-1074 < grid v" by (simp add: grid_def)
    then have "2 ^ 52 \<le> real_of_int m"
      using mag_ge_binade [OF assms] mag by (simp add: two_powi_add mult.commute)
    then have "real_of_int (2 ^ 52) \<le> real_of_int m" by simp
    then show ?thesis unfolding m_def by (simp only: of_int_le_iff) simp
  qed simp
qed

lemma exponent_limit:
  assumes "0 \<le> m" and "m < 2 ^ 53" and "2 ^ 52 \<le> m \<or> t = -1074"
  shows "971 < t \<Longrightarrow> f64_limit \<le> real_of_int m * 2 powi t"
    and "t \<le> 971 \<Longrightarrow> real_of_int m * 2 powi t < f64_limit"
proof -
  have limit: "real_of_int (2 ^ 52) * 2 powi 972 = f64_limit" "2 ^ 53 * 2 powi 971 = f64_limit"
    by (simp_all add: f64_limit_def)
  show "f64_limit \<le> real_of_int m * 2 powi t" if "971 < t"
  proof -
    have "real_of_int (2 ^ 52) \<le> real_of_int m" using that assms(3) by (simp only: of_int_le_iff) simp
    moreover have "(2::real) powi 972 \<le> 2 powi t" using that by (simp only: two_powi_le_iff)
    ultimately show ?thesis
      unfolding limit(1) [symmetric]
      by (rule mult_mono) (simp_all only: two_powi_pos [THEN order_less_imp_le] of_int_0_le_iff assms(1))
  qed
  show "real_of_int m * 2 powi t < f64_limit" if "t \<le> 971"
  proof -
    have "real_of_int m < real_of_int (2 ^ 53)" using assms(2) by (simp only: of_int_less_iff)
    then have "real_of_int m * 2 powi t < 2 ^ 53 * 2 powi t" by simp
    also have "\<dots> \<le> 2 ^ 53 * 2 powi 971"
      using that by (intro mult_left_mono) (simp_all only: two_powi_le_iff, simp)
    finally show ?thesis by (simp only: limit(2))
  qed
qed

text \<open>What \<open>round_f64\<close> computes for a positive argument, with its bounds.\<close>

lemma round_f64_cases:
  assumes "0 < p" and "0 < q" and v: "v = real_of_int p / real_of_int q * 2 powi e"
  obtains (overflow) "round_f64 s p q e = Inf s" "f64_limit \<le> mag v"
    | (finite) m t where "round_f64 s p q e = Fin s m t" "mag v = real_of_int m * 2 powi t"
        "mag v < f64_limit" "0 \<le> m" "m < 2 ^ 53" "-1074 \<le> t" "t \<le> 971" "2 ^ 52 \<le> m \<or> t = -1074"
proof -
  define t where "t = max (flog2 p q + e - 52) (-1074)"
  define m where "m = rne_div (p * 2 ^ nat (e - t)) (q * 2 ^ nat (t - e))"
  define m' where "m' = (if m = 2 ^ 53 then 2 ^ 52 else m)"
  define t' where "t' = (if m = 2 ^ 53 then t + 1 else t)"
  have pq: "0 < real_of_int p / real_of_int q" using assms by simp
  have v0: "0 < v" unfolding v using pq by (rule mult_pos_pos) simp
  have "ilog2 v = flog2 p q + e" unfolding v ilog2_scale [OF pq] using assms by (simp only: flog2_ilog2)
  then have t: "t = grid v" by (simp add: t_def grid_def)
  have m: "m = rne_real (v / 2 powi t)"
    using assms scale_frac [of p "e - t" q]
    by (simp add: m_def rne_div_real v two_powi_diff)
  have mag: "mag v = real_of_int m * 2 powi t" using v0 by (simp add: mag_def m t)
  note bounds = significand_bounds [OF v0, folded t, folded m]
  have val: "real_of_int m' * 2 powi t' = mag v"
    by (simp add: m'_def t'_def mag two_powi_add)
  have b: "0 \<le> m'" "m' < 2 ^ 53" "2 ^ 52 \<le> m' \<or> t' = -1074" "-1074 \<le> t'"
    using bounds by (auto simp: m'_def t'_def t_def)
  have eq: "round_f64 s p q e = (if 971 < t' then Inf s else Fin s m' t')"
    unfolding round_f64_def Let_def t_def [symmetric] m_def [symmetric]
      m'_def [symmetric] t'_def [symmetric]
    using assms(1) by (simp only: linorder_not_le [symmetric] if_False)
  show thesis
  proof (cases "971 < t'")
    case True
    then have "f64_limit \<le> mag v" unfolding val [symmetric] by (rule exponent_limit(1) [OF b(1-3)])
    with True eq show thesis by (intro overflow) simp_all
  next
    case False
    then have "t' \<le> 971" by simp
    then have "mag v < f64_limit" unfolding val [symmetric] by (rule exponent_limit(2) [OF b(1-3)])
    with False eq b val show thesis by (intro finite) simp_all
  qed
qed

lemma round_f64_approx_pos:
  assumes "0 < p" and "0 < q" and v: "v = real_of_int p / real_of_int q * 2 powi e"
  shows "approx (round_f64 s p q e) (if s then - v else v)"
proof -
  have v0: "0 < v" using assms by simp
  show ?thesis
    by (rule round_f64_cases [OF assms, of s]) (use v0 in \<open>auto simp: approx_def\<close>)
qed

lemma round_f64_approx:
  assumes "0 \<le> p" and "0 < q"
  shows "approx (round_f64 s p q e) (real_of_int (sgn_int s p) / real_of_int q * 2 powi e)"
proof (cases "p = 0")
  case True
  then show ?thesis by (simp add: approx_def round_f64_def mag_def f64_limit_def)
next
  case False
  with assms have "0 < p" by simp
  then show ?thesis
    using round_f64_approx_pos [OF _ assms(2) refl, where p = p and e = e and s = s]
    by (cases s) simp_all
qed

lemma canonical_round_f64: "0 < q \<Longrightarrow> canonical (round_f64 s p q e)"
proof (cases "p \<le> 0")
  case True
  then show ?thesis by (simp add: round_f64_def canonical_def)
next
  case False
  then have p: "0 < p" by simp
  assume "0 < q"
  then show ?thesis
    by (rule round_f64_cases [OF p _ refl, of q s e]) (auto simp: canonical_def)
qed


section \<open>Comparisons are comparisons of the exact values\<close>

lemma fval_align:
  assumes "e0 \<le> e"
  shows "real_of_int (sgn_int s m * 2 ^ nat (e - e0)) = fval (Fin s m e) / 2 powi e0"
  using assms by (simp add: two_powi_nat two_powi_diff)

lemma cmp_align:
  shows "fval (Fin s1 m1 e1) / 2 powi min e1 e2 < fval (Fin s2 m2 e2) / 2 powi min e1 e2
     \<longleftrightarrow> fval (Fin s1 m1 e1) < fval (Fin s2 m2 e2)"
    and "fval (Fin s1 m1 e1) / 2 powi min e1 e2 \<le> fval (Fin s2 m2 e2) / 2 powi min e1 e2
     \<longleftrightarrow> fval (Fin s1 m1 e1) \<le> fval (Fin s2 m2 e2)"
  by (simp_all del: fval.simps add: divide_less_cancel divide_le_cancel)

lemma flt_fval_Fin:
  "flt (Fin s1 m1 e1) (Fin s2 m2 e2) \<longleftrightarrow> fval (Fin s1 m1 e1) < fval (Fin s2 m2 e2)"
proof -
  have "flt (Fin s1 m1 e1) (Fin s2 m2 e2) \<longleftrightarrow>
      real_of_int (sgn_int s1 m1 * 2 ^ nat (e1 - min e1 e2))
        < real_of_int (sgn_int s2 m2 * 2 ^ nat (e2 - min e1 e2))"
    by (simp only: flt.simps Let_def of_int_less_iff)
  then show ?thesis by (simp only: fval_align min.cobounded1 min.cobounded2 cmp_align)
qed

lemma fle_fval_Fin:
  "fle (Fin s1 m1 e1) (Fin s2 m2 e2) \<longleftrightarrow> fval (Fin s1 m1 e1) \<le> fval (Fin s2 m2 e2)"
proof -
  have "fle (Fin s1 m1 e1) (Fin s2 m2 e2) \<longleftrightarrow>
      real_of_int (sgn_int s1 m1 * 2 ^ nat (e1 - min e1 e2))
        \<le> real_of_int (sgn_int s2 m2 * 2 ^ nat (e2 - min e1 e2))"
    by (simp only: fle.simps Let_def of_int_le_iff)
  then show ?thesis by (simp only: fval_align min.cobounded1 min.cobounded2 cmp_align)
qed

lemma flt_fval: "is_finite x \<Longrightarrow> is_finite y \<Longrightarrow> flt x y \<longleftrightarrow> fval x < fval y"
  by (cases x; cases y) (simp_all only: flt_fval_Fin is_finite.simps)

lemma fle_fval: "is_finite x \<Longrightarrow> is_finite y \<Longrightarrow> fle x y \<longleftrightarrow> fval x \<le> fval y"
  by (cases x; cases y) (simp_all only: fle_fval_Fin is_finite.simps)

declare flt.simps(1) [simp del] fle.simps(1) [simp del]

lemma fle_NaN [simp]: "\<not> fle x NaN" "\<not> flt x NaN"
  by (cases x; simp)+

lemma fle_Inf [simp]:
  "x \<noteq> NaN \<Longrightarrow> fle x (Inf False)" "x \<noteq> NaN \<Longrightarrow> fle (Inf True) x"
  by (cases x; simp)+

lemma is_finite_iff: "is_finite x \<longleftrightarrow> (\<exists>s m e. x = Fin s m e)"
  by (cases x) simp_all

lemma fle_trans: "fle x y \<Longrightarrow> fle y z \<Longrightarrow> fle x z"
  by (cases x; cases y; cases z) (auto simp: fle_fval_Fin simp del: fval.simps)

lemma flt_imp_fle: "flt x y \<Longrightarrow> fle x y"
  by (cases x; cases y) (auto simp: flt_fval_Fin fle_fval_Fin simp del: fval.simps)

lemma not_flt_iff: "x \<noteq> NaN \<Longrightarrow> y \<noteq> NaN \<Longrightarrow> \<not> flt x y \<longleftrightarrow> fle y x"
  by (cases x; cases y) (auto simp: flt_fval_Fin fle_fval_Fin simp del: fval.simps)

lemma not_fle_iff: "x \<noteq> NaN \<Longrightarrow> y \<noteq> NaN \<Longrightarrow> \<not> fle x y \<longleftrightarrow> flt y x"
  using not_flt_iff [of y x] by blast

lemma fle_refl: "x \<noteq> NaN \<Longrightarrow> fle x x"
  by (cases x) (auto simp: fle_fval_Fin simp del: fval.simps)

lemma flt_fle_trans: "flt x y \<Longrightarrow> fle y z \<Longrightarrow> flt x z"
  by (cases x; cases y; cases z) (auto simp: flt_fval_Fin fle_fval_Fin simp del: fval.simps)

lemma fle_flt_trans: "fle x y \<Longrightarrow> flt y z \<Longrightarrow> flt x z"
  by (cases x; cases y; cases z) (auto simp: flt_fval_Fin fle_fval_Fin simp del: fval.simps)

lemma flt_irrefl [simp]: "\<not> flt x x"
  by (cases x) (auto simp: flt_fval_Fin simp del: fval.simps)

lemma flt_asym: "flt x y \<Longrightarrow> \<not> flt y x"
  using flt_imp_fle fle_flt_trans flt_irrefl by blast

lemma fle_not_NaN: "fle x y \<Longrightarrow> x \<noteq> NaN \<and> y \<noteq> NaN"
  by auto

lemma flt_not_NaN: "flt x y \<Longrightarrow> x \<noteq> NaN \<and> y \<noteq> NaN"
  by auto

section \<open>Every operation is the exact one, rounded once\<close>

text \<open>The signed rounding, monotone on the whole line.\<close>

lemma smag_mono:
  assumes "v \<le> w"
  shows "sgn v * mag \<bar>v\<bar> \<le> sgn w * mag \<bar>w\<bar>"
proof -
  consider "0 \<le> v" | "v < 0" "0 \<le> w" | "w < 0" by linarith
  then show ?thesis
  proof cases
    case 1
    with assms have "mag \<bar>v\<bar> \<le> mag \<bar>w\<bar>" by (intro mag_mono) simp
    with 1 assms show ?thesis by (auto simp: sgn_if mag_nonneg)
  next
    case 2
    then show ?thesis using mag_nonneg [of "\<bar>v\<bar>"] mag_nonneg [of "\<bar>w\<bar>"] by (simp add: sgn_if)
  next
    case 3
    with assms have "mag \<bar>w\<bar> \<le> mag \<bar>v\<bar>" by (intro mag_mono) simp
    with 3 assms show ?thesis by (simp add: sgn_if)
  qed
qed

lemma approx_not_NaN: "approx x v \<Longrightarrow> x \<noteq> NaN"
  by (auto simp: approx_def)

lemma approx_mono:
  assumes "approx x v" and "approx y w" and "v \<le> w"
  shows "fle x y"
proof -
  have m: "sgn v * mag \<bar>v\<bar> \<le> sgn w * mag \<bar>w\<bar>" by (rule smag_mono) fact
  have p: "0 \<le> v \<Longrightarrow> mag \<bar>v\<bar> \<le> mag \<bar>w\<bar>" and n: "w < 0 \<Longrightarrow> mag \<bar>w\<bar> \<le> mag \<bar>v\<bar>"
    using assms(3) by (auto intro!: mag_mono)
  show ?thesis
    using assms m p n
    by (cases "v < 0"; cases "w < 0"; cases x; cases y) (auto simp: approx_def fle_fval_Fin simp del: fval.simps)
qed

lemma canonical_mag:
  assumes "canonical (Fin s m e)" and "0 < m"
  shows "mag (real_of_int m * 2 powi e) = real_of_int m * 2 powi e"
    and "real_of_int m * 2 powi e < f64_limit"
proof -
  let ?v = "real_of_int m * 2 powi e"
  have m: "m < 2 ^ 53" and e: "-1074 \<le> e" "e \<le> 971" and c: "2 ^ 52 \<le> m \<or> e = -1074"
    using assms(1) by (simp_all add: canonical_def)
  have v0: "0 < ?v" using assms(2) by simp
  have "real_of_int m < real_of_int (2 ^ 53)" using m by (simp only: of_int_less_iff)
  then have mr: "real_of_int m < 2 powi 53" by simp
  have vb: "?v < 2 powi 53 * 2 powi e" using mr by (rule mult_strict_right_mono) simp
  moreover have "(2::real) powi (52 + e + 1) = 2 powi 53 * 2 powi e"
    by (simp add: two_powi_add)
  ultimately have up: "?v < 2 powi (52 + e + 1)" by (simp only:)
  have "grid ?v = e"
    using c
  proof
    assume "2 ^ 52 \<le> m"
    then have "real_of_int (2 ^ 52) \<le> real_of_int m" by (simp only: of_int_le_iff)
    then have "2 powi 52 * 2 powi e \<le> ?v" by simp
    then have "ilog2 ?v = 52 + e" using up by (intro ilog2_unique) (simp_all only: two_powi_add)
    then show ?thesis using e by (simp add: grid_def)
  next
    assume "e = -1074"
    moreover have "2 powi ilog2 ?v < (2::real) powi (52 + e + 1)"
      using ilog2_bounds(1) [OF v0] up by linarith
    ultimately show ?thesis by (simp only: two_powi_less_iff) (simp add: grid_def)
  qed
  then show "mag ?v = ?v" using v0 by (simp add: mag_def)
  have "?v < 2 powi 53 * 2 powi e" by (rule vb)
  also have "\<dots> \<le> 2 powi 53 * 2 powi 971"
    using e by (intro mult_left_mono) (simp_all only: two_powi_le_iff, simp)
  also have "\<dots> = f64_limit" by (simp add: f64_limit_def)
  finally show "?v < f64_limit" .
qed

lemma canonical_approx:
  assumes "canonical x" and "is_finite x"
  shows "approx x (fval x)"
proof -
  obtain s m e where x: "x = Fin s m e" using assms(2) by (cases x) simp_all
  then have "0 \<le> m" using assms(1) by (simp add: canonical_def)
  then consider "m = 0" | "0 < m" by linarith
  then show ?thesis
  proof cases
    case 1
    then show ?thesis by (simp add: x approx_def mag_def f64_limit_def)
  next
    case 2
    then show ?thesis
      using canonical_mag [OF assms(1) [unfolded x] 2]
      by (cases s) (simp_all add: x approx_def abs_mult sgn_mult)
  qed
qed


lemma fval_neg [simp]: "fval (fneg x) = - fval x"
  by (cases x) simp_all

lemma is_finite_neg [simp]: "is_finite (fneg x) = is_finite x"
  by (cases x) simp_all

lemma fneg_mono: "fle x y \<Longrightarrow> fle (fneg y) (fneg x)"
  by (cases x; cases y) (auto simp: fle_fval_Fin)

lemma canonical_neg [simp]: "canonical (fneg x) = canonical x"
  by (cases x) (simp_all add: canonical_def)

lemma fadd_approx:
  assumes "is_finite x" and "is_finite y"
  shows "approx (fadd x y) (fval x + fval y)"
proof -
  obtain s1 m1 e1 s2 m2 e2 where x: "x = Fin s1 m1 e1" and y: "y = Fin s2 m2 e2"
    using assms by (cases x; cases y) simp_all
  define e where "e = min e1 e2"
  define n where "n = sgn_int s1 m1 * 2 ^ nat (e1 - e) + sgn_int s2 m2 * 2 ^ nat (e2 - e)"
  have "real_of_int n = fval x / 2 powi e + fval y / 2 powi e"
    unfolding n_def of_int_add x y e_def
    by (simp only: fval_align min.cobounded1 min.cobounded2)
  then have sum: "real_of_int n * 2 powi e = fval x + fval y"
    by (simp add: add_divide_distrib [symmetric])
  have eq: "fadd x y = (if n = 0 then Fin (s1 \<and> s2) 0 (-1074) else round_f64 (n < 0) \<bar>n\<bar> 1 e)"
    by (simp only: x y fadd.simps Let_def flip: e_def n_def)
  have sgn: "sgn_int (n < 0) \<bar>n\<bar> = n" by simp
  show ?thesis
  proof (cases "n = 0")
    case True
    then show ?thesis using sum by (simp add: eq approx_def mag_def f64_limit_def flip: sum)
  next
    case False
    then show ?thesis
      using round_f64_approx [of "\<bar>n\<bar>" 1 "n < 0" e]
      by (simp only: eq sgn if_False abs_ge_zero of_int_1 div_by_1 sum zero_less_one simp_thms)
  qed
qed

lemma fmul_approx:
  assumes "is_finite x" and "is_finite y" and "canonical x" and "canonical y"
  shows "approx (fmul x y) (fval x * fval y)"
proof -
  obtain s1 m1 e1 s2 m2 e2 where x: "x = Fin s1 m1 e1" and y: "y = Fin s2 m2 e2"
    using assms by (cases x; cases y) simp_all
  have "0 \<le> m1 * m2" using assms by (simp add: x y canonical_def)
  then have "approx (fmul x y)
      (real_of_int (sgn_int (s1 \<noteq> s2) (m1 * m2)) / real_of_int 1 * 2 powi (e1 + e2))"
    unfolding x y fmul.simps by (rule round_f64_approx) simp
  moreover have "real_of_int (sgn_int (s1 \<noteq> s2) (m1 * m2)) / real_of_int 1 * 2 powi (e1 + e2)
      = fval x * fval y"
    by (simp add: x y two_powi_add)
  ultimately show ?thesis by (simp only:)
qed

lemma fdiv_approx:
  assumes "is_finite x" and "is_finite y" and "canonical x" and "canonical y" and "fval y \<noteq> 0"
  shows "approx (fdiv x y) (fval x / fval y)"
proof -
  obtain s1 m1 e1 s2 m2 e2 where x: "x = Fin s1 m1 e1" and y: "y = Fin s2 m2 e2"
    using assms by (cases x; cases y) simp_all
  have m: "0 \<le> m1" "0 < m2" using assms by (auto simp: x y canonical_def split: if_splits)
  then have "approx (fdiv x y)
      (real_of_int (sgn_int (s1 \<noteq> s2) m1) / real_of_int m2 * 2 powi (e1 - e2))"
    using round_f64_approx [of m1 m2 "s1 \<noteq> s2" "e1 - e2"] by (simp add: x y)
  moreover have "real_of_int (sgn_int (s1 \<noteq> s2) m1) / real_of_int m2 * 2 powi (e1 - e2)
      = fval x / fval y"
    by (simp add: x y two_powi_diff)
  ultimately show ?thesis by (simp only:)
qed

lemma f64_of_int_approx: "approx (f64_of_int n) (real_of_int n)"
proof -
  have "sgn_int (n < 0) \<bar>n\<bar> = n" by simp
  then show ?thesis
    using round_f64_approx [of "\<bar>n\<bar>" 1 "n < 0" 0]
    by (simp only: f64_of_int_def abs_ge_zero of_int_1 div_by_1 power_int_0_right mult_1_right
        zero_less_one simp_thms)
qed

lemma canonical_ops [simp]:
  "canonical (fadd x y)" if "canonical x" "canonical y"
  using that
  by (cases x; cases y) (auto simp: canonical_round_f64 Let_def canonical_def [of "Fin _ 0 _"] canonical_def [of NaN] canonical_def [of "Inf _"])

lemma canonical_mul [simp]: "canonical (fmul x y)"
  by (cases x; cases y) (simp_all add: canonical_round_f64 canonical_def [of NaN] canonical_def [of "Inf _"])

lemma canonical_div [simp]: "canonical x \<Longrightarrow> canonical y \<Longrightarrow> canonical (fdiv x y)"
  by (cases x; cases y)
    (auto intro!: canonical_round_f64 simp: canonical_def [of NaN] canonical_def [of "Inf _"]
      canonical_def [of "Fin _ 0 _"] canonical_def [of "Fin _ _ _"])

lemma canonical_of_int [simp]: "canonical (f64_of_int n)"
  by (simp add: f64_of_int_def canonical_round_f64)

lemma canonical_lit [simp]: "0 < q \<Longrightarrow> canonical (lit p q)"
  by (simp add: lit_def canonical_round_f64)


section \<open>Monotonicity of the operations\<close>

lemma fadd_NaN [simp]: "fadd x NaN = NaN" "fadd NaN x = NaN"
  by (cases x; simp)+

lemma fadd_Fin_not_NaN:
  assumes "x \<noteq> NaN" and "is_finite y"
  shows "fadd x y \<noteq> NaN"
proof (cases "is_finite x")
  case True
  then show ?thesis using fadd_approx [OF True assms(2)] approx_not_NaN by blast
next
  case False
  with assms show ?thesis by (cases x; cases y) simp_all
qed

lemma fadd_mono_left:
  assumes "fle x x'" and "is_finite y"
  shows "fle (fadd x y) (fadd x' y)"
proof (cases "is_finite x \<and> is_finite x'")
  case True
  then have "fval x + fval y \<le> fval x' + fval y" using assms by (simp add: fle_fval)
  then show ?thesis using True assms(2) by (intro approx_mono [OF fadd_approx fadd_approx]) simp_all
next
  case False
  obtain s m e where y: "y = Fin s m e" using assms(2) by (cases y) simp_all
  from False consider "\<not> is_finite x" | "is_finite x" "\<not> is_finite x'" by blast
  then show ?thesis
  proof cases
    case 1
    then obtain t where x: "x = Inf t" using assms(1) by (cases x) simp_all
    show ?thesis
    proof (cases t)
      case True
      then show ?thesis
        using fadd_Fin_not_NaN [OF _ assms(2), of x'] fle_not_NaN [OF assms(1)]
        by (simp add: x y)
    next
      case False
      then show ?thesis using assms(1) by (cases x') (simp_all add: x y)
    qed
  next
    case 2
    then have x': "x' = Inf False" using assms(1) by (cases x'; cases x) simp_all
    then show ?thesis
      using fadd_Fin_not_NaN [OF _ assms(2), of x] fle_not_NaN [OF assms(1)] by (simp add: y)
  qed
qed

lemma fadd_mono_right:
  assumes "is_finite x" and "is_finite y" and "is_finite y'" and "fle y y'"
  shows "fle (fadd x y) (fadd x y')"
proof -
  have "fval x + fval y \<le> fval x + fval y'" using assms by (simp add: fle_fval)
  then show ?thesis using assms by (intro approx_mono [OF fadd_approx fadd_approx])
qed

lemma fdiv_mono_left:
  assumes "canonical x" "canonical x'" "canonical y"
    and "is_finite x" "is_finite x'" "is_finite y" and "0 < fval y" and "fle x x'"
  shows "fle (fdiv x y) (fdiv x' y)"
proof -
  have "fval x / fval y \<le> fval x' / fval y"
    using assms by (intro divide_right_mono) (simp_all add: fle_fval)
  then show ?thesis
    using assms by (intro approx_mono [OF fdiv_approx fdiv_approx]) simp_all
qed

lemma fmul_mono_left:
  assumes "canonical x" "canonical x'" "canonical y"
    and "is_finite x" "is_finite x'" "is_finite y" and "0 \<le> fval y" and "fle x x'"
  shows "fle (fmul x y) (fmul x' y)"
proof -
  have "fval x * fval y \<le> fval x' * fval y"
    using assms by (intro mult_right_mono) (simp_all add: fle_fval)
  then show ?thesis using assms by (intro approx_mono [OF fmul_approx fmul_approx]) simp_all
qed

text \<open>A rounded result never crosses a float: the exact value decides the comparison.\<close>

lemma approx_le_float:
  "approx x v \<Longrightarrow> canonical y \<Longrightarrow> is_finite y \<Longrightarrow> v \<le> fval y \<Longrightarrow> fle x y"
  by (rule approx_mono [OF _ canonical_approx])

lemma approx_ge_float:
  "approx x v \<Longrightarrow> canonical y \<Longrightarrow> is_finite y \<Longrightarrow> fval y \<le> v \<Longrightarrow> fle y x"
  by (rule approx_mono [OF canonical_approx])

end
