(* ===== verification/PyNum.thy ===== *)
theory PyNum
  imports Binary64
begin

text \<open>
  Python numbers. A parameter annotated \<open>float\<close> takes an \<open>int\<close> as well, and the two
  behave differently (exact integers against rounded floats, an \<open>OverflowError\<close> when an
  integer is too large for a float, and \<open>isinstance(x, float)\<close>), so both are kept. The
  operations are those of the interpreter: mixed comparisons are exact, mixed arithmetic
  converts the integer first.
\<close>

datatype pynum = PyInt int | PyFloat f64

section \<open>Conversion and classification\<close>

text \<open>\<open>float(x)\<close>\<close>

fun to_float :: "pynum \<Rightarrow> f64 res" where
  "to_float (PyFloat x) = Inr x"
| "to_float (PyInt n) =
     (case f64_of_int n of
        Inf _ \<Rightarrow> Inl (OverflowError ''int too large to convert to float'')
      | x \<Rightarrow> Inr x)"

text \<open>\<open>math.isnan\<close>, \<open>math.isinf\<close> and \<open>math.isfinite\<close> convert their argument first.\<close>

definition math_isnan :: "pynum \<Rightarrow> bool res" where
  "math_isnan a = rbind (to_float a) (\<lambda>x. Inr (x = NaN))"

definition math_isinf :: "pynum \<Rightarrow> bool res" where
  "math_isinf a = rbind (to_float a) (\<lambda>x. Inr (x \<noteq> NaN \<and> \<not> is_finite x))"

definition math_isfinite :: "pynum \<Rightarrow> bool res" where
  "math_isfinite a = rbind (to_float a) (\<lambda>x. Inr (is_finite x))"

section \<open>Comparison and arithmetic\<close>

text \<open>The exact value, as an operand of a comparison.\<close>

fun num_key :: "pynum \<Rightarrow> f64" where
  "num_key (PyInt n) = exact_int n"
| "num_key (PyFloat x) = x"

definition num_lt :: "pynum \<Rightarrow> pynum \<Rightarrow> bool" where
  "num_lt a b = flt (num_key a) (num_key b)"

definition num_le :: "pynum \<Rightarrow> pynum \<Rightarrow> bool" where
  "num_le a b = fle (num_key a) (num_key b)"

fun num_neg :: "pynum \<Rightarrow> pynum" where
  "num_neg (PyInt n) = PyInt (- n)"
| "num_neg (PyFloat x) = PyFloat (fneg x)"

fun num_add :: "pynum \<Rightarrow> pynum \<Rightarrow> pynum res" where
  "num_add (PyInt a) (PyInt b) = Inr (PyInt (a + b))"
| "num_add a b = rbind (to_float a) (\<lambda>x. rbind (to_float b) (\<lambda>y. Inr (PyFloat (fadd x y))))"

fun num_mul :: "pynum \<Rightarrow> pynum \<Rightarrow> pynum res" where
  "num_mul (PyInt a) (PyInt b) = Inr (PyInt (a * b))"
| "num_mul a b = rbind (to_float a) (\<lambda>x. rbind (to_float b) (\<lambda>y. Inr (PyFloat (fmul x y))))"

text \<open>
  True division. Two integers give the correctly rounded quotient, or an
  \<open>OverflowError\<close> when it is not finite.
\<close>

definition int_truediv :: "int \<Rightarrow> int \<Rightarrow> f64 res" where
  "int_truediv a b =
     (if b = 0 then Inl (ZeroDivisionError ''division by zero'')
      else case round_f64 ((a < 0) \<noteq> (b < 0)) \<bar>a\<bar> \<bar>b\<bar> 0 of
             Inf _ \<Rightarrow> Inl (OverflowError ''integer division result too large for a float'')
           | x \<Rightarrow> Inr x)"

fun num_div :: "pynum \<Rightarrow> pynum \<Rightarrow> pynum res" where
  "num_div (PyInt a) (PyInt b) = rbind (int_truediv a b) (\<lambda>x. Inr (PyFloat x))"
| "num_div a b =
     rbind (to_float a) (\<lambda>x. rbind (to_float b) (\<lambda>y.
       if feq y f64_zero then Inl (ZeroDivisionError ''float division by zero'')
       else Inr (PyFloat (fdiv x y))))"

section \<open>Well-formed numbers and their values\<close>

text \<open>A number the interpreter can hold: an integer, or one of the 64-bit floats.\<close>

fun num_ok :: "pynum \<Rightarrow> bool" where
  "num_ok (PyInt n) = True"
| "num_ok (PyFloat x) = canonical x"

text \<open>Neither an infinity nor a NaN, and not an integer beyond the float range.\<close>

definition num_finite :: "pynum \<Rightarrow> bool" where
  "num_finite a = (case to_float a of Inl _ \<Rightarrow> False | Inr x \<Rightarrow> is_finite x)"

fun num_value :: "pynum \<Rightarrow> real" where
  "num_value (PyInt n) = of_int n"
| "num_value (PyFloat x) = fval x"

text \<open>A value a comparison accepts: anything but NaN.\<close>

definition num_ordered :: "pynum \<Rightarrow> bool" where
  "num_ordered a \<longleftrightarrow> a \<noteq> PyFloat NaN"

section \<open>Lemmas\<close>

lemma exact_int_simps [simp]:
  "is_finite (exact_int n)" "fval (exact_int n) = of_int n" "exact_int n \<noteq> NaN"
  by (simp_all add: exact_int_def)

lemma num_key_NaN [simp]: "num_key a = NaN \<longleftrightarrow> a = PyFloat NaN"
  by (cases a) simp_all

lemma num_lt_not_le:
  "num_ordered a \<Longrightarrow> num_ordered b \<Longrightarrow> \<not> num_lt a b \<longleftrightarrow> num_le b a"
  by (simp add: num_lt_def num_le_def num_ordered_def not_flt_iff)

lemma num_le_not_lt:
  "num_ordered a \<Longrightarrow> num_ordered b \<Longrightarrow> \<not> num_le a b \<longleftrightarrow> num_lt b a"
  by (simp add: num_lt_def num_le_def num_ordered_def not_fle_iff)

lemma num_le_trans: "num_le a b \<Longrightarrow> num_le b c \<Longrightarrow> num_le a c"
  unfolding num_le_def by (rule fle_trans)

lemma num_le_lt_trans: "num_le a b \<Longrightarrow> num_lt b c \<Longrightarrow> num_lt a c"
  unfolding num_le_def num_lt_def by (rule fle_flt_trans)

lemma num_lt_le_trans: "num_lt a b \<Longrightarrow> num_le b c \<Longrightarrow> num_lt a c"
  unfolding num_le_def num_lt_def by (rule flt_fle_trans)

lemma num_lt_imp_le: "num_lt a b \<Longrightarrow> num_le a b"
  unfolding num_le_def num_lt_def by (rule flt_imp_fle)

lemma num_cmp_NaN [simp]:
  "\<not> num_lt a (PyFloat NaN)" "\<not> num_lt (PyFloat NaN) a"
  "\<not> num_le a (PyFloat NaN)" "\<not> num_le (PyFloat NaN) a"
  by (simp_all add: num_lt_def num_le_def)

lemma to_float_of_int:
  "to_float (PyInt n) = Inr x \<Longrightarrow> x = f64_of_int n \<and> is_finite x"
  using approx_not_NaN [OF f64_of_int_approx, of n] by (cases "f64_of_int n") auto

lemma to_float_Inr_finite:
  "to_float a = Inr x \<Longrightarrow> is_finite x \<longleftrightarrow> num_finite a"
  by (simp add: num_finite_def)

lemma num_finite_float [simp]: "num_finite (PyFloat x) = is_finite x"
  by (simp add: num_finite_def)

lemma num_finiteD:
  assumes "num_finite a"
  obtains x where "to_float a = Inr x" "is_finite x" "x \<noteq> NaN"
  using assms by (auto simp: num_finite_def split: sum.splits) (metis is_finite.simps(2))

lemma num_finite_ordered: "num_finite a \<Longrightarrow> num_ordered a"
  by (auto simp: num_finite_def num_ordered_def)

lemma canonical_to_float: "num_ok a \<Longrightarrow> to_float a = Inr x \<Longrightarrow> canonical x"
  by (cases a) (use to_float_of_int in \<open>fastforce simp del: to_float.simps(2)\<close>)+

text \<open>Converting an integer rounds it; comparisons with converted values are monotone.\<close>

lemma to_float_approx:
  "num_ok a \<Longrightarrow> to_float a = Inr x \<Longrightarrow> is_finite x \<Longrightarrow> approx x (num_value a)"
  by (cases a) (use to_float_of_int f64_of_int_approx canonical_approx in
      \<open>fastforce simp del: to_float.simps(2)\<close>)+

lemma num_le_value:
  assumes "num_finite a" and "num_finite b"
  shows "num_le a b \<longleftrightarrow> num_value a \<le> num_value b"
proof -
  have "is_finite (num_key a)" "is_finite (num_key b)"
    using assms by (cases a; cases b; simp)+
  moreover have "fval (num_key c) = num_value c" for c by (cases c) simp_all
  ultimately show ?thesis by (simp add: num_le_def fle_fval)
qed

lemma num_lt_value:
  assumes "num_finite a" and "num_finite b"
  shows "num_lt a b \<longleftrightarrow> num_value a < num_value b"
  using num_le_value [OF assms(2,1)] num_lt_not_le [of a b] assms num_finite_ordered by fastforce


lemma finite_checks [simp]:
  assumes "num_finite a"
  shows "math_isnan a = Inr False" "math_isinf a = Inr False" "math_isfinite a = Inr True"
  using assms
  by (auto simp: math_isnan_def math_isinf_def math_isfinite_def elim!: num_finiteD)

lemma float_checks [simp]:
  "math_isnan (PyFloat x) = Inr (x = NaN)"
  "math_isinf (PyFloat x) = Inr (x \<noteq> NaN \<and> \<not> is_finite x)"
  "math_isfinite (PyFloat x) = Inr (is_finite x)"
  by (simp_all add: math_isnan_def math_isinf_def math_isfinite_def)

lemma num_neg_float [simp]: "num_finite (num_neg (PyFloat x)) = is_finite x"
  by simp

lemma num_value_neg [simp]: "num_value (num_neg a) = - num_value a"
  by (cases a) simp_all

lemma round_f64_neg: "round_f64 (\<not> s) p q e = fneg (round_f64 s p q e)"
  by (simp add: round_f64_def Let_def)

lemma num_finite_neg [simp]: "num_finite (num_neg a) = num_finite a"
proof (cases a)
  case (PyInt n)
  have fin: "is_finite (f64_of_int (- n)) = is_finite (f64_of_int n)"
  proof (cases "n = 0")
    case False
    then have "(- n < 0) = (\<not> n < 0)" by auto
    then show ?thesis
      using round_f64_neg [of "n < 0" "\<bar>n\<bar>" 1 0] by (simp add: f64_of_int_def)
  qed simp
  have ni: "num_finite (PyInt k) = is_finite (f64_of_int k)" for k
    using approx_not_NaN [OF f64_of_int_approx, of k]
    by (cases "f64_of_int k") (auto simp: num_finite_def)
  show ?thesis using fin by (simp add: PyInt ni)
qed simp

text \<open>The integers that convert to a float form an interval.\<close>

lemma f64_of_int_Inf_mono:
  assumes "0 \<le> m" and "m \<le> n" and "is_finite (f64_of_int n)"
  shows "is_finite (f64_of_int m)"
proof -
  have "fle (f64_of_int m) (f64_of_int n)"
    using assms by (intro approx_mono [OF f64_of_int_approx f64_of_int_approx]) simp
  moreover have "fle (f64_of_int 0) (f64_of_int m)"
    using assms by (intro approx_mono [OF f64_of_int_approx f64_of_int_approx]) simp
  moreover have "f64_of_int 0 = f64_zero"
    by (simp add: f64_of_int_def round_f64_def f64_zero_def)
  ultimately show ?thesis
    using assms(3) by (cases "f64_of_int m"; cases "f64_of_int n") (auto simp: f64_zero_def)
qed

text \<open>An integer beyond the float range.\<close>

lemma huge_int_overflows:
  "to_float (PyInt (10 ^ 309)) = Inl (OverflowError ''int too large to convert to float'')"
  by code_simp

end
