(* ===== verification/PyText.thy ===== *)
theory PyText
  imports PyNum
begin

text \<open>
  The strings the package builds and inspects: \<open>str\<close> of integers, \<open>repr\<close> of floats (the
  shortest decimal that reads back as the same float), the \<open>.2%\<close> and \<open>.2f\<close> formats, and
  \<open>strip\<close>, \<open>lower\<close>, \<open>replace\<close> and \<open>startswith\<close>. Characters are Isabelle's \<open>char\<close>: the
  code points below 256.
\<close>

section \<open>Integers\<close>

fun digit_char :: "int \<Rightarrow> char" where
  "digit_char d = (if d = 0 then CHR ''0'' else if d = 1 then CHR ''1''
     else if d = 2 then CHR ''2'' else if d = 3 then CHR ''3'' else if d = 4 then CHR ''4''
     else if d = 5 then CHR ''5'' else if d = 6 then CHR ''6'' else if d = 7 then CHR ''7''
     else if d = 8 then CHR ''8'' else CHR ''9'')"

fun str_nat :: "int \<Rightarrow> string" where
  "str_nat n = (if n < 10 then [digit_char n] else str_nat (n div 10) @ [digit_char (n mod 10)])"

declare str_nat.simps [simp del]

definition str_int :: "int \<Rightarrow> string" where
  "str_int n = (if n < 0 then ''-'' @ str_nat (- n) else str_nat n)"

section \<open>Floats\<close>

definition zeros :: "int \<Rightarrow> string" where
  "zeros n = replicate (nat n) (CHR ''0'')"

definition pad2 :: "int \<Rightarrow> string" where
  "pad2 n = (if n < 10 then ''0'' @ str_nat n else str_nat n)"

text \<open>A finite magnitude as a fraction of integers.\<close>

definition frac_num :: "int \<Rightarrow> int \<Rightarrow> int" where
  "frac_num m e = m * 2 ^ nat e"

definition frac_den :: "int \<Rightarrow> int" where
  "frac_den e = 2 ^ nat (- e)"

text \<open>How many times \<open>a / b < 1\<close> must be multiplied by ten to reach one.\<close>

function tens_up :: "int \<Rightarrow> int \<Rightarrow> int" where
  "tens_up a b = (if a \<le> 0 \<or> b \<le> a then 0 else 1 + tens_up (10 * a) b)"
  by pat_completeness auto
termination
  by (relation "measure (\<lambda>(a, b). nat (b - a))") auto

declare tens_up.simps [simp del]

text \<open>The \<open>k\<close> with \<open>10^(k-1) \<le> a / b < 10^k\<close>.\<close>

definition dec_point :: "int \<Rightarrow> int \<Rightarrow> int" where
  "dec_point a b =
     (if b \<le> a then int (length (str_nat (a div b))) else 1 - tens_up a b)"

text \<open>
  Does the decimal \<open>c * 10^(k - n)\<close> read back as the magnitude \<open>m * 2^e\<close>?
\<close>

definition reads_back :: "int \<Rightarrow> int \<Rightarrow> int \<Rightarrow> int \<Rightarrow> bool" where
  "reads_back m e c j =
     (round_f64 False (c * 10 ^ nat j) (10 ^ nat (- j)) 0 = Fin False m e)"

text \<open>
  The digits and the decimal exponent \<open>j\<close> of the shortest decimal \<open>c * 10^j\<close> that reads
  back, tried from one digit up; seventeen digits always suffice for a double, and the
  search stops there.
\<close>

fun shortest :: "nat \<Rightarrow> int \<Rightarrow> int \<Rightarrow> int \<Rightarrow> int \<Rightarrow> int \<times> int" where
  "shortest left n k m e =
     (let j = k - n;
          a = frac_num m e * 10 ^ nat (- j); b = frac_den e * 10 ^ nat j;
          lo = a div b; near = rne_div a b; far = (if near = lo then lo + 1 else lo)
      in if left = 0 \<or> reads_back m e near j then (near, j)
         else if reads_back m e far j then (far, j)
         else shortest (left - 1) (n + 1) k m e)"

declare shortest.simps [simp del]

fun strip_zeros :: "int \<Rightarrow> int \<Rightarrow> int \<times> int" where
  "strip_zeros c j =
     (if 0 < c \<and> c mod 10 = 0 then strip_zeros (c div 10) (j + 1) else (c, j))"

declare strip_zeros.simps [simp del]

text \<open>\<open>float.__repr__\<close> of a positive finite value: fixed notation while \<open>-4 < k \<le> 16\<close>.\<close>

definition repr_mag :: "int \<Rightarrow> int \<Rightarrow> string" where
  "repr_mag m e =
     (let k0 = dec_point (frac_num m e) (frac_den e);
          (c0, j0) = shortest 16 1 k0 m e;
          (c, j) = strip_zeros c0 j0;
          ds = str_nat c; n = int (length ds); k = n + j
      in if -4 < k \<and> k \<le> 16
         then (if k \<le> 0 then ''0.'' @ zeros (- k) @ ds
               else if n \<le> k then ds @ zeros (k - n) @ ''.0''
               else take (nat k) ds @ ''.'' @ drop (nat k) ds)
         else (take 1 ds @ (if n = 1 then [] else ''.'' @ drop 1 ds) @ ''e''
               @ (if k - 1 < 0 then ''-'' @ pad2 (1 - k) else ''+'' @ pad2 (k - 1))))"

fun repr_f64 :: "f64 \<Rightarrow> string" where
  "repr_f64 NaN = ''nan''"
| "repr_f64 (Inf s) = (if s then ''-inf'' else ''inf'')"
| "repr_f64 (Fin s m e) = (if s then ''-'' else []) @ (if m = 0 then ''0.0'' else repr_mag m e)"

text \<open>\<open>str(x)\<close>, what an f-string field without a format inserts.\<close>

fun str_num :: "pynum \<Rightarrow> string" where
  "str_num (PyInt n) = str_int n"
| "str_num (PyFloat x) = repr_f64 x"

text \<open>The format \<open>.2f\<close> (correctly rounded) and \<open>.2%\<close> (of the value times 100).\<close>

fun fixed2_f64 :: "f64 \<Rightarrow> string" where
  "fixed2_f64 NaN = ''nan''"
| "fixed2_f64 (Inf s) = (if s then ''-inf'' else ''inf'')"
| "fixed2_f64 (Fin s m e) =
     (let c = rne_div (100 * frac_num m e) (frac_den e)
      in (if s then ''-'' else []) @ str_nat (c div 100) @ ''.'' @ pad2 (c mod 100))"

definition percent2_f64 :: "f64 \<Rightarrow> string" where
  "percent2_f64 x = fixed2_f64 (fmul x (f64_of_int 100)) @ ''%''"

definition percent2 :: "pynum \<Rightarrow> string res" where
  "percent2 a = rbind (to_float a) (\<lambda>x. Inr (percent2_f64 x))"

section \<open>String operations\<close>

text \<open>Whitespace for \<open>str.strip\<close> among the first 256 code points.\<close>

definition is_space :: "char \<Rightarrow> bool" where
  "is_space c \<longleftrightarrow> of_char c \<in> {9, 10, 11, 12, 13, 28, 29, 30, 31, 32, 133, 160 :: int}"

definition lstrip :: "string \<Rightarrow> string" where
  "lstrip s = dropWhile is_space s"

definition strip :: "string \<Rightarrow> string" where
  "strip s = rev (lstrip (rev (lstrip s)))"

text \<open>\<open>str.lower\<close>: A-Z, and the Latin-1 capitals.\<close>

definition lower_char :: "char \<Rightarrow> char" where
  "lower_char c =
     (let n = of_char c :: int
      in if 65 \<le> n \<and> n \<le> 90 \<or> 192 \<le> n \<and> n \<le> 222 \<and> n \<noteq> 215 then char_of (n + 32) else c)"

definition lower :: "string \<Rightarrow> string" where
  "lower s = map lower_char s"

text \<open>\<open>s.replace("-", "_")\<close>\<close>

definition dash_to_underscore :: "string \<Rightarrow> string" where
  "dash_to_underscore s = map (\<lambda>c. if c = CHR ''-'' then CHR ''_'' else c) s"

definition startswith :: "string \<Rightarrow> string \<Rightarrow> bool" where
  "startswith p s \<longleftrightarrow> take (length p) s = p"

lemma startswith_append [simp]: "startswith p (p @ s)"
  by (simp add: startswith_def)

lemma startswith_Cons [simp]: "startswith (a # p) (b # s) \<longleftrightarrow> a = b \<and> startswith p s"
  "startswith [] s"
  by (auto simp: startswith_def)

lemma all_dropWhile: "(\<forall>x \<in> set (dropWhile P xs). P x) \<longleftrightarrow> (\<forall>x \<in> set xs. P x)"
  by (induction xs) auto

lemma strip_eq_Nil: "strip s = [] \<longleftrightarrow> (\<forall>c \<in> set s. is_space c)"
  by (simp add: strip_def lstrip_def dropWhile_eq_Nil_conv all_dropWhile)

lemma str_nat_not_Nil [simp]: "str_nat n \<noteq> []"
  by (subst str_nat.simps) simp

lemma percent2_float [simp]: "percent2 (PyFloat x) = Inr (percent2_f64 x)"
  by (simp add: percent2_def)

end
