(* ===== verification/PyTime.thy ===== *)
theory PyTime
  imports PyText
begin

text \<open>
  \<open>datetime\<close> and \<open>timedelta\<close> as the gates use them: aware and naive values, subtraction and
  ordering with their \<open>TypeError\<close>, \<open>timedelta(hours=...)\<close>, \<open>total_seconds()\<close>, and
  \<open>sorted(..., key=...)\<close> and \<open>max\<close> over timestamps.
\<close>

section \<open>datetime\<close>

text \<open>
  The wall clock in microseconds since 0001-01-01, and the \<open>tzinfo\<close>: which object it is, and
  what its \<open>utcoffset()\<close> returns for this value (in microseconds), if anything.
\<close>

record pydatetime =
  dt_wall :: int
  dt_tz :: "(nat \<times> int option) option"

definition dt_offset :: "pydatetime \<Rightarrow> int option" where
  "dt_offset d = (case dt_tz d of None \<Rightarrow> None | Some (_, off) \<Rightarrow> off)"

text \<open>\<open>a - b\<close>: with the same \<open>tzinfo\<close> object the wall clocks are subtracted.\<close>

definition dt_sub :: "pydatetime \<Rightarrow> pydatetime \<Rightarrow> int res" where
  "dt_sub a b =
     (if map_option fst (dt_tz a) = map_option fst (dt_tz b) then Inr (dt_wall a - dt_wall b)
      else case (dt_offset a, dt_offset b) of
             (None, None) \<Rightarrow> Inr (dt_wall a - dt_wall b)
           | (Some x, Some y) \<Rightarrow> Inr ((dt_wall a - x) - (dt_wall b - y))
           | _ \<Rightarrow> Inl (TypeError ''can't subtract offset-naive and offset-aware datetimes''))"

text \<open>\<open>a < b\<close>\<close>

definition dt_lt :: "pydatetime \<Rightarrow> pydatetime \<Rightarrow> bool res" where
  "dt_lt a b =
     (if map_option fst (dt_tz a) = map_option fst (dt_tz b) then Inr (dt_wall a < dt_wall b)
      else case (dt_offset a, dt_offset b) of
             (None, None) \<Rightarrow> Inr (dt_wall a < dt_wall b)
           | (Some x, Some y) \<Rightarrow> Inr (dt_wall a - x < dt_wall b - y)
           | _ \<Rightarrow> Inl (TypeError ''can't compare offset-naive and offset-aware datetimes''))"

section \<open>timedelta\<close>

text \<open>A \<open>timedelta\<close> is its number of microseconds.\<close>

definition total_seconds :: "int \<Rightarrow> f64 res" where
  "total_seconds us = int_truediv us 1000000"

definition us_per_hour :: int where
  "us_per_hour = 3600000000"

text \<open>
  \<open>timedelta(hours=h)\<close>: the integral part exactly, the fractional part through one float
  multiplication, the sum rounded to a microsecond, ties to even; more than 999999999 days
  is an \<open>OverflowError\<close>, and so are an infinity (and a NaN, a \<open>ValueError\<close>).
\<close>

definition check_days :: "int \<Rightarrow> int res" where
  "check_days us =
     (let days = us div (24 * us_per_hour)
      in if days < -(2 ^ 31) \<or> 2 ^ 31 \<le> days
         then Inl (OverflowError ''Python int too large to convert to C int'')
         else if 999999999 < \<bar>days\<bar>
         then Inl (OverflowError (''days='' @ str_int days
                @ ''; must have magnitude <= 999999999''))
         else Inr us)"

fun round_to_int :: "int \<Rightarrow> f64 \<Rightarrow> int" where
  "round_to_int k (Fin s m e) =
     rne_div (k * 2 ^ nat (- e) + sgn_int s m * 2 ^ nat e) (2 ^ nat (- e))"
| "round_to_int k _ = k"

fun timedelta_hours :: "f64 \<Rightarrow> int res" where
  "timedelta_hours NaN = Inl (ValueError ''cannot convert float NaN to integer'')"
| "timedelta_hours (Inf s) = Inl (OverflowError ''cannot convert float infinity to integer'')"
| "timedelta_hours (Fin s m e) =
     (let ip = m * 2 ^ nat e div 2 ^ nat (- e);
          fp = Fin s (m mod 2 ^ nat (- e)) (min e 0)
      in check_days (round_to_int (sgn_int s ip * us_per_hour)
           (fmul fp (f64_of_int us_per_hour))))"

section \<open>Sorting\<close>

text \<open>
  The stable sort by a strict order: each element goes in after every element it is not
  less than. On timestamps of one mode the comparison never raises (\<open>dt_lt_ok\<close> below), and
  it is a strict weak order when one \<open>tzinfo\<close> object stands for one offset, so the result is
  the one list any stable sort returns.
\<close>

fun insert_stable :: "('a \<Rightarrow> 'a \<Rightarrow> bool) \<Rightarrow> 'a \<Rightarrow> 'a list \<Rightarrow> 'a list" where
  "insert_stable lt x [] = [x]"
| "insert_stable lt x (y # ys) = (if lt x y then x # y # ys else y # insert_stable lt x ys)"

definition stable_sort :: "('a \<Rightarrow> 'a \<Rightarrow> bool) \<Rightarrow> 'a list \<Rightarrow> 'a list" where
  "stable_sort lt xs = foldl (\<lambda>acc x. insert_stable lt x acc) [] xs"

definition dt_before :: "pydatetime \<Rightarrow> pydatetime \<Rightarrow> bool" where
  "dt_before a b = (dt_lt a b = Inr True)"

text \<open>\<open>max(...)\<close> of a non-empty sequence: the first of the largest.\<close>

fun dt_max :: "pydatetime \<Rightarrow> pydatetime list \<Rightarrow> pydatetime" where
  "dt_max m [] = m"
| "dt_max m (d # ds) = dt_max (if dt_before m d then d else m) ds"

section \<open>Lemmas\<close>

text \<open>The instant a datetime stands for: what the order compares when offsets are fixed.\<close>

definition dt_key :: "pydatetime \<Rightarrow> int" where
  "dt_key d = (case dt_offset d of None \<Rightarrow> dt_wall d | Some x \<Rightarrow> dt_wall d - x)"

text \<open>One \<open>tzinfo\<close> object, one offset (true of \<open>timezone\<close>, not of a zone with daylight time).\<close>

definition tz_coherent :: "pydatetime \<Rightarrow> pydatetime \<Rightarrow> bool" where
  "tz_coherent a b \<longleftrightarrow>
     (map_option fst (dt_tz a) = map_option fst (dt_tz b) \<longrightarrow> dt_offset a = dt_offset b)"

definition dt_aware :: "pydatetime \<Rightarrow> bool" where
  "dt_aware d \<longleftrightarrow> dt_offset d \<noteq> None"

lemma dt_lt_ok: "dt_aware a = dt_aware b \<Longrightarrow> \<exists>r. dt_lt a b = Inr r"
  by (auto simp: dt_lt_def dt_aware_def split: option.splits)

lemma dt_sub_ok: "dt_aware a = dt_aware b \<Longrightarrow> \<exists>r. dt_sub a b = Inr r"
  by (auto simp: dt_sub_def dt_aware_def split: option.splits)

lemma dt_sub_key:
  "dt_aware a = dt_aware b \<Longrightarrow> tz_coherent a b \<Longrightarrow> dt_sub a b = Inr (dt_key a - dt_key b)"
  by (auto simp: dt_sub_def dt_aware_def tz_coherent_def dt_key_def split: option.splits)

lemma dt_before_key:
  "dt_aware a = dt_aware b \<Longrightarrow> tz_coherent a b \<Longrightarrow> dt_before a b \<longleftrightarrow> dt_key a < dt_key b"
  by (auto simp: dt_before_def dt_lt_def dt_aware_def tz_coherent_def dt_key_def
      split: option.splits)

lemma set_insert_stable [simp]: "set (insert_stable lt x xs) = insert x (set xs)"
  by (induction xs) auto

lemma length_insert_stable [simp]: "length (insert_stable lt x xs) = Suc (length xs)"
  by (induction xs) auto

lemma set_foldl_insert:
  "set (foldl (\<lambda>acc x. insert_stable lt x acc) acc xs) = set acc \<union> set xs"
  by (induction xs arbitrary: acc) auto

lemma set_stable_sort [simp]: "set (stable_sort lt xs) = set xs"
  by (simp add: stable_sort_def set_foldl_insert)

lemma length_foldl_insert:
  "length (foldl (\<lambda>acc x. insert_stable lt x acc) acc xs) = length acc + length xs"
  by (induction xs arbitrary: acc) auto

lemma length_stable_sort [simp]: "length (stable_sort lt xs) = length xs"
  by (simp add: stable_sort_def length_foldl_insert)

lemma sorted_insert_stable:
  assumes "sorted_wrt (\<lambda>a b. k a \<le> (k b :: int)) xs"
    and "\<forall>a \<in> insert x (set xs). \<forall>b \<in> insert x (set xs). lt a b \<longleftrightarrow> k a < k b"
  shows "sorted_wrt (\<lambda>a b. k a \<le> k b) (insert_stable lt x xs)"
  using assms by (induction xs) force+

lemma sorted_foldl_insert:
  assumes "sorted_wrt (\<lambda>a b. k a \<le> (k b :: int)) acc"
    and "\<forall>a \<in> set acc \<union> set xs. \<forall>b \<in> set acc \<union> set xs. lt a b \<longleftrightarrow> k a < k b"
  shows "sorted_wrt (\<lambda>a b. k a \<le> k b) (foldl (\<lambda>acc x. insert_stable lt x acc) acc xs)"
  using assms
proof (induction xs arbitrary: acc)
  case Nil
  then show ?case by simp
next
  case (Cons a xs)
  have "sorted_wrt (\<lambda>a b. k a \<le> k b) (insert_stable lt a acc)"
    using Cons.prems by (intro sorted_insert_stable) simp_all
  then show ?case using Cons.prems(2) Cons.IH [of "insert_stable lt a acc"] by simp
qed

lemma sorted_stable_sort:
  assumes "\<forall>a \<in> set xs. \<forall>b \<in> set xs. lt a b \<longleftrightarrow> k a < (k b :: int)"
  shows "sorted_wrt (\<lambda>a b. k a \<le> k b) (stable_sort lt xs)"
  unfolding stable_sort_def using assms by (intro sorted_foldl_insert) auto

lemma stable_sort_Nil [simp]: "stable_sort lt [] = []"
  by (simp add: stable_sort_def)

lemma dt_max_in: "dt_max m ds \<in> insert m (set ds)"
proof (induction ds arbitrary: m)
  case (Cons a ds)
  show ?case using Cons.IH [of "if dt_before m a then a else m"] by (auto split: if_splits)
qed simp

lemma dt_max_ge:
  assumes "\<forall>a \<in> insert m (set ds). \<forall>b \<in> insert m (set ds). dt_before a b \<longleftrightarrow> dt_key a < dt_key b"
  shows "d \<in> insert m (set ds) \<Longrightarrow> dt_key d \<le> dt_key (dt_max m ds)"
  using assms
proof (induction ds arbitrary: m d)
  case Nil
  then show ?case by simp
next
  case (Cons a ds)
  define m' where "m' = (if dt_before m a then a else m)"
  have le: "dt_key m \<le> dt_key m'" "dt_key a \<le> dt_key m'"
    using Cons.prems(2) by (auto simp: m'_def not_less dest: less_imp_le)
  have IH: "d \<in> insert m' (set ds) \<Longrightarrow> dt_key d \<le> dt_key (dt_max m' ds)" for d
    using Cons.prems(2) by (intro Cons.IH) (auto simp: m'_def)
  then have "dt_key m' \<le> dt_key (dt_max m' ds)" by simp
  with le have "dt_key m \<le> dt_key (dt_max m' ds)" "dt_key a \<le> dt_key (dt_max m' ds)"
    by linarith+
  with IH Cons.prems(1) show ?case by (auto simp flip: m'_def)
qed

end
