(* ===== verification/RiskTypes.thy ===== *)
theory RiskTypes
  imports PyTime
begin

text \<open>
  The value objects of \<open>state.py\<close> that other objects hold (positions, past trades), the
  dynamically typed Python values that constructors and loaders are given (\<open>pyval\<close>), and
  the JSON values a decoder returns.
\<close>

section \<open>Positions and past trades\<close>

record position =
  ticker :: string
  family :: string
  cost_basis :: pynum
  current_value :: pynum
  is_resolved :: bool

record trade_outcome =
  timestamp :: pydatetime
  pnl :: pynum

section \<open>Python values before validation\<close>

text \<open>
  \<open>VOther t\<close> is an object of any other type, named \<open>t\<close>. A dictionary keeps its insertion
  order; its keys are distinct.
\<close>

datatype pyval =
    VNone
  | VBool bool
  | VInt int
  | VFloat f64
  | VStr string
  | VList "pyval list"
  | VTuple "pyval list"
  | VDict "(pyval \<times> pyval) list"
  | VDatetime pydatetime
  | VPosition position
  | VOutcome trade_outcome
  | VOther string

fun type_name :: "pyval \<Rightarrow> string" where
  "type_name VNone = ''NoneType''"
| "type_name (VBool _) = ''bool''"
| "type_name (VInt _) = ''int''"
| "type_name (VFloat _) = ''float''"
| "type_name (VStr _) = ''str''"
| "type_name (VList _) = ''list''"
| "type_name (VTuple _) = ''tuple''"
| "type_name (VDict _) = ''dict''"
| "type_name (VDatetime _) = ''datetime''"
| "type_name (VPosition _) = ''Position''"
| "type_name (VOutcome _) = ''TradeOutcome''"
| "type_name (VOther t) = t"

fun val_of_num :: "pynum \<Rightarrow> pyval" where
  "val_of_num (PyInt n) = VInt n"
| "val_of_num (PyFloat x) = VFloat x"

section \<open>JSON values\<close>

datatype json =
    JNull
  | JBool bool
  | JInt int
  | JFloat f64
  | JStr string
  | JList "json list"
  | JObj "(string \<times> json) list"

text \<open>\<open>repr\<close> of a string, with the quotes and escapes of the interpreter (Latin-1).\<close>

definition hex_digit :: "int \<Rightarrow> char" where
  "hex_digit d = (if d < 10 then digit_char d else char_of (d + 87))"

definition repr_char :: "char \<Rightarrow> char \<Rightarrow> string" where
  "repr_char q c =
     (let n = of_char c :: int
      in if c = q \<or> n = 92 then [char_of (92::int), c]
         else if n = 9 then [char_of (92::int), CHR ''t'']
         else if n = 10 then [char_of (92::int), CHR ''n'']
         else if n = 13 then [char_of (92::int), CHR ''r'']
         else if n < 32 \<or> 127 \<le> n \<and> n \<le> 160 \<or> n = 173
              then [char_of (92::int), CHR ''x'', hex_digit (n div 16), hex_digit (n mod 16)]
         else [c])"

definition repr_str :: "string \<Rightarrow> string" where
  "repr_str s =
     (let sq = char_of (39::int); dq = char_of (34::int);
          q = (if sq \<in> set s \<and> dq \<notin> set s then dq else sq)
      in [q] @ concat (map (repr_char q) s) @ [q])"

fun comma_sep :: "string list \<Rightarrow> string" where
  "comma_sep [] = []"
| "comma_sep [s] = s"
| "comma_sep (s # ss) = s @ '', '' @ comma_sep ss"

definition repr_str_list :: "string list \<Rightarrow> string" where
  "repr_str_list ss = ''['' @ comma_sep (map repr_str ss) @ '']''"

fun repr_json :: "json \<Rightarrow> string" where
  "repr_json JNull = ''None''"
| "repr_json (JBool b) = (if b then ''True'' else ''False'')"
| "repr_json (JInt n) = str_int n"
| "repr_json (JFloat x) = repr_f64 x"
| "repr_json (JStr s) = repr_str s"
| "repr_json (JList vs) = ''['' @ comma_sep (map repr_json vs) @ '']''"
| "repr_json (JObj kvs) =
     ''{'' @ comma_sep (map (\<lambda>kv. repr_str (fst kv) @ '': '' @ repr_json (snd kv)) kvs) @ ''}''"

text \<open>\<open>str\<close> of a decoded value: a string is itself, anything else its \<open>repr\<close>.\<close>

fun str_json :: "json \<Rightarrow> string" where
  "str_json (JStr s) = s"
| "str_json v = repr_json v"

text \<open>Strings in code point order, as \<open>sorted\<close> compares them.\<close>

fun str_lt :: "string \<Rightarrow> string \<Rightarrow> bool" where
  "str_lt [] [] = False"
| "str_lt [] (_ # _) = True"
| "str_lt (_ # _) [] = False"
| "str_lt (a # s) (b # t) = (of_char a < (of_char b :: int) \<or> a = b \<and> str_lt s t)"

definition sorted_strs :: "string list \<Rightarrow> string list" where
  "sorted_strs ss = stable_sort str_lt ss"

lemma set_sorted_strs [simp]: "set (sorted_strs ss) = set ss"
  by (simp add: sorted_strs_def)

end
