(* ===== verification/RiskState.thy ===== *)
theory RiskState
  imports RiskTypes
begin

text \<open>
  \<open>state.py\<close>: the configuration, the decision and the serialisable snapshots, each with the
  checks its \<open>__post_init__\<close> makes, and the JSON persistence of the whole state. The JSON
  codec itself (\<open>msgspec\<close>) is a parameter.
\<close>

definition RISK_STATE_SCHEMA_VERSION :: int where
  "RISK_STATE_SCHEMA_VERSION = 1"

section \<open>Field checks\<close>

text \<open>\<open>_ensure_finite\<close>: returns the number it accepted.\<close>

fun ensure_finite :: "pyval \<Rightarrow> string \<Rightarrow> pynum res" where
  "ensure_finite (VBool _) fld = Inl (ValueError (fld @ '' must be finite''))"
| "ensure_finite (VInt n) fld =
     rbind (math_isfinite (PyInt n)) (\<lambda>b.
       if b then Inr (PyInt n) else Inl (ValueError (fld @ '' must be finite'')))"
| "ensure_finite (VFloat x) fld =
     rbind (math_isfinite (PyFloat x)) (\<lambda>b.
       if b then Inr (PyFloat x) else Inl (ValueError (fld @ '' must be finite'')))"
| "ensure_finite v fld = Inl (TypeError (''must be real number, not '' @ type_name v))"

text \<open>\<open>if type(v) is not int: raise ValueError(msg)\<close>, and the same for strings and bools.\<close>

fun require_int :: "pyval \<Rightarrow> string \<Rightarrow> int res" where
  "require_int (VInt n) msg = Inr n"
| "require_int _ msg = Inl (ValueError msg)"

fun require_str :: "pyval \<Rightarrow> string \<Rightarrow> string res" where
  "require_str (VStr s) msg = Inr s"
| "require_str _ msg = Inl (ValueError msg)"

fun require_bool :: "pyval \<Rightarrow> string \<Rightarrow> bool res" where
  "require_bool (VBool b) msg = Inr b"
| "require_bool _ msg = Inl (ValueError msg)"

section \<open>RiskContext\<close>

record risk_context =
  max_daily_drawdown_pct :: pynum
  max_weekly_drawdown_pct :: pynum
  max_correlated_exposure :: pynum
  min_expected_value :: pynum
  latency_budget_us :: int
  consecutive_loss_limit :: int
  consecutive_loss_window_minutes :: pynum

definition RiskContext_new ::
    "pyval \<Rightarrow> pyval \<Rightarrow> pyval \<Rightarrow> pyval \<Rightarrow> pyval \<Rightarrow> pyval \<Rightarrow> pyval \<Rightarrow> risk_context res" where
  "RiskContext_new daily weekly exposure min_ev latency limit window =
     rbind (require_int latency ''latency_budget_us must be an int'') (\<lambda>lat.
     rbind (require_int limit ''consecutive_loss_limit must be an int'') (\<lambda>lim.
     rbind (ensure_finite daily ''max_daily_drawdown_pct'') (\<lambda>d.
     rbind (ensure_finite weekly ''max_weekly_drawdown_pct'') (\<lambda>w.
     rbind (ensure_finite exposure ''max_correlated_exposure'') (\<lambda>x.
     rbind (ensure_finite min_ev ''min_expected_value'') (\<lambda>ev.
     rbind (ensure_finite window ''consecutive_loss_window_minutes'') (\<lambda>win.
       Inr \<lparr>max_daily_drawdown_pct = d, max_weekly_drawdown_pct = w,
            max_correlated_exposure = x, min_expected_value = ev, latency_budget_us = lat,
            consecutive_loss_limit = lim, consecutive_loss_window_minutes = win\<rparr>)))))))"

text \<open>The field defaults.\<close>

definition default_context :: risk_context where
  "default_context =
     \<lparr>max_daily_drawdown_pct = PyFloat (lit 10 100), max_weekly_drawdown_pct = PyFloat (lit 20 100),
      max_correlated_exposure = PyFloat (lit 2500 1), min_expected_value = PyFloat f64_zero,
      latency_budget_us = 500, consecutive_loss_limit = 0,
      consecutive_loss_window_minutes = PyFloat (lit 15 1)\<rparr>"

section \<open>Position\<close>

definition Position_new ::
    "pyval \<Rightarrow> pyval \<Rightarrow> pyval \<Rightarrow> pyval \<Rightarrow> pyval \<Rightarrow> position res" where
  "Position_new tick fam cost cur resolved =
     rbind (require_str tick ''ticker must be a string'') (\<lambda>t.
     rbind (require_str fam ''family must be a string'') (\<lambda>f.
     rbind (require_bool resolved ''is_resolved must be a bool'') (\<lambda>r.
     rbind (ensure_finite cost ''cost_basis'') (\<lambda>c.
     rbind (ensure_finite cur ''current_value'') (\<lambda>v.
       Inr \<lparr>ticker = t, family = f, cost_basis = c, current_value = v, is_resolved = r\<rparr>)))))"

section \<open>RiskDecision\<close>

record risk_decision =
  approved :: bool
  reason_code :: string
  suggested_size :: pynum

definition RiskDecision_new :: "pyval \<Rightarrow> pyval \<Rightarrow> pyval \<Rightarrow> risk_decision res" where
  "RiskDecision_new appr reason sz =
     rbind (require_bool appr ''approved must be a bool'') (\<lambda>a.
     rbind (require_str reason ''reason_code must be a string'') (\<lambda>r.
     rbind (ensure_finite sz ''suggested_size'') (\<lambda>s.
       Inr \<lparr>approved = a, reason_code = r, suggested_size = s\<rparr>)))"

text \<open>The constructor at the call sites of the engine: a bool, a string and a number.\<close>

definition new_decision :: "bool \<Rightarrow> string \<Rightarrow> pynum \<Rightarrow> risk_decision res" where
  "new_decision a r s = RiskDecision_new (VBool a) (VStr r) (val_of_num s)"

text \<open>A gate that rejects writes these two fields.\<close>

definition reject :: "string \<Rightarrow> risk_decision \<Rightarrow> risk_decision" where
  "reject r d = d\<lparr>approved := False, reason_code := r\<rparr>"

section \<open>Snapshots of the stateful controls\<close>

record kill_switch_state =
  kss_tripped :: bool
  kss_reason :: string
  kss_tripped_at :: "pydatetime option"

record timed_breaker_state =
  tbs_threshold :: int
  tbs_cooldown_hours :: pynum
  tbs_loss_streak :: int
  tbs_tripped :: bool
  tbs_tripped_at :: "pydatetime option"

definition TimedCircuitBreakerState_new ::
    "pyval \<Rightarrow> pynum \<Rightarrow> pyval \<Rightarrow> bool \<Rightarrow> pydatetime option \<Rightarrow> timed_breaker_state res" where
  "TimedCircuitBreakerState_new threshold cooldown streak trip when =
     rbind (require_int threshold ''consecutive_loss_threshold must be an int'') (\<lambda>t.
     rbind (require_int streak ''loss_streak must be an int'') (\<lambda>n.
     rguard (t < 1) (ValueError ''consecutive_loss_threshold must be >= 1'')
    (rguard (num_le cooldown (PyInt 0)) (ValueError ''cooldown_hours must be > 0'')
    (rguard (n < 0) (ValueError ''loss_streak must be >= 0'')
      (Inr \<lparr>tbs_threshold = t, tbs_cooldown_hours = cooldown, tbs_loss_streak = n,
            tbs_tripped = trip, tbs_tripped_at = when\<rparr>)))))"

record loss_gate_state =
  lgs_max_losses :: int
  lgs_window_trades :: int
  lgs_history :: "bool list"

definition ConsecutiveLossGateState_new ::
    "pyval \<Rightarrow> pyval \<Rightarrow> bool list \<Rightarrow> loss_gate_state res" where
  "ConsecutiveLossGateState_new losses window hist =
     rbind (require_int losses ''max_losses must be an int'') (\<lambda>m.
     rbind (require_int window ''window_trades must be an int'') (\<lambda>w.
     rguard (m < 1) (ValueError ''max_losses must be >= 1'')
    (rguard (w < 1) (ValueError ''window_trades must be >= 1'')
    (rguard (w < m) (ValueError ''max_losses cannot exceed window_trades'')
    (rguard (w < int (length hist)) (ValueError ''history cannot exceed window_trades'')
      (Inr \<lparr>lgs_max_losses = m, lgs_window_trades = w, lgs_history = hist\<rparr>))))))"

section \<open>RiskState and its JSON form\<close>

record risk_state =
  schema_version :: int
  context_of :: risk_context
  kill_switch_of :: "kill_switch_state option"
  timed_breaker_of :: "timed_breaker_state option"
  loss_gate_of :: "loss_gate_state option"

definition version_error :: "string \<Rightarrow> exn" where
  "version_error v = ValueError (''Unsupported risk state schema_version='' @ v @ ''; expected ''
     @ str_int RISK_STATE_SCHEMA_VERSION)"

definition RiskState_new ::
    "int \<Rightarrow> risk_context \<Rightarrow> kill_switch_state option \<Rightarrow> timed_breaker_state option
      \<Rightarrow> loss_gate_state option \<Rightarrow> risk_state res" where
  "RiskState_new v ctx ks tb lg =
     rguard (v \<noteq> RISK_STATE_SCHEMA_VERSION) (version_error (str_int v))
      (Inr \<lparr>schema_version = v, context_of = ctx, kill_switch_of = ks, timed_breaker_of = tb,
            loss_gate_of = lg\<rparr>)"

definition allowed_keys :: "string list" where
  "allowed_keys = [''schema_version'', ''context'', ''kill_switch'', ''timed_breaker'',
     ''consecutive_loss_gate'']"

text \<open>
  \<open>RiskState.from_json\<close>. The parameters are the codec: \<open>decode\<close> parses a payload (or
  fails with a message), \<open>encode\<close> writes a JSON value, \<open>decode_as\<close> parses a payload straight
  into a \<open>RiskState\<close>.
\<close>

definition RiskState_from_json ::
    "('p \<Rightarrow> string + json) \<Rightarrow> (json \<Rightarrow> string + 'p) \<Rightarrow> ('p \<Rightarrow> string + risk_state)
      \<Rightarrow> 'p \<Rightarrow> risk_state res" where
  "RiskState_from_json decode encode decode_as payload =
     (case decode payload of
        Inl msg \<Rightarrow> Inl (ValueError (''Invalid RiskState payload: '' @ msg))
      | Inr (JObj kvs) \<Rightarrow>
          (let ks = map fst kvs;
               unexpected = filter (\<lambda>k. k \<notin> set allowed_keys) ks;
               missing = filter (\<lambda>k. k \<notin> set ks) allowed_keys
           in if unexpected \<noteq> []
              then Inl (ValueError (''Unexpected RiskState keys: ''
                     @ repr_str_list (sorted_strs unexpected)))
              else if missing \<noteq> []
              then Inl (ValueError (''RiskState payload missing keys: ''
                     @ repr_str_list (sorted_strs missing)))
              else (case map_of kvs ''schema_version'' of
                      Some (JInt v) \<Rightarrow>
                        if v \<noteq> RISK_STATE_SCHEMA_VERSION then Inl (version_error (str_int v))
                        else (case encode (JObj kvs) of
                                Inl msg \<Rightarrow> Inl (ValueError (''Invalid RiskState payload: '' @ msg))
                              | Inr p \<Rightarrow>
                                  (case decode_as p of
                                     Inl msg \<Rightarrow> Inl (ValueError (''Invalid RiskState payload: '' @ msg))
                                   | Inr st \<Rightarrow> Inr st))
                    | Some v \<Rightarrow> Inl (version_error (str_json v))
                    | None \<Rightarrow> Inl (version_error [])))
      | Inr _ \<Rightarrow> Inl (ValueError ''RiskState payload must be a JSON object''))"

text \<open>\<open>RiskContext.from_json\<close> and \<open>RiskDecision.from_json\<close>: one typed decode.\<close>

definition from_json_typed :: "string \<Rightarrow> ('p \<Rightarrow> string + 'a) \<Rightarrow> 'p \<Rightarrow> 'a res" where
  "from_json_typed cls decode_as payload =
     (case decode_as payload of
        Inl msg \<Rightarrow> Inl (ValueError (''Invalid '' @ cls @ '' payload: '' @ msg))
      | Inr x \<Rightarrow> Inr x)"

text \<open>Their \<open>to_json\<close>: one call of the encoder.\<close>

definition RiskContext_to_json :: "(risk_context \<Rightarrow> string + 'p) \<Rightarrow> risk_context \<Rightarrow> string + 'p" where
  "RiskContext_to_json encode ctx = encode ctx"

definition RiskDecision_to_json :: "(risk_decision \<Rightarrow> string + 'p) \<Rightarrow> risk_decision \<Rightarrow> string + 'p" where
  "RiskDecision_to_json encode d = encode d"

definition RiskContext_from_json :: "('p \<Rightarrow> string + risk_context) \<Rightarrow> 'p \<Rightarrow> risk_context res" where
  "RiskContext_from_json = from_json_typed ''RiskContext''"

definition RiskDecision_from_json :: "('p \<Rightarrow> string + risk_decision) \<Rightarrow> 'p \<Rightarrow> risk_decision res" where
  "RiskDecision_from_json = from_json_typed ''RiskDecision''"


section \<open>Lemmas\<close>

lemma math_isfinite_iff: "math_isfinite a = Inr True \<longleftrightarrow> num_finite a"
  by (auto simp: math_isfinite_def num_finite_def rbind_def split: sum.splits)

lemma ensure_finite_num: "ensure_finite (val_of_num a) fld =
    rbind (math_isfinite a) (\<lambda>b.
      if b then Inr a else Inl (ValueError (fld @ '' must be finite'')))"
  by (induction a) simp_all

lemma ensure_finite_Inr:
  "ensure_finite v fld = Inr a \<longleftrightarrow> v = val_of_num a \<and> num_finite a"
proof
  assume "ensure_finite v fld = Inr a"
  then show "v = val_of_num a \<and> num_finite a"
    by (cases v) (auto simp: rbind_eq_Inr math_isfinite_iff split: if_splits)
next
  assume "v = val_of_num a \<and> num_finite a"
  then show "ensure_finite v fld = Inr a"
    using math_isfinite_iff [of a] by (simp add: ensure_finite_num)
qed

lemma require_int_Inr: "require_int v msg = Inr n \<longleftrightarrow> v = VInt n"
  by (cases v) auto

lemma require_str_Inr: "require_str v msg = Inr s \<longleftrightarrow> v = VStr s"
  by (cases v) auto

lemma require_bool_Inr: "require_bool v msg = Inr b \<longleftrightarrow> v = VBool b"
  by (cases v) auto

lemmas field_check_Inr = ensure_finite_Inr require_int_Inr require_str_Inr require_bool_Inr

text \<open>Every number of a context is finite: what the constructor guarantees.\<close>

definition context_ok :: "risk_context \<Rightarrow> bool" where
  "context_ok c \<longleftrightarrow> num_finite (max_daily_drawdown_pct c) \<and> num_finite (max_weekly_drawdown_pct c)
     \<and> num_finite (max_correlated_exposure c) \<and> num_finite (min_expected_value c)
     \<and> num_finite (consecutive_loss_window_minutes c)"

lemma RiskContext_new_ok:
  "RiskContext_new d w x ev lat n win = Inr c \<Longrightarrow> context_ok c"
  by (auto simp: RiskContext_new_def context_ok_def res_eq_iff field_check_Inr)

lemma new_decision_Inr:
  "new_decision a r s = Inr d
     \<longleftrightarrow> num_finite s \<and> d = \<lparr>approved = a, reason_code = r, suggested_size = s\<rparr>"
proof -
  have inj: "val_of_num s = val_of_num t \<longleftrightarrow> s = t" for t by (cases s; cases t) auto
  show ?thesis
    by (auto simp: new_decision_def RiskDecision_new_def rbind_eq_Inr field_check_Inr inj)
qed

lemma new_decision_ok:
  "num_finite s \<Longrightarrow>
     new_decision a r s = Inr \<lparr>approved = a, reason_code = r, suggested_size = s\<rparr>"
  by (simp add: new_decision_Inr)

lemma reject_simps [simp]:
  "approved (reject r d) = False" "reason_code (reject r d) = r"
  "suggested_size (reject r d) = suggested_size d"
  by (simp_all add: reject_def)

text \<open>What \<open>from_json\<close> has checked when it accepts.\<close>

lemma from_json_checked:
  assumes "RiskState_from_json decode encode decode_as payload = Inr st"
  obtains kvs p where "decode payload = Inr (JObj kvs)" "set (map fst kvs) = set allowed_keys"
    "map_of kvs ''schema_version'' = Some (JInt RISK_STATE_SCHEMA_VERSION)"
    "encode (JObj kvs) = Inr p" "decode_as p = Inr st"
proof -
  from assms obtain kvs where d: "decode payload = Inr (JObj kvs)"
    by (auto simp: RiskState_from_json_def split: sum.splits json.splits)
  note a = assms [unfolded RiskState_from_json_def d]
  have keys: "filter (\<lambda>k. k \<notin> set allowed_keys) (map fst kvs) = []"
    "filter (\<lambda>k. k \<notin> set (map fst kvs)) allowed_keys = []"
    using a by (auto simp: Let_def split: if_splits)
  then have set: "set (map fst kvs) = set allowed_keys"
    by (auto simp: filter_empty_conv)
  obtain v where v: "map_of kvs ''schema_version'' = Some (JInt v)"
    "v = RISK_STATE_SCHEMA_VERSION"
    using a keys by (simp add: Let_def split: option.splits json.splits if_splits)
  then show thesis
    using a keys set d that
    by (simp add: Let_def split: sum.splits)
qed

text \<open>A payload with exactly the five keys and the right version is decoded.\<close>

lemma from_json_accepts:
  assumes "decode payload = Inr (JObj kvs)" and "set (map fst kvs) = set allowed_keys"
    and "map_of kvs ''schema_version'' = Some (JInt RISK_STATE_SCHEMA_VERSION)"
    and "encode (JObj kvs) = Inr p" and "decode_as p = Inr st"
  shows "RiskState_from_json decode encode decode_as payload = Inr st"
proof -
  have "filter (\<lambda>k. k \<notin> set allowed_keys) (map fst kvs) = []"
    "filter (\<lambda>k. k \<notin> set (map fst kvs)) allowed_keys = []"
    using assms(2) by (auto simp: filter_empty_conv)
  then show ?thesis using assms by (simp add: RiskState_from_json_def Let_def)
qed

text \<open>Restoring persisted state is strict: a payload is accepted exactly when it parses to an
  object with the five state keys and no other, its schema version is the integer this code
  writes, and the object re-encodes and decodes as a state, which is then the result.\<close>

lemma from_json_iff:
  "RiskState_from_json decode encode decode_as payload = Inr st \<longleftrightarrow>
     (\<exists>kvs p. decode payload = Inr (JObj kvs) \<and> set (map fst kvs) = set allowed_keys
        \<and> map_of kvs ''schema_version'' = Some (JInt RISK_STATE_SCHEMA_VERSION)
        \<and> encode (JObj kvs) = Inr p \<and> decode_as p = Inr st)"
proof
  assume "RiskState_from_json decode encode decode_as payload = Inr st"
  then show "\<exists>kvs p. decode payload = Inr (JObj kvs) \<and> set (map fst kvs) = set allowed_keys
        \<and> map_of kvs ''schema_version'' = Some (JInt RISK_STATE_SCHEMA_VERSION)
        \<and> encode (JObj kvs) = Inr p \<and> decode_as p = Inr st"
    by (elim from_json_checked) (intro exI conjI)
qed (elim exE conjE, rule from_json_accepts)

end
