(* ===== verification/Gates.thy ===== *)
theory Gates
  imports RiskState
begin

text \<open>
  The stateless gates of \<open>gates.py\<close>: drawdown, concentration, expected value, consecutive
  losses in a time window, and the cluster cap. A gate is given the decision object and
  either leaves it alone and returns \<open>True\<close>, or writes the rejection into it and returns
  \<open>False\<close>; it may also raise.
\<close>

type_synonym gate_result = "(bool \<times> risk_decision) res"

definition g_pass :: "risk_decision \<Rightarrow> gate_result" where
  "g_pass d = Inr (True, d)"

definition g_reject :: "string \<Rightarrow> risk_decision \<Rightarrow> gate_result" where
  "g_reject r d = Inr (False, reject r d)"

section \<open>Helpers\<close>

definition is_aware :: "pydatetime \<Rightarrow> bool" where
  "is_aware d \<longleftrightarrow> dt_tz d \<noteq> None \<and> dt_offset d \<noteq> None"

definition timezone_mode :: "pydatetime \<Rightarrow> string" where
  "timezone_mode d = (if is_aware d then ''aware'' else ''naive'')"

section \<open>Drawdown\<close>

definition evaluate_drawdown ::
    "risk_context \<Rightarrow> pynum \<Rightarrow> pynum \<Rightarrow> risk_decision \<Rightarrow> gate_result" where
  "evaluate_drawdown ctx daily_realized_pnl equity d =
     (let limit = max_daily_drawdown_pct ctx in
      rbind (any_res [math_isnan equity, math_isnan daily_realized_pnl, math_isinf equity,
               math_isinf daily_realized_pnl, math_isnan limit, math_isinf limit]) (\<lambda>bad.
      if bad then g_reject ''ERR_INVALID_FLOAT_DRAWDOWN'' d
      else if num_le equity (PyInt 0) then g_reject ''ERR_ZERO_OR_NEGATIVE_EQUITY'' d
      else rbind (num_div daily_realized_pnl equity) (\<lambda>drawdown_pct.
        if num_lt drawdown_pct (num_neg limit)
        then rbind (percent2 drawdown_pct) (\<lambda>s1. rbind (percent2 (num_neg limit)) (\<lambda>s2.
               g_reject (''ERR_DAILY_DRAWDOWN: '' @ s1 @ '' exceeds limit '' @ s2) d))
        else g_pass d)))"

section \<open>Concentration\<close>

text \<open>
  The loop over the open positions: the summed cost basis of the unresolved ones of the
  family, or \<open>None\<close> where it meets one that is NaN or infinite.
\<close>

fun family_exposure :: "string \<Rightarrow> pynum \<Rightarrow> position list \<Rightarrow> pynum option res" where
  "family_exposure target acc [] = Inr (Some acc)"
| "family_exposure target acc (pos # ps) =
     (if \<not> is_resolved pos \<and> family pos = target
      then rbind (any_res [math_isnan (cost_basis pos), math_isinf (cost_basis pos)]) (\<lambda>bad.
             if bad then Inr None
             else rbind (num_add acc (cost_basis pos)) (\<lambda>acc'. family_exposure target acc' ps))
      else family_exposure target acc ps)"

definition evaluate_concentration ::
    "risk_context \<Rightarrow> string \<Rightarrow> pynum \<Rightarrow> position list \<Rightarrow> risk_decision \<Rightarrow> gate_result" where
  "evaluate_concentration ctx target_family cost open_positions d =
     (let limit = max_correlated_exposure ctx in
      rbind (any_res [math_isnan cost, math_isinf cost, math_isnan limit, math_isinf limit])
        (\<lambda>bad.
      if bad then g_reject ''ERR_INVALID_FLOAT_CONCENTRATION'' d
      else rbind (family_exposure target_family (PyFloat f64_zero) open_positions) (\<lambda>exposure.
        case exposure of
          None \<Rightarrow> g_reject ''ERR_INVALID_FLOAT_CONCENTRATION'' d
        | Some current \<Rightarrow>
            rbind (num_add current cost) (\<lambda>total.
            if num_lt limit total
            then g_reject (''ERR_CONCENTRATION: '' @ target_family
                   @ '' exposure would exceed '' @ str_num limit) d
            else g_pass d))))"

section \<open>Expected value\<close>

definition evaluate_expected_value ::
    "risk_context \<Rightarrow> pynum \<Rightarrow> risk_decision \<Rightarrow> gate_result" where
  "evaluate_expected_value ctx expected_value d =
     (let limit = min_expected_value ctx in
      rbind (any_res [math_isnan expected_value, math_isinf expected_value,
               math_isnan limit, math_isinf limit]) (\<lambda>bad.
      if bad then g_reject ''ERR_INVALID_FLOAT_EXPECTED_VALUE'' d
      else if num_lt expected_value limit
      then g_reject (''ERR_EXPECTED_VALUE: '' @ str_num expected_value @ '' is below minimum ''
             @ str_num limit) d
      else g_pass d))"

section \<open>Consecutive losses in a time window\<close>

text \<open>The loop, newest outcome first: \<open>n\<close> losses counted so far.\<close>

fun loss_loop ::
    "risk_context \<Rightarrow> pynum \<Rightarrow> pydatetime \<Rightarrow> int \<Rightarrow> trade_outcome list \<Rightarrow> risk_decision
      \<Rightarrow> gate_result" where
  "loss_loop ctx limit_seconds now n [] d = g_pass d"
| "loss_loop ctx limit_seconds now n (oc # ocs) d =
     (if num_lt (pnl oc) (PyInt 0)
      then rbind (dt_sub now (timestamp oc)) (\<lambda>time_diff.
           rbind (total_seconds time_diff) (\<lambda>secs.
           if num_lt (PyFloat secs) (PyInt 0) then g_reject ''ERR_INVALID_TIME_ORDER'' d
           else if num_le (PyInt 0) (PyFloat secs) \<and> num_le (PyFloat secs) limit_seconds
           then (if consecutive_loss_limit ctx \<le> n + 1
                 then g_reject (''ERR_CONSECUTIVE_LOSS_LIMIT: '' @ str_int (n + 1)
                        @ '' consecutive losses within ''
                        @ str_num (consecutive_loss_window_minutes ctx) @ '' minutes'') d
                 else loss_loop ctx limit_seconds now (n + 1) ocs d)
           else g_pass d))
      else g_pass d)"

definition evaluate_consecutive_losses ::
    "risk_context \<Rightarrow> trade_outcome list option \<Rightarrow> pydatetime option \<Rightarrow> risk_decision
      \<Rightarrow> gate_result" where
  "evaluate_consecutive_losses ctx trade_outcomes current_time d =
     (if consecutive_loss_limit ctx < 0
         \<or> num_lt (consecutive_loss_window_minutes ctx) (PyInt 0)
      then g_reject ''ERR_INVALID_CONSECUTIVE_LOSS_CONTEXT'' d
      else if consecutive_loss_limit ctx \<le> 0 then g_pass d
      else case trade_outcomes of None \<Rightarrow> g_pass d | Some ocs \<Rightarrow>
        (case ocs of [] \<Rightarrow> g_pass d | oc0 # rest \<Rightarrow>
          (let modes = map (\<lambda>oc. timezone_mode (timestamp oc)) ocs in
           if \<exists>m \<in> set modes. m \<noteq> hd modes then g_reject ''ERR_INVALID_TIMEZONE_MIXED'' d
           else rbind (any_res (map (\<lambda>oc. rbind (math_isfinite (pnl oc)) (\<lambda>b. Inr (\<not> b))) ocs))
             (\<lambda>bad.
           if bad then g_reject ''ERR_INVALID_FLOAT_CONSECUTIVE_LOSSES'' d
           else if (case current_time of None \<Rightarrow> False
                    | Some t \<Rightarrow> timezone_mode t \<notin> set modes)
           then g_reject ''ERR_INVALID_TIMEZONE_MIXED'' d
           else (let now = (case current_time of
                              None \<Rightarrow> dt_max (timestamp oc0) (map timestamp rest)
                            | Some t \<Rightarrow> t);
                     sorted_outcomes =
                       stable_sort (\<lambda>a b. dt_before (timestamp a) (timestamp b)) ocs
                 in rbind (num_mul (consecutive_loss_window_minutes ctx) (PyFloat (lit 60 1)))
                    (\<lambda>limit_seconds.
                      loss_loop ctx limit_seconds now 0 (rev sorted_outcomes) d))))))"

section \<open>Cluster cap\<close>

record cluster_cap_context =
  cluster_id :: string
  cluster_open_usd :: pynum
  cluster_proposed_cost :: pynum
  max_cluster_usd :: pynum

definition evaluate_cluster_cap :: "cluster_cap_context \<Rightarrow> risk_decision res" where
  "evaluate_cluster_cap ctx =
     (if cluster_id ctx = ''unknown''
      then new_decision True ''OK'' (cluster_proposed_cost ctx)
      else if num_le (cluster_proposed_cost ctx) (PyInt 0)
      then new_decision True ''OK'' (cluster_proposed_cost ctx)
      else if num_le (max_cluster_usd ctx) (PyInt 0)
      then new_decision False
             (''ERR_CLUSTER_CAP: max_cluster_usd='' @ str_num (max_cluster_usd ctx)
              @ '' is not positive'') (PyFloat f64_zero)
      else rbind (num_add (cluster_open_usd ctx) (cluster_proposed_cost ctx)) (\<lambda>total.
           if num_lt (max_cluster_usd ctx) total
           then new_decision False
                  (''ERR_CLUSTER_CAP: '' @ cluster_id ctx @ '' exposure '' @ str_num total
                   @ '' would exceed '' @ str_num (max_cluster_usd ctx)) (PyFloat f64_zero)
           else new_decision True ''OK'' (cluster_proposed_cost ctx)))"

lemmas [gate_defs] = evaluate_drawdown_def evaluate_concentration_def
  evaluate_expected_value_def evaluate_consecutive_losses_def g_pass_def g_reject_def Let_def

section \<open>What every gate promises\<close>

text \<open>
  The interface the engine relies on. The outcome of a gate is a verdict (pass, or a reason
  code, or an exception) that does not depend on the decision object it is handed; a pass
  leaves the object as it was and a rejection writes exactly the two fields; and every
  reason code starts with \<open>ERR_\<close>.
\<close>

definition blank_decision :: risk_decision where
  "blank_decision = \<lparr>approved = True, reason_code = ''OK'', suggested_size = PyInt 0\<rparr>"

definition verdict_of :: "(risk_decision \<Rightarrow> gate_result) \<Rightarrow> string option res" where
  "verdict_of g = (case g blank_decision of
       Inl e \<Rightarrow> Inl e
     | Inr (True, _) \<Rightarrow> Inr None
     | Inr (False, d) \<Rightarrow> Inr (Some (reason_code d)))"

definition apply_verdict :: "string option res \<Rightarrow> risk_decision \<Rightarrow> gate_result" where
  "apply_verdict v d = rbind v (\<lambda>r. case r of None \<Rightarrow> g_pass d | Some c \<Rightarrow> g_reject c d)"

locale risk_gate =
  fixes gate :: "'i \<Rightarrow> risk_decision \<Rightarrow> gate_result"
  assumes uniform: "gate i d = apply_verdict (verdict_of (gate i)) d"
    and coded: "verdict_of (gate i) = Inr (Some r) \<Longrightarrow> startswith ''ERR_'' r"
begin

lemma pass_unchanged: "gate i d = Inr (True, d') \<Longrightarrow> d' = d"
  by (subst (asm) uniform)
    (auto simp: apply_verdict_def g_pass_def g_reject_def rbind_eq_Inr split: option.splits)

lemma fail_rejects:
  assumes "gate i d = Inr (False, d')"
  shows "\<exists>r. d' = reject r d \<and> startswith ''ERR_'' r"
proof -
  from assms obtain r where "verdict_of (gate i) = Inr (Some r)" "d' = reject r d"
    by (subst (asm) uniform)
      (auto simp: apply_verdict_def g_pass_def g_reject_def rbind_eq_Inr split: option.splits)
  then show ?thesis using coded by blast
qed

lemma verdict_iff:
  "gate i d = Inr (b, d') \<longleftrightarrow>
     (case verdict_of (gate i) of
        Inl e \<Rightarrow> False
      | Inr None \<Rightarrow> b \<and> d' = d
      | Inr (Some r) \<Rightarrow> \<not> b \<and> d' = reject r d)"
  by (subst uniform)
    (auto simp: apply_verdict_def g_pass_def g_reject_def split: sum.splits option.splits)

lemma same_outcome:
  "gate i d = Inr (b, d') \<Longrightarrow> \<exists>e'. gate i e = Inr (b, e') \<and> (\<not> b \<longrightarrow> reason_code e' = reason_code d')"
  by (auto simp: verdict_iff split: sum.splits option.splits)

lemma raises_uniformly: "gate i d = Inl x \<longleftrightarrow> verdict_of (gate i) = Inl x"
  by (subst uniform, cases "verdict_of (gate i)")
    (auto simp: apply_verdict_def g_pass_def g_reject_def split: option.splits)

end


text \<open>
  The contract is compositional: it holds of the two endings and is kept by the control
  structure the gates are written with, so each gate below is an instance of the rules.
\<close>

definition well_behaved :: "(risk_decision \<Rightarrow> gate_result) \<Rightarrow> bool" where
  "well_behaved g \<longleftrightarrow> (\<forall>d. g d = apply_verdict (verdict_of g) d)
     \<and> (\<forall>r. verdict_of g = Inr (Some r) \<longrightarrow> startswith ''ERR_'' r)"

named_theorems wb_intros \<open>closure rules for gates that honour the contract\<close>

lemma verdict_of_g_pass [simp]: "verdict_of g_pass = Inr None"
  by (simp add: verdict_of_def g_pass_def)

lemma verdict_of_g_reject [simp]: "verdict_of (g_reject r) = Inr (Some r)"
  by (simp add: verdict_of_def g_reject_def)

lemma wb_pass [wb_intros]: "well_behaved g_pass"
  by (simp add: well_behaved_def apply_verdict_def)

lemma wb_reject [wb_intros]: "startswith ''ERR_'' r \<Longrightarrow> well_behaved (g_reject r)"
  by (simp add: well_behaved_def apply_verdict_def)

lemma wb_if [wb_intros]:
  "(b \<Longrightarrow> well_behaved g) \<Longrightarrow> (\<not> b \<Longrightarrow> well_behaved h)
     \<Longrightarrow> well_behaved (\<lambda>d. if b then g d else h d)"
  by (cases b) simp_all

lemma wb_raise: "well_behaved (\<lambda>d. Inl e)"
  by (simp add: well_behaved_def apply_verdict_def verdict_of_def)

lemma wb_rbind [wb_intros]:
  "(\<And>x. r = Inr x \<Longrightarrow> well_behaved (f x)) \<Longrightarrow> well_behaved (\<lambda>d. rbind r (\<lambda>x. f x d))"
  by (cases r) (simp_all add: wb_raise)

lemma wb_option [wb_intros]:
  "(x = None \<Longrightarrow> well_behaved g) \<Longrightarrow> (\<And>y. x = Some y \<Longrightarrow> well_behaved (h y))
     \<Longrightarrow> well_behaved (\<lambda>d. case x of None \<Rightarrow> g d | Some y \<Rightarrow> h y d)"
  by (cases x) auto

lemma wb_list [wb_intros]:
  "(xs = [] \<Longrightarrow> well_behaved g) \<Longrightarrow> (\<And>y ys. xs = y # ys \<Longrightarrow> well_behaved (h y ys))
     \<Longrightarrow> well_behaved (\<lambda>d. case xs of [] \<Rightarrow> g d | y # ys \<Rightarrow> h y ys d)"
  by (cases xs) auto

lemma risk_gateI: "(\<And>i. well_behaved (gate i)) \<Longrightarrow> risk_gate gate"
  by unfold_locales (auto simp: well_behaved_def)

lemma wb_evaluate_expected_value: "well_behaved (evaluate_expected_value ctx ev)"
  unfolding evaluate_expected_value_def [abs_def] Let_def by (intro wb_intros) simp_all

lemma wb_evaluate_drawdown: "well_behaved (evaluate_drawdown ctx p q)"
  unfolding evaluate_drawdown_def [abs_def] Let_def by (intro wb_intros) simp_all

lemma wb_evaluate_concentration: "well_behaved (evaluate_concentration ctx fam cost ps)"
  unfolding evaluate_concentration_def [abs_def] Let_def by (intro wb_intros) simp_all

lemma wb_loss_loop: "well_behaved (loss_loop ctx secs now n ocs)"
proof (induction ocs arbitrary: n)
  case Nil
  have "loss_loop ctx secs now n [] = g_pass" by (rule ext) simp
  then show ?case by (simp add: wb_pass)
next
  case (Cons oc ocs)
  show ?case
    unfolding loss_loop.simps(2) [abs_def] by (intro wb_intros Cons.IH) simp_all
qed

lemma wb_evaluate_consecutive_losses: "well_behaved (evaluate_consecutive_losses ctx ocs now)"
  unfolding evaluate_consecutive_losses_def [abs_def] Let_def
  by (intro wb_intros wb_loss_loop) simp_all

interpretation ev_gate: risk_gate "\<lambda>(ctx, ev). evaluate_expected_value ctx ev"
  by (rule risk_gateI) (auto intro: wb_evaluate_expected_value)

interpretation drawdown_gate: risk_gate "\<lambda>(ctx, p, q). evaluate_drawdown ctx p q"
  by (rule risk_gateI) (auto intro: wb_evaluate_drawdown)

interpretation concentration_gate:
    risk_gate "\<lambda>(ctx, fam, cost, ps). evaluate_concentration ctx fam cost ps"
  by (rule risk_gateI) (auto intro: wb_evaluate_concentration)

interpretation loss_gate: risk_gate "\<lambda>(ctx, ocs, now). evaluate_consecutive_losses ctx ocs now"
  by (rule risk_gateI) (auto intro: wb_evaluate_consecutive_losses)

end
