(* ===== verification/GateLaws.thy ===== *)
theory GateLaws
  imports Gates
begin

text \<open>
  What the stateless gates decide: the expected-value threshold, soundness and monotonicity
  of the drawdown gate under float rounding, the exposure the concentration gate sums and
  its monotonicity, and the decision table of the cluster cap with its behaviour on NaN.
\<close>

section \<open>Evaluating the checks\<close>

lemma any_res_finite [simp]:
  "any_res (Inr False # rs) = any_res rs" "any_res (Inr True # rs) = Inr True"
  by simp_all

lemma gate_pass_iff: "g_pass d = Inr (b, d') \<longleftrightarrow> b \<and> d' = d"
  by (auto simp: g_pass_def)

lemma gate_reject_iff: "g_reject r d = Inr (b, d') \<longleftrightarrow> \<not> b \<and> d' = reject r d"
  by (auto simp: g_reject_def)

lemma gate_end_Inr [simp]: "g_pass d \<noteq> Inl e" "g_reject r d \<noteq> Inl e"
  by (simp_all add: g_pass_def g_reject_def)

lemmas gate_end_iff = gate_pass_iff gate_reject_iff

text \<open>A position for examples, and the order of closed floats, decided by evaluation.\<close>

definition sample_position :: "pynum \<Rightarrow> position" where
  "sample_position cost = \<lparr>ticker = ''T'', family = ''FED'', cost_basis = cost,
     current_value = cost, is_resolved = False\<rparr>"


lemma fval_positive: "is_finite x \<and> flt f64_zero x \<Longrightarrow> 0 < fval x"
  by (auto simp: f64_zero_def flt_fval)

lemma fval_le: "is_finite x \<and> is_finite y \<and> fle x y \<Longrightarrow> fval x \<le> fval y"
  using fle_fval by blast

section \<open>Expected value\<close>

lemma expected_value_finite:
  assumes "num_finite ev" and "num_finite (min_expected_value ctx)"
  shows "evaluate_expected_value ctx ev d =
    (if num_lt ev (min_expected_value ctx)
     then g_reject (''ERR_EXPECTED_VALUE: '' @ str_num ev @ '' is below minimum ''
            @ str_num (min_expected_value ctx)) d
     else g_pass d)"
  using assms by (simp add: evaluate_expected_value_def Let_def)

text \<open>The expected-value gate is exact: on finite inputs (integers and floats alike) it
  returns, and it passes precisely when the exact value of the expected value is at least
  the exact minimum; a pass leaves the decision untouched.
\<close>

lemma expected_value_threshold:
  assumes "num_finite ev" and "num_finite (min_expected_value ctx)"
  shows "\<exists>b d'. evaluate_expected_value ctx ev d = Inr (b, d')
     \<and> (b \<longleftrightarrow> num_value (min_expected_value ctx) \<le> num_value ev)
     \<and> (b \<longrightarrow> d' = d) \<and> (\<not> b \<longrightarrow> \<not> approved d' \<and> startswith ''ERR_EXPECTED_VALUE: '' (reason_code d'))"
  using assms
  by (simp add: expected_value_finite num_lt_value g_pass_def g_reject_def not_less)

section \<open>Drawdown\<close>

lemma drawdown_floats:
  assumes "is_finite p" and "is_finite q" and "max_daily_drawdown_pct ctx = PyFloat L"
    and "is_finite L" and "0 < fval q"
  shows "evaluate_drawdown ctx (PyFloat p) (PyFloat q) d =
    (if flt (fdiv p q) (fneg L)
     then g_reject (''ERR_DAILY_DRAWDOWN: '' @ percent2_f64 (fdiv p q) @ '' exceeds limit ''
            @ percent2_f64 (fneg L)) d
     else g_pass d)"
proof -
  have nan: "p \<noteq> NaN" "q \<noteq> NaN" "L \<noteq> NaN" using assms by auto
  have q: "\<not> fle q (exact_int 0)" "\<not> feq q f64_zero"
    using assms by (simp_all add: fle_fval feq_def f64_zero_def)
  show ?thesis
    using assms(1-4) nan q by (simp add: evaluate_drawdown_def Let_def num_le_def num_lt_def)
qed

text \<open>
  C35. The drawdown gate never rejects wrongly: with finite float inputs and a float limit,
  a rejection for drawdown means that the exact quotient of loss and equity is below the
  negated limit, rounding notwithstanding.
\<close>

theorem drawdown_reject_sound:
  assumes "canonical p" "canonical q" "canonical L"
    and "is_finite p" "is_finite q" "is_finite L" and "0 < fval q"
    and "max_daily_drawdown_pct ctx = PyFloat L"
    and "evaluate_drawdown ctx (PyFloat p) (PyFloat q) d = Inr (False, d')"
  shows "fval p / fval q < - fval L"
proof (rule ccontr)
  assume "\<not> fval p / fval q < - fval L"
  then have "fval (fneg L) \<le> fval p / fval q" by simp
  moreover have "approx (fdiv p q) (fval p / fval q)" using assms by (intro fdiv_approx) simp_all
  ultimately have "fle (fneg L) (fdiv p q)" using assms by (intro approx_ge_float) simp_all
  then have "\<not> flt (fdiv p q) (fneg L)" using fle_flt_trans flt_irrefl by blast
  then show False using assms by (simp add: drawdown_floats gate_end_iff)
qed

theorem drawdown_reject_sound_witness:
  "fval (lit (-2000) 1) / fval (lit 10000 1) < - fval (lit 10 100)"
proof (rule drawdown_reject_sound)
  show "evaluate_drawdown default_context (PyFloat (lit (-2000) 1)) (PyFloat (lit 10000 1))
      blank_decision = Inr (False, reject ''ERR_DAILY_DRAWDOWN: -20.00% exceeds limit -10.00%''
        blank_decision)"
    by code_simp
  show "0 < fval (lit 10000 1)" by (rule fval_positive) code_simp
qed (simp_all add: default_context_def, code_simp+)

text \<open>
  The drawdown gate is monotone in the realised profit and loss: a trade that passes
  with one result of the day passes with every better one.
\<close>

lemma drawdown_monotone:
  assumes "canonical p" "canonical p'" "canonical q"
    and "is_finite p" "is_finite p'" "is_finite q" "is_finite L" and "0 < fval q"
    and "max_daily_drawdown_pct ctx = PyFloat L" and "fval p \<le> fval p'"
    and "evaluate_drawdown ctx (PyFloat p) (PyFloat q) d = Inr (True, d)"
  shows "evaluate_drawdown ctx (PyFloat p') (PyFloat q) d = Inr (True, d)"
proof -
  have "fle (fdiv p q) (fdiv p' q)" using assms by (intro fdiv_mono_left) (simp_all add: fle_fval)
  moreover have "\<not> flt (fdiv p q) (fneg L)"
    using assms(11) drawdown_floats [OF assms(4,6,9,7,8), of d]
    by (simp add: gate_end_iff split: if_splits)
  ultimately have "\<not> flt (fdiv p' q) (fneg L)" using fle_flt_trans by blast
  then show ?thesis using drawdown_floats [OF assms(5,6,9,7,8), of d] by (simp add: g_pass_def)
qed

section \<open>Concentration\<close>

text \<open>The positions the gate looks at.\<close>

definition in_family :: "string \<Rightarrow> position \<Rightarrow> bool" where
  "in_family fam pos \<longleftrightarrow> \<not> is_resolved pos \<and> family pos = fam"

lemma family_exposure_filter:
  "family_exposure fam acc ps = family_exposure fam acc (filter (in_family fam) ps)"
  by (induction ps arbitrary: acc) (simp_all add: in_family_def cong: if_cong)

text \<open>The exposure of finite positions: a left-to-right float sum.\<close>

definition cost_float :: "position \<Rightarrow> f64" where
  "cost_float pos = (case to_float (cost_basis pos) of Inr x \<Rightarrow> x | Inl _ \<Rightarrow> NaN)"

lemma family_exposure_finite:
  assumes "\<forall>pos \<in> set ps. num_finite (cost_basis pos)"
  shows "family_exposure fam (PyFloat acc) ps =
     Inr (Some (PyFloat (foldl fadd acc (map cost_float (filter (in_family fam) ps)))))"
  using assms
proof (induction ps arbitrary: acc)
  case (Cons pos ps)
  then obtain x where "to_float (cost_basis pos) = Inr x"
    by (auto elim: num_finiteD)
  moreover from this have "num_add (PyFloat acc) (cost_basis pos) = Inr (PyFloat (fadd acc x))"
    by (cases "cost_basis pos") simp_all
  ultimately show ?case
    using Cons by (simp add: in_family_def cost_float_def)
qed simp

lemma cost_float_finite: "num_finite (cost_basis pos) \<Longrightarrow> is_finite (cost_float pos)"
  by (auto simp: cost_float_def elim!: num_finiteD)

lemma num_add_float:
  "to_float c = Inr x \<Longrightarrow> num_add (PyFloat acc) c = Inr (PyFloat (fadd acc x))"
  by (cases c) simp_all

lemma concentration_finite:
  assumes "\<forall>pos \<in> set ps. num_finite (cost_basis pos)" and "to_float cost = Inr c"
    and "is_finite c" and "num_finite (max_correlated_exposure ctx)"
  shows "evaluate_concentration ctx fam cost ps d =
    (if num_lt (max_correlated_exposure ctx) (PyFloat (fadd
          (foldl fadd f64_zero (map cost_float (filter (in_family fam) ps))) c))
     then g_reject (''ERR_CONCENTRATION: '' @ fam @ '' exposure would exceed ''
            @ str_num (max_correlated_exposure ctx)) d
     else g_pass d)"
proof -
  have "num_finite cost" using assms(2,3) by (simp add: num_finite_def)
  then show ?thesis
    using assms by (simp add: evaluate_concentration_def Let_def family_exposure_finite
        num_add_float)
qed

lemma foldl_fadd_not_NaN:
  "acc \<noteq> NaN \<Longrightarrow> \<forall>x \<in> set xs. is_finite x \<Longrightarrow> foldl fadd acc xs \<noteq> NaN"
  by (induction xs arbitrary: acc) (simp_all add: fadd_Fin_not_NaN)

lemma foldl_fadd_mono:
  "fle acc acc' \<Longrightarrow> \<forall>x \<in> set xs. is_finite x \<Longrightarrow> fle (foldl fadd acc xs) (foldl fadd acc' xs)"
  by (induction xs arbitrary: acc acc') (simp_all add: fadd_mono_left)

text \<open>Only the unresolved positions of the target family count: the gate's outcome is the
  same with every other position left out.
\<close>

lemma concentration_ignores_others:
  "evaluate_concentration ctx fam cost ps d
     = evaluate_concentration ctx fam cost (filter (in_family fam) ps) d"
  unfolding evaluate_concentration_def Let_def
  by (simp only: family_exposure_filter [of fam _ ps])


lemma fadd_mono_right_any:
  assumes "S \<noteq> NaN" and "is_finite y" and "is_finite y'" and "fle y y'"
  shows "fle (fadd S y) (fadd S y')"
proof (cases "is_finite S")
  case True
  then show ?thesis using assms by (intro fadd_mono_right)
next
  case False
  with assms show ?thesis by (cases S; cases y; cases y') simp_all
qed

lemma fadd_nonneg_ge:
  assumes "S \<noteq> NaN" and "canonical S" and "is_finite y" and "0 \<le> fval y"
  shows "fle S (fadd S y)"
proof (cases "is_finite S")
  case True
  then show ?thesis using assms by (intro approx_ge_float [OF fadd_approx]) simp_all
next
  case False
  with assms show ?thesis by (cases S; cases y) simp_all
qed

lemma to_float_mono:
  assumes "num_ok a" "num_ok b" "num_finite a" "num_finite b" "num_value a \<le> num_value b"
    and "to_float a = Inr x" "to_float b = Inr y"
  shows "fle x y"
proof (rule approx_mono)
  show "approx x (num_value a)" "approx y (num_value b)"
    using assms by (auto intro!: to_float_approx simp: to_float_Inr_finite)
qed fact

lemma num_lt_float_mono: "fle x y \<Longrightarrow> num_lt l (PyFloat x) \<Longrightarrow> num_lt l (PyFloat y)"
  unfolding num_lt_def num_key.simps by (rule flt_fle_trans)

lemma family_sum_not_NaN:
  assumes "\<forall>pos \<in> set ps. num_finite (cost_basis pos)"
  shows "foldl fadd f64_zero (map cost_float (filter (in_family fam) ps)) \<noteq> NaN"
  using assms by (intro foldl_fadd_not_NaN) (auto simp: cost_float_finite f64_zero_def)

text \<open>The concentration gate is monotone in the cost of the proposed trade: with the same
  positions, a trade that passes still passes when it costs less.
\<close>

lemma concentration_monotone_cost:
  assumes "\<forall>pos \<in> set ps. num_finite (cost_basis pos)"
    and "num_finite (max_correlated_exposure ctx)"
    and "num_finite cost" "num_finite cost'" "num_ok cost" "num_ok cost'"
    and "num_value cost' \<le> num_value cost"
    and "evaluate_concentration ctx fam cost ps d = Inr (True, d)"
  shows "evaluate_concentration ctx fam cost' ps d = Inr (True, d)"
proof -
  obtain c c' where c: "to_float cost = Inr c" "is_finite c" "to_float cost' = Inr c'" "is_finite c'"
    using assms(3,4) by (elim num_finiteD)
  define S where "S = foldl fadd f64_zero (map cost_float (filter (in_family fam) ps))"
  have "fle c' c" using to_float_mono assms c by blast
  then have "fle (fadd S c') (fadd S c)"
    using family_sum_not_NaN [OF assms(1), of fam] c by (intro fadd_mono_right_any) (simp_all add: S_def)
  then have "num_lt (max_correlated_exposure ctx) (PyFloat (fadd S c'))
      \<Longrightarrow> num_lt (max_correlated_exposure ctx) (PyFloat (fadd S c))"
    by (rule num_lt_float_mono)
  then show ?thesis
    using assms(8) concentration_finite [OF assms(1) c(1,2) assms(2), of fam d]
      concentration_finite [OF assms(1) c(3,4) assms(2), of fam d]
    by (auto simp: S_def gate_end_iff split: if_splits)
qed

lemma canonical_foldl_fadd:
  "canonical acc \<Longrightarrow> \<forall>x \<in> set xs. canonical x \<Longrightarrow> canonical (foldl fadd acc xs)"
  by (induction xs arbitrary: acc) simp_all

lemma cost_float_canonical:
  "num_ok (cost_basis pos) \<Longrightarrow> num_finite (cost_basis pos) \<Longrightarrow> canonical (cost_float pos)"
  by (auto simp: cost_float_def intro: canonical_to_float elim!: num_finiteD)

lemma cost_float_nonneg:
  assumes "num_ok (cost_basis pos)" "num_finite (cost_basis pos)" "0 \<le> num_value (cost_basis pos)"
  shows "0 \<le> fval (cost_float pos)"
proof -
  obtain x where x: "to_float (cost_basis pos) = Inr x" "is_finite x"
    using assms(2) by (elim num_finiteD)
  have "approx x (num_value (cost_basis pos))" using assms x by (intro to_float_approx)
  then have "fle f64_zero x"
    using assms(3) by (intro approx_ge_float) (simp_all add: f64_zero_def canonical_def)
  then show ?thesis using x by (simp add: fle_fval cost_float_def f64_zero_def)
qed

lemma canonical_zero [simp]: "canonical f64_zero" "f64_zero \<noteq> NaN" "is_finite f64_zero"
  by (simp_all add: f64_zero_def canonical_def)

text \<open>
  Holding more never helps: if a trade passes the concentration gate with some open
  positions, it passes without any one of them whose cost basis is not negative.
\<close>

lemma concentration_more_positions:
  assumes "\<forall>pos \<in> set (ps @ pos # qs). num_finite (cost_basis pos) \<and> num_ok (cost_basis pos)"
    and "num_finite (max_correlated_exposure ctx)" and "num_finite cost"
    and "0 \<le> num_value (cost_basis pos)"
    and "evaluate_concentration ctx fam cost (ps @ pos # qs) d = Inr (True, d)"
  shows "evaluate_concentration ctx fam cost (ps @ qs) d = Inr (True, d)"
proof -
  let ?fl = "\<lambda>ps. map cost_float (filter (in_family fam) ps)"
  obtain c where c: "to_float cost = Inr c" "is_finite c" using assms(3) by (elim num_finiteD)
  define S where "S = foldl fadd f64_zero (?fl ps)"
  have S: "S \<noteq> NaN" "canonical S"
    using assms(1) family_sum_not_NaN [of ps fam]
    by (auto simp: S_def intro!: canonical_foldl_fadd cost_float_canonical)
  have "fle S (if in_family fam pos then fadd S (cost_float pos) else S)"
    using S assms(1,4) by (auto intro: fadd_nonneg_ge fle_refl cost_float_finite cost_float_nonneg)
  then have "fle (foldl fadd S (?fl qs))
      (foldl fadd (if in_family fam pos then fadd S (cost_float pos) else S) (?fl qs))"
    using assms(1) by (intro foldl_fadd_mono) (auto simp: cost_float_finite)
  then have "fle (foldl fadd f64_zero (?fl (ps @ qs))) (foldl fadd f64_zero (?fl (ps @ pos # qs)))"
    by (auto simp: S_def split: if_splits)
  then have le: "fle (fadd (foldl fadd f64_zero (?fl (ps @ qs))) c)
      (fadd (foldl fadd f64_zero (?fl (ps @ pos # qs))) c)"
    using c by (intro fadd_mono_left)
  have fin: "\<forall>pos \<in> set (ps @ pos # qs). num_finite (cost_basis pos)"
    "\<forall>pos \<in> set (ps @ qs). num_finite (cost_basis pos)"
    using assms(1) by auto
  show ?thesis
    using assms(5) concentration_finite [OF fin(1) c assms(2), of fam d]
      concentration_finite [OF fin(2) c assms(2), of fam d] num_lt_float_mono [OF le]
    by (auto simp: gate_end_iff split: if_splits)
qed

section \<open>Cluster cap\<close>

lemma num_add_finite: "num_finite a \<Longrightarrow> num_finite b \<Longrightarrow> \<exists>t. num_add a b = Inr t"
  by (cases a; cases b) (auto elim!: num_finiteD)

lemma num_finite_0 [simp]: "num_finite (PyInt 0)"
  by (simp add: num_finite_def f64_of_int_def round_f64_def)

text \<open>The decision table of the cluster cap, for finite inputs: approved for an unmapped
  cluster or a non-positive cost, rejected for a non-positive cap, otherwise approved
  precisely when the summed exposure does not exceed the cap; and it never raises.
\<close>

lemma cluster_cap_table:
  assumes "num_finite (cluster_open_usd ctx)" "num_finite (cluster_proposed_cost ctx)"
    and "num_finite (max_cluster_usd ctx)"
  shows "\<exists>tot d. num_add (cluster_open_usd ctx) (cluster_proposed_cost ctx) = Inr tot
     \<and> evaluate_cluster_cap ctx = Inr d
     \<and> (approved d \<longleftrightarrow> cluster_id ctx = ''unknown'' \<or> num_value (cluster_proposed_cost ctx) \<le> 0
        \<or> 0 < num_value (max_cluster_usd ctx) \<and> \<not> num_lt (max_cluster_usd ctx) tot)
     \<and> (approved d \<longrightarrow> reason_code d = ''OK'' \<and> suggested_size d = cluster_proposed_cost ctx)
     \<and> (\<not> approved d \<longrightarrow> startswith ''ERR_CLUSTER_CAP: '' (reason_code d)
          \<and> suggested_size d = PyFloat f64_zero)"
proof -
  obtain t where t: "num_add (cluster_open_usd ctx) (cluster_proposed_cost ctx) = Inr t"
    using num_add_finite assms(1,2) by blast
  show ?thesis
    using assms t
    by (auto simp: evaluate_cluster_cap_def new_decision_ok num_le_value)
qed

text \<open>
  The cluster cap fails open on NaN: whatever the exposure, a NaN cap or a NaN open
  exposure lets every trade of finite cost through, where the other gates reject a NaN.
\<close>

lemma cluster_cap_nan_approves:
  assumes "num_finite (cluster_proposed_cost ctx)"
    and "cluster_open_usd ctx = PyFloat x"
    and "max_cluster_usd ctx = PyFloat NaN \<or> x = NaN \<and> num_lt (PyInt 0) (max_cluster_usd ctx)"
  shows "evaluate_cluster_cap ctx
     = Inr \<lparr>approved = True, reason_code = ''OK'', suggested_size = cluster_proposed_cost ctx\<rparr>"
proof -
  obtain c where c: "to_float (cluster_proposed_cost ctx) = Inr c" using assms(1) by (elim num_finiteD)
  have add: "num_add (cluster_open_usd ctx) (cluster_proposed_cost ctx) = Inr (PyFloat (fadd x c))"
    using c by (simp add: assms(2) num_add_float)
  have "\<not> num_le (max_cluster_usd ctx) (PyInt 0)"
    using assms(3) by (auto simp: num_le_def num_lt_def dest: flt_fle_trans)
  moreover have "\<not> num_lt (max_cluster_usd ctx) (PyFloat (fadd x c))"
    using assms(3) by (auto simp: num_lt_def)
  ultimately show ?thesis
    using assms(1) by (simp add: evaluate_cluster_cap_def new_decision_ok add)
qed

section \<open>Gates that cannot reject\<close>

lemma sample_cost_added: "num_add (PyFloat f64_zero) (PyFloat (lit 100 1)) = Inr (PyFloat (lit 100 1))"
  by code_simp

text \<open>A trade of 100 dollars against an empty book and the default exposure limit.\<close>

lemma sample_concentration:
  assumes "max_correlated_exposure ctx = PyFloat (lit 2500 1)"
  shows "evaluate_concentration ctx fam (PyFloat (lit 100 1)) [] = g_pass"
proof (rule ext)
  fix d
  have "any_res [math_isnan (PyFloat (lit 100 1)), math_isinf (PyFloat (lit 100 1)),
       math_isnan (PyFloat (lit 2500 1)), math_isinf (PyFloat (lit 2500 1))] = Inr False"
    "\<not> num_lt (PyFloat (lit 2500 1)) (PyFloat (lit 100 1))"
    by code_simp+
  then show "evaluate_concentration ctx fam (PyFloat (lit 100 1)) [] d = g_pass d"
    unfolding evaluate_concentration_def by (simp only: Let_def rbind_simps if_False
        family_exposure.simps option.case assms sample_cost_added)
qed

lemma default_exposure: "max_correlated_exposure default_context = PyFloat (lit 2500 1)"
  by (simp add: default_context_def)

text \<open>A loss limit of zero switches the loss gate off.\<close>

lemma loss_limit_off:
  assumes "consecutive_loss_limit ctx = 0" and "\<not> num_lt (consecutive_loss_window_minutes ctx) (PyInt 0)"
  shows "evaluate_consecutive_losses ctx ocs t = g_pass"
  by (rule ext) (simp add: evaluate_consecutive_losses_def assms)

end
