(* ===== verification/PySort.thy ===== *)
theory PySort
  imports PyTime "HOL-Library.Multiset"
begin

text \<open>
  Python's \<open>sorted\<close> and \<open>list.sort\<close> (\<open>stable_sort\<close>) against the sorting function of the library: a
  comparison that orders by an integer key gives the list \<open>sort_key\<close> gives.
\<close>

lemma mset_insert_stable [simp]: "mset (insert_stable lt x ys) = add_mset x (mset ys)"
  by (induction ys) auto

lemma mset_stable_sort [simp]: "mset (stable_sort lt xs) = mset xs"
proof -
  have "mset (foldl (\<lambda>acc x. insert_stable lt x acc) acc xs) = mset acc + mset xs" for acc
    by (induction xs arbitrary: acc) auto
  then show ?thesis by (simp add: stable_sort_def)
qed

text \<open>Among the elements of one key, an insertion comes last.\<close>

lemma filter_insert_stable:
  assumes "sorted_wrt (\<lambda>a b. k a \<le> (k b :: int)) ys"
    and "\<forall>y \<in> set ys. lt x y \<longleftrightarrow> k x < k y"
  shows "filter (\<lambda>y. c = k y) (insert_stable lt x ys)
    = filter (\<lambda>y. c = k y) ys @ (if c = k x then [x] else [])"
  using assms
proof (induction ys)
  case (Cons y ys)
  show ?case
  proof (cases "lt x y")
    case True
    then have "\<forall>z \<in> set (y # ys). k x < k z" using Cons.prems by fastforce
    then have "c = k x \<Longrightarrow> filter (\<lambda>y. c = k y) (y # ys) = []" by (auto simp: filter_empty_conv)
    then show ?thesis using True by auto
  qed (use Cons in auto)
qed simp

lemma stable_sort_snoc: "stable_sort lt (xs @ [x]) = insert_stable lt x (stable_sort lt xs)"
  by (simp add: stable_sort_def)

lemma filter_stable_sort:
  assumes "\<forall>a \<in> set xs. \<forall>b \<in> set xs. lt a b \<longleftrightarrow> k a < (k b :: int)"
  shows "filter (\<lambda>y. c = k y) (stable_sort lt xs) = filter (\<lambda>y. c = k y) xs"
  using assms
proof (induction xs rule: rev_induct)
  case (snoc x xs)
  then have "sorted_wrt (\<lambda>a b. k a \<le> k b) (stable_sort lt xs)"
    by (intro sorted_stable_sort) simp
  then show ?case
    using snoc filter_insert_stable [of k "stable_sort lt xs" lt x c] by (simp add: stable_sort_snoc)
qed simp

lemma stable_sort_is_sort_key:
  assumes "\<forall>a \<in> set xs. \<forall>b \<in> set xs. lt a b \<longleftrightarrow> k a < (k b :: int)"
  shows "stable_sort lt xs = sort_key k xs"
proof (rule properties_for_sort_key [symmetric])
  show "mset (stable_sort lt xs) = mset xs" by simp
  show "filter (\<lambda>y. k z = k y) (stable_sort lt xs) = filter (\<lambda>y. k z = k y) xs" for z
    using assms by (rule filter_stable_sort)
  show "sorted (map k (stable_sort lt xs))"
    using sorted_stable_sort [OF assms] by (simp add: sorted_map)
qed

end
