(* ===== verification/LossWindow.thy ===== *)
theory LossWindow
  imports GateLaws PySort
begin

text \<open>
  The consecutive-loss gate against its declarative reading: the gate rejects when the
  current losing streak has at least the configured number of losses inside the time
  window. Also that its timezone checks are enough: comparing and subtracting the
  timestamps never raises a \<open>TypeError\<close>.
\<close>

section \<open>Timezone checks\<close>

lemma is_aware_iff: "is_aware d = dt_aware d"
  by (auto simp: is_aware_def dt_aware_def dt_offset_def split: option.splits)

lemma timezone_mode_eq: "timezone_mode a = timezone_mode b \<longleftrightarrow> dt_aware a = dt_aware b"
  by (auto simp: timezone_mode_def is_aware_iff)

fun is_overflow :: "exn \<Rightarrow> bool" where
  "is_overflow (OverflowError m) = True"
| "is_overflow _ = False"

lemma to_float_Inl: "to_float a = Inl e \<Longrightarrow> is_overflow e"
  by (cases a) (auto split: f64.splits)

lemma math_isfinite_Inl: "math_isfinite a = Inl e \<Longrightarrow> is_overflow e"
  by (auto simp: math_isfinite_def rbind_eq_Inl to_float_Inl)

lemma total_seconds_Inl: "total_seconds us = Inl e \<Longrightarrow> is_overflow e"
  by (auto simp: total_seconds_def int_truediv_def split: f64.splits)

lemma num_mul_Inl: "num_mul a b = Inl e \<Longrightarrow> is_overflow e"
  by (cases a; cases b) (auto simp: rbind_eq_Inl dest: to_float_Inl simp del: to_float.simps(2))

lemma any_res_Inl: "any_res rs = Inl e \<Longrightarrow> Inl e \<in> set rs"
  by (induction rs) (auto simp: rbind_eq_Inl split: if_splits)

lemma loss_loop_Inl:
  assumes "\<forall>oc \<in> set ocs. dt_aware (timestamp oc) = dt_aware now"
    and "loss_loop ctx secs now n ocs d = Inl e"
  shows "is_overflow e"
  using assms
proof (induction ocs arbitrary: n)
  case Nil
  then show ?case by simp
next
  case (Cons oc ocs)
  from Cons.prems(1) obtain us where us: "dt_sub now (timestamp oc) = Inr us"
    using dt_sub_ok [of now "timestamp oc"] by auto
  show ?case
  proof (cases "total_seconds us")
    case (Inl e')
    then show ?thesis using Cons.prems(2) us total_seconds_Inl by (auto split: if_splits)
  next
    case (Inr s)
    then show ?thesis using Cons us by (auto split: if_splits)
  qed
qed

lemma evaluate_consecutive_losses_Inl:
  assumes "evaluate_consecutive_losses ctx ocs now d = Inl e"
  shows "is_overflow e"
proof (cases ocs)
  case None
  with assms show ?thesis by (simp add: evaluate_consecutive_losses_def split: if_splits)
next
  case (Some os)
  show ?thesis
  proof (cases os)
    case Nil
    with assms Some show ?thesis
      by (simp add: evaluate_consecutive_losses_def split: if_splits)
  next
    case (Cons oc0 rest)
    define t where "t = (case now of None \<Rightarrow> dt_max (timestamp oc0) (map timestamp rest) | Some t \<Rightarrow> t)"
    let ?modes = "map (\<lambda>oc. timezone_mode (timestamp oc)) os"
    note a = assms [unfolded evaluate_consecutive_losses_def Some Cons Let_def option.case list.case,
        folded Cons t_def]
    have "any_res (map (\<lambda>oc. rbind (math_isfinite (pnl oc)) (\<lambda>b. Inr (\<not> b))) os) = Inl e
        \<Longrightarrow> ?thesis"
      by (auto dest!: any_res_Inl sym [of "Inl e"] simp: rbind_eq_Inl math_isfinite_Inl)
    moreover have "num_mul w (PyFloat x) = Inl e \<Longrightarrow> ?thesis" for w x by (rule num_mul_Inl)
    moreover have ?thesis
      if same: "\<not> (\<exists>m \<in> set ?modes. m \<noteq> hd ?modes)"
        and cur: "\<not> (case now of None \<Rightarrow> False | Some t \<Rightarrow> timezone_mode t \<notin> set ?modes)"
        and loop: "loss_loop ctx secs t 0 (rev (stable_sort lt os)) d = Inl e" for secs lt
    proof -
      have "timezone_mode t \<in> set ?modes"
        using cur dt_max_in [of "timestamp oc0" "map timestamp rest"]
        by (auto simp: t_def Cons split: option.splits)
      then have "\<forall>oc \<in> set os. timezone_mode (timestamp oc) = timezone_mode t"
        using same by auto
      then show ?thesis using loop by (intro loss_loop_Inl) (auto simp: timezone_mode_eq)
    qed
    ultimately show ?thesis using a by (auto simp: rbind_eq_Inl split: if_splits)
  qed
qed

text \<open>The timezone checks of the consecutive-loss gate are enough: whatever mix of naive
  and aware timestamps it is given, it never raises a \<open>TypeError\<close>; the only exception it can
  raise is the \<open>OverflowError\<close> of a number too large for a float.
\<close>

lemma consecutive_losses_only_overflow:
  assumes "evaluate_consecutive_losses ctx ocs now d = Inl e"
  shows "is_overflow e"
  using assms by (rule evaluate_consecutive_losses_Inl)

section \<open>Ages in seconds\<close>

text \<open>A magnitude up to \<open>2^63\<close> never rounds to infinity.\<close>

lemma approx_small_finite:
  assumes "approx x v" and "\<bar>v\<bar> \<le> 2 ^ 63"
  shows "is_finite x"
proof -
  have "mag \<bar>v\<bar> \<le> mag (2 ^ 63)" using assms(2) by (rule mag_mono)
  moreover have "mag (real_of_int (2 ^ 52) * 2 powi 11) = real_of_int (2 ^ 52) * 2 powi 11"
    "real_of_int (2 ^ 52) * 2 powi 11 < f64_limit"
    using canonical_mag [of False "2 ^ 52" 11] by (simp_all add: canonical_def)
  moreover have "real_of_int (2 ^ 52) * 2 powi 11 = 2 ^ 63" by simp
  ultimately have "mag \<bar>v\<bar> < f64_limit" by (simp only:)
  then show ?thesis using assms(1) by (cases x) (auto simp: approx_def)
qed

lemma total_seconds_approx:
  assumes "\<bar>us\<bar> \<le> 2 ^ 62"
  shows "\<exists>s. total_seconds us = Inr s \<and> is_finite s \<and> approx s (real_of_int us / 1000000)"
proof -
  define s where "s = round_f64 ((us < 0) \<noteq> ((1000000::int) < 0)) \<bar>us\<bar> \<bar>1000000\<bar> 0"
  have "sgn_int ((us < 0) \<noteq> ((1000000::int) < 0)) \<bar>us\<bar> = us" by simp
  then have ap: "approx s (real_of_int us / 1000000)"
    using round_f64_approx [of "\<bar>us\<bar>" "\<bar>1000000\<bar>" "(us < 0) \<noteq> ((1000000::int) < 0)" 0]
    by (simp only: s_def) simp
  have "real_of_int \<bar>us\<bar> \<le> real_of_int (2 ^ 62)" using assms by (simp only: of_int_le_iff)
  then have "\<bar>real_of_int us / 1000000\<bar> \<le> 2 ^ 63" by simp
  with ap have fin: "is_finite s" by (rule approx_small_finite)
  then have "total_seconds us = Inr s"
    unfolding total_seconds_def int_truediv_def s_def [symmetric]
    by (cases s) simp_all
  with ap fin show ?thesis by blast
qed

lemma total_seconds_mono:
  assumes "\<bar>us\<bar> \<le> 2 ^ 62" "\<bar>vs\<bar> \<le> 2 ^ 62" "us \<le> vs"
    and "total_seconds us = Inr s" "total_seconds vs = Inr t"
  shows "fle s t"
proof -
  have "approx s (real_of_int us / 1000000)" "approx t (real_of_int vs / 1000000)"
    using total_seconds_approx [OF assms(1)] total_seconds_approx [OF assms(2)] assms(4,5) by auto
  then show ?thesis by (rule approx_mono) (use assms(3) in simp)
qed

lemma total_seconds_nonneg:
  assumes "\<bar>us\<bar> \<le> 2 ^ 62" "0 \<le> us" "total_seconds us = Inr s"
  shows "num_le (PyInt 0) (PyFloat s)"
proof -
  have ap: "approx s (real_of_int us / 1000000)" "is_finite s"
    using total_seconds_approx [OF assms(1)] assms(3) by auto
  have "fval f64_zero \<le> real_of_int us / 1000000"
    unfolding f64_zero_def using assms(2) by (intro order_trans [OF _ divide_nonneg_nonneg]) simp_all
  then have "fle f64_zero s" by (rule approx_ge_float [OF ap(1) canonical_zero(1,3)])
  then show ?thesis using ap(2) by (simp add: num_le_def fle_fval f64_zero_def)
qed

section \<open>The declarative reading\<close>

definition is_loss :: "trade_outcome \<Rightarrow> bool" where
  "is_loss oc \<longleftrightarrow> num_lt (pnl oc) (PyInt 0)"

text \<open>The age of an outcome, as the gate computes it, is within the limit.\<close>

definition in_window :: "pynum \<Rightarrow> pydatetime \<Rightarrow> trade_outcome \<Rightarrow> bool" where
  "in_window limit_seconds now oc =
     (case total_seconds (dt_key now - dt_key (timestamp oc)) of
        Inl _ \<Rightarrow> False
      | Inr s \<Rightarrow> num_le (PyFloat s) limit_seconds)"

text \<open>
  Timestamps the gate can order: all aware or all naive, one offset per \<open>tzinfo\<close> object,
  instants within \<open>2^61\<close> microseconds of year one (the datetime range ends at \<open>2^58.2\<close>),
  and none after \<open>now\<close>.
\<close>

definition comparable :: "pydatetime \<Rightarrow> pydatetime \<Rightarrow> bool" where
  "comparable a b \<longleftrightarrow> dt_aware a = dt_aware b \<and> tz_coherent a b"

definition outcomes_before :: "pydatetime \<Rightarrow> trade_outcome list \<Rightarrow> bool" where
  "outcomes_before now ocs \<longleftrightarrow> \<bar>dt_key now\<bar> \<le> 2 ^ 61
     \<and> (\<forall>a \<in> set ocs. comparable now (timestamp a) \<and> dt_key (timestamp a) \<le> dt_key now
          \<and> \<bar>dt_key (timestamp a)\<bar> \<le> 2 ^ 61
          \<and> (\<forall>b \<in> set ocs. comparable (timestamp a) (timestamp b)))"

lemma age_bound:
  "\<bar>k\<bar> \<le> 2 ^ 61 \<Longrightarrow> \<bar>l\<bar> \<le> 2 ^ 61 \<Longrightarrow> \<bar>k - l\<bar> \<le> (2 ^ 62 :: int)"
  by simp

text \<open>The loop counts the recent losses at the front of its list.\<close>

lemma loss_loop_count:
  assumes "outcomes_before now ocs" and "n < consecutive_loss_limit ctx"
  shows "\<exists>b d'. loss_loop ctx secs now n ocs d = Inr (b, d')
     \<and> (b \<longleftrightarrow> n + int (length (takeWhile (\<lambda>oc. is_loss oc \<and> in_window secs now oc) ocs))
              < consecutive_loss_limit ctx)"
  using assms
proof (induction ocs arbitrary: n)
  case Nil
  then show ?case by (auto simp: g_pass_def)
next
  case (Cons oc ocs)
  have pre: "outcomes_before now ocs" using Cons.prems(1) by (auto simp: outcomes_before_def)
  show ?case
  proof (cases "is_loss oc")
    case False
    then show ?thesis using Cons.prems by (auto simp: is_loss_def g_pass_def)
  next
    case True
    let ?us = "dt_key now - dt_key (timestamp oc)"
    have sub: "dt_sub now (timestamp oc) = Inr ?us" and pos: "0 \<le> ?us" and b: "\<bar>?us\<bar> \<le> 2 ^ 62"
      using Cons.prems(1)
      by (auto simp: outcomes_before_def comparable_def intro!: dt_sub_key age_bound)
    obtain s where s: "total_seconds ?us = Inr s" using total_seconds_approx [OF b] by blast
    have nn: "num_le (PyInt 0) (PyFloat s)" "\<not> num_lt (PyFloat s) (PyInt 0)"
      using total_seconds_nonneg [OF b pos s] num_le_lt_trans flt_irrefl
      by (auto simp: num_lt_def num_le_def dest: fle_flt_trans)
    have win: "in_window secs now oc \<longleftrightarrow> num_le (PyFloat s) secs" by (simp add: in_window_def s)
    show ?thesis
    proof (cases "num_le (PyFloat s) secs \<and> n + 1 < consecutive_loss_limit ctx")
      case True
      then obtain b d' where "loss_loop ctx secs now (n + 1) ocs d = Inr (b, d')"
        "b \<longleftrightarrow> n + 1 + int (length (takeWhile (\<lambda>oc. is_loss oc \<and> in_window secs now oc) ocs))
              < consecutive_loss_limit ctx"
        using Cons.IH [OF pre] by blast
      then show ?thesis using True \<open>is_loss oc\<close> sub s nn win
        by (simp add: is_loss_def algebra_simps)
    next
      case False
      then show ?thesis using \<open>is_loss oc\<close> sub s nn win Cons.prems(2)
        by (auto simp: is_loss_def g_pass_def g_reject_def)
    qed
  qed
qed

text \<open>
  On a list ordered newest first, stopping at the first loss outside the window loses
  nothing: every older one is outside too.
\<close>

lemma takeWhile_window:
  assumes "outcomes_before now ocs"
    and "sorted_wrt (\<lambda>a b. dt_key (timestamp b) \<le> dt_key (timestamp a)) ocs"
  shows "takeWhile (\<lambda>oc. is_loss oc \<and> in_window secs now oc) ocs
       = filter (in_window secs now) (takeWhile is_loss ocs)"
  using assms
proof (induction ocs)
  case Nil
  then show ?case by simp
next
  case (Cons oc ocs)
  have pre: "outcomes_before now ocs" using Cons.prems(1) by (auto simp: outcomes_before_def)
  have older: "in_window secs now oc" if "x \<in> set ocs" and "in_window secs now x" for x
  proof -
    let ?u = "dt_key now - dt_key (timestamp oc)" and ?v = "dt_key now - dt_key (timestamp x)"
    have b: "\<bar>?u\<bar> \<le> 2 ^ 62" "\<bar>?v\<bar> \<le> 2 ^ 62"
      using Cons.prems(1) that(1) by (auto simp: outcomes_before_def intro!: age_bound)
    obtain s t where st: "total_seconds ?u = Inr s" "total_seconds ?v = Inr t"
      using total_seconds_approx [OF b(1)] total_seconds_approx [OF b(2)] by blast
    have "?u \<le> ?v" using Cons.prems(2) that(1) by auto
    then have "fle s t" using b st by (intro total_seconds_mono)
    then show ?thesis using that(2) st by (auto simp: in_window_def num_le_def intro: fle_trans)
  qed
  show ?case
  proof (cases "is_loss oc \<and> \<not> in_window secs now oc")
    case True
    then have "\<forall>x \<in> set (takeWhile is_loss ocs). \<not> in_window secs now x"
      using older by (auto dest: set_takeWhileD)
    with True show ?thesis by simp
  next
    case False
    with Cons pre show ?thesis by auto
  qed
qed

text \<open>The trades in the order of the instants they were made at; trades of one instant stay in the order
  given.\<close>

definition by_time :: "trade_outcome list \<Rightarrow> trade_outcome list" where
  "by_time ocs = sort_key (\<lambda>oc. dt_key (timestamp oc)) ocs"

lemma set_by_time [simp]: "set (by_time ocs) = set ocs"
  by (simp add: by_time_def)

lemma outcomes_before_set:
  "outcomes_before now ocs \<Longrightarrow> set ocs' = set ocs \<Longrightarrow> outcomes_before now ocs'"
  by (simp add: outcomes_before_def)

lemma outcomes_before_comparable:
  "outcomes_before now ocs \<Longrightarrow> a \<in> set ocs \<Longrightarrow> b \<in> set ocs \<Longrightarrow> comparable (timestamp a) (timestamp b)"
  by (simp add: outcomes_before_def)

lemma outcomes_before_now:
  "outcomes_before now ocs \<Longrightarrow> a \<in> set ocs \<Longrightarrow> comparable now (timestamp a)"
  by (simp add: outcomes_before_def)

lemma comparable_mode: "comparable a b \<Longrightarrow> timezone_mode b = timezone_mode a"
  by (simp add: comparable_def timezone_mode_eq)

lemma comparable_before: "comparable a b \<Longrightarrow> dt_before a b \<longleftrightarrow> dt_key a < dt_key b"
  by (simp add: comparable_def dt_before_key)

lemma time_sort:
  "outcomes_before now ocs \<Longrightarrow> stable_sort (\<lambda>a b. dt_before (timestamp a) (timestamp b)) ocs = by_time ocs"
  unfolding by_time_def
  by (intro stable_sort_is_sort_key ballI comparable_before outcomes_before_comparable)

lemma by_time_sorted:
  "sorted_wrt (\<lambda>a b. dt_key (timestamp b) \<le> dt_key (timestamp a)) (rev (by_time ocs))"
  using sorted_sort_key [of "\<lambda>oc. dt_key (timestamp oc)" ocs]
  by (simp add: by_time_def sorted_wrt_rev sorted_map)

lemma loss_checks_pass:
  "\<forall>oc \<in> set ocs. num_finite (pnl oc) \<Longrightarrow>
     any_res (map (\<lambda>oc. rbind (math_isfinite (pnl oc)) (\<lambda>b. Inr (\<not> b))) ocs) = Inr False"
  by (simp add: any_res_Inr_False)

lemma consecutive_losses_enters_loop:
  assumes "0 < consecutive_loss_limit ctx"
    and "\<not> num_lt (consecutive_loss_window_minutes ctx) (PyInt 0)"
    and "num_mul (consecutive_loss_window_minutes ctx) (PyFloat (lit 60 1)) = Inr secs"
    and "ocs \<noteq> []" and "\<forall>oc \<in> set ocs. num_finite (pnl oc)" and "outcomes_before now ocs"
  shows "evaluate_consecutive_losses ctx (Some ocs) (Some now) d
       = loss_loop ctx secs now 0 (rev (by_time ocs)) d"
proof -
  have modes: "timezone_mode (timestamp oc) = timezone_mode now" if "oc \<in> set ocs" for oc
    by (intro comparable_mode outcomes_before_now [OF assms(6) that])
  have mm: "map (\<lambda>oc. timezone_mode (timestamp oc)) ocs
      = replicate (length ocs) (timezone_mode now)"
    using modes by (simp add: map_eq_conv flip: map_replicate_const)
  obtain oc0 rest where ocs: "ocs = oc0 # rest" using assms(4) by (cases ocs) auto
  have lim: "\<not> consecutive_loss_limit ctx < 0" "\<not> consecutive_loss_limit ctx \<le> 0"
    using assms(1) by simp_all
  have same: "\<not> (\<exists>m \<in> set (replicate (length ocs) (timezone_mode now)).
      m \<noteq> hd (replicate (length ocs) (timezone_mode now)))"
    "timezone_mode now \<in> set (replicate (length ocs) (timezone_mode now))"
    by (simp_all add: ocs)
  show ?thesis
    unfolding evaluate_consecutive_losses_def Let_def option.case mm
    unfolding ocs list.case
    unfolding ocs [symmetric]
    by (simp only: lim same assms(2,3) loss_checks_pass [OF assms(5)] rbind_simps time_sort [OF assms(6)]
        if_False simp_thms)
qed

lemma consecutive_losses_window:
  assumes "0 < consecutive_loss_limit ctx"
    and "\<not> num_lt (consecutive_loss_window_minutes ctx) (PyInt 0)"
    and "num_mul (consecutive_loss_window_minutes ctx) (PyFloat (lit 60 1)) = Inr secs"
    and "ocs \<noteq> []" and "\<forall>oc \<in> set ocs. num_finite (pnl oc)" and "outcomes_before now ocs"
  shows "\<exists>b d'. evaluate_consecutive_losses ctx (Some ocs) (Some now) d = Inr (b, d')
     \<and> (b \<longleftrightarrow> int (length (filter (in_window secs now)
            (takeWhile is_loss (rev (by_time ocs))))) < consecutive_loss_limit ctx)"
proof -
  have ob: "outcomes_before now (rev (by_time ocs))"
    using assms(6) by (rule outcomes_before_set) simp
  show ?thesis
    using loss_loop_count [OF ob assms(1), of secs d]
      takeWhile_window [OF ob by_time_sorted, of secs]
    by (simp add: consecutive_losses_enters_loop [OF assms])
qed

text \<open>
  C13. The consecutive-loss gate means what its documentation says. With a positive limit,
  finite results and orderable timestamps that are not in the future, it returns, and it
  passes precisely when the current losing streak (the losses after the latest win, in the order of
  time, however the outcomes were ordered in the input) has fewer than the limit inside the window.
\<close>

theorem consecutive_losses_spec:
  assumes "0 < consecutive_loss_limit ctx"
    and "\<not> num_lt (consecutive_loss_window_minutes ctx) (PyInt 0)"
    and "num_mul (consecutive_loss_window_minutes ctx) (PyFloat (lit 60 1)) = Inr secs"
    and "ocs \<noteq> []" and "\<forall>oc \<in> set ocs. num_finite (pnl oc)" and "outcomes_before now ocs"
  shows "\<exists>b d'. evaluate_consecutive_losses ctx (Some ocs) (Some now) d = Inr (b, d')
     \<and> (b \<longleftrightarrow> int (length (filter (in_window secs now)
            (takeWhile is_loss (rev (by_time ocs))))) < consecutive_loss_limit ctx)"
  using assms by (rule consecutive_losses_window)

theorem consecutive_losses_spec_witness:
  "let ctx = default_context\<lparr>consecutive_loss_limit := 2\<rparr>;
       loss = (\<lambda>t. \<lparr>timestamp = \<lparr>dt_wall = t, dt_tz = None\<rparr>, pnl = PyFloat (lit (-5) 1)\<rparr>);
       ocs = [loss 120000000, loss 60000000]; now = \<lparr>dt_wall = 180000000, dt_tz = None\<rparr>
   in \<exists>b d'. evaluate_consecutive_losses ctx (Some ocs) (Some now) blank_decision = Inr (b, d')
     \<and> (b \<longleftrightarrow> int (length (filter (in_window (PyFloat (lit 900 1)) now)
            (takeWhile is_loss (rev (by_time ocs))))) < consecutive_loss_limit ctx)"
  unfolding Let_def
  by (rule consecutive_losses_spec; (code_simp | simp add: outcomes_before_def comparable_def
        dt_aware_def tz_coherent_def dt_key_def dt_offset_def))

end
