(* ===== verification/Kelly.thy ===== *)
theory Kelly
  imports LossWindow
begin

text \<open>
  \<open>kelly.py\<close>: the fractional Kelly stake of a binary market, in the float arithmetic of the
  source, and its range, error and monotonicity laws.
\<close>

section \<open>kelly_fraction\<close>

definition num_sub :: "pynum \<Rightarrow> pynum \<Rightarrow> pynum res" where
  "num_sub a b = num_add a (num_neg b)"

text \<open>The two-argument \<open>min\<close> and \<open>max\<close>: the second argument only if it is strictly better.\<close>

definition py_min :: "pynum \<Rightarrow> pynum \<Rightarrow> pynum" where
  "py_min a b = (if num_lt b a then b else a)"

definition py_max :: "pynum \<Rightarrow> pynum \<Rightarrow> pynum" where
  "py_max a b = (if num_lt a b then b else a)"

abbreviation F0 :: pynum where "F0 \<equiv> PyFloat f64_zero"
abbreviation F1 :: pynum where "F1 \<equiv> PyFloat (lit 1 1)"

text \<open>One round of the validation loop: \<open>False\<close> stands for \<open>return 0.0\<close>.\<close>

definition check_probability :: "string \<Rightarrow> pynum \<Rightarrow> bool res" where
  "check_probability name v =
     rbind (any_res [math_isnan v, math_isinf v]) (\<lambda>bad.
       if bad then Inr False
       else if \<not> (num_lt F0 v \<and> num_lt v F1)
       then Inl (ValueError (name @ '' must be in (0, 1), got '' @ str_num v))
       else Inr True)"

definition kelly_fraction :: "pynum \<Rightarrow> pynum \<Rightarrow> pynum \<Rightarrow> pynum res" where
  "kelly_fraction p_win price conservative_fraction =
     (if \<not> (num_lt F0 conservative_fraction \<and> num_le conservative_fraction F1)
      then Inl (ValueError (''conservative_fraction must be in (0, 1], got ''
             @ str_num conservative_fraction))
      else rbind (check_probability ''p_win'' p_win) (\<lambda>ok1. if \<not> ok1 then Inr F0
      else rbind (check_probability ''price'' price) (\<lambda>ok2. if \<not> ok2 then Inr F0
      else rbind (num_sub F1 p_win) (\<lambda>p_loss.
           rbind (num_sub F1 price) (\<lambda>rest.
           rbind (num_div rest price) (\<lambda>b.
           rbind (num_mul p_win b) (\<lambda>gain.
           rbind (num_sub gain p_loss) (\<lambda>edge.
           if num_le edge F0 then Inr F0
           else rbind (num_div edge b) (\<lambda>f_star.
                rbind (num_mul f_star conservative_fraction) (\<lambda>fraction.
                Inr (py_max F0 (py_min F1 fraction))))))))))))"

section \<open>The arithmetic on valid floats\<close>

lemma lit_1_1: "lit 1 1 = Fin False (2 ^ 52) (-52)"
  by code_simp

lemma lit_one [simp]: "is_finite (lit 1 1)" "fval (lit 1 1) = 1" "lit 1 1 \<noteq> NaN"
  by (simp_all add: lit_1_1 power_int_def power_divide)

text \<open>A value between two finite ones is finite.\<close>

lemma finite_between:
  "fle x y \<Longrightarrow> fle y z \<Longrightarrow> is_finite x \<Longrightarrow> is_finite z \<Longrightarrow> is_finite y"
  by (cases x; cases y; cases z) auto

lemma f64_zero_facts [simp]: "is_finite f64_zero" "fval f64_zero = 0" "canonical f64_zero" "f64_zero \<noteq> NaN"
  by (simp_all add: f64_zero_def canonical_def)

text \<open>A probability is a float strictly between zero and one.\<close>

definition unit_float :: "f64 \<Rightarrow> bool" where
  "unit_float x \<longleftrightarrow> canonical x \<and> is_finite x \<and> 0 < fval x \<and> fval x < 1"

lemma num_lt_unit:
  assumes "num_ok v" and "num_lt F0 v" and "num_lt v F1"
  obtains x where "v = PyFloat x" "unit_float x"
proof (cases v)
  case (PyInt n)
  then have False using assms(2,3) by (simp add: num_lt_def flt_fval)
  then show thesis ..
next
  case (PyFloat x)
  then have "fle f64_zero x" "fle x (lit 1 1)"
    using assms(2,3) by (auto simp: num_lt_def intro: flt_imp_fle)
  then have fin: "is_finite x" by (rule finite_between) simp_all
  then show thesis
    using assms PyFloat that [of x] by (simp add: num_lt_def flt_fval unit_float_def)
qed

text \<open>The largest float below one.\<close>

lemma unit_float_gap:
  assumes "unit_float x"
  shows "fval x \<le> 1 - 2 powi (-53)"
proof -
  obtain s m e where x: "x = Fin s m e" using assms by (cases x) (auto simp: unit_float_def)
  have m: "0 < m" "\<not> s" "m < 2 ^ 53" and lt: "of_int m * 2 powi e < (1::real)"
    using assms by (auto simp: x unit_float_def canonical_def mult_less_0_iff zero_less_mult_iff
        split: if_splits)
  have e: "e < 0"
  proof (rule ccontr)
    assume "\<not> e < 0"
    then have "(1::real) \<le> 2 powi e" using two_powi_le_iff [of 0 e] by simp
    then show False using m(1) lt mult_mono [of 1 "real_of_int m" 1 "2 powi e"] by simp
  qed
  show ?thesis
  proof (cases "e \<le> -54")
    case True
    have "of_int m * 2 powi e \<le> (2::real) ^ 53 * 2 powi (-54)"
      using m True two_powi_le_iff [of e "-54"] by (intro mult_mono) (auto simp flip: of_int_le_iff)
    also have "\<dots> \<le> 1 - 2 powi (-53)" by (simp add: power_int_def power_divide)
    finally show ?thesis using m by (simp add: x)
  next
    case False
    have "real_of_int m < 2 powi (- e)"
      using lt by (simp add: power_int_minus field_simps)
    also have "2 powi (- e) = real_of_int (2 ^ nat (- e))" using e by (simp flip: two_powi_nat)
    finally have "m \<le> 2 ^ nat (- e) - 1" by linarith
    then have "real_of_int m \<le> real_of_int (2 ^ nat (- e) - 1)" by (simp only: of_int_le_iff)
    then have "real_of_int m \<le> 2 powi (- e) - 1" using e by (simp add: two_powi_nat)
    then have "of_int m * 2 powi e \<le> (2 powi (- e) - 1) * (2::real) powi e"
      by (intro mult_right_mono) simp_all
    also have "\<dots> = 1 - 2 powi e" by (simp add: left_diff_distrib power_int_minus)
    also have "\<dots> \<le> 1 - 2 powi (-53)" using False two_powi_le_iff [of "-53" e] by simp
    finally show ?thesis using m by (simp add: x)
  qed
qed

lemma canonical_two_powi:
  "\<exists>y. canonical y \<and> is_finite y \<and> fval y = 2 powi (-53)"
  by (rule exI [of _ "Fin False (2 ^ 52) (-105)"]) (simp add: canonical_def power_int_def power_divide)

lemma fsub_one:
  assumes "unit_float x"
  defines "r \<equiv> fsub (lit 1 1) x"
  shows "canonical r" and "is_finite r" and "2 powi (-53) \<le> fval r" and "fval r \<le> 1"
    and "approx r (1 - fval x)"
proof -
  have x: "canonical x" "is_finite x" "0 < fval x" using assms by (auto simp: unit_float_def)
  show can: "canonical r" using x by (simp add: r_def fsub_def)
  show app: "approx r (1 - fval x)"
    using fadd_approx [of "lit 1 1" "fneg x"] x by (simp add: r_def fsub_def)
  have le: "fle r (lit 1 1)" by (rule approx_le_float [OF app]) (use x in simp_all)
  obtain y where y: "canonical y" "is_finite y" "fval y = 2 powi (-53)"
    using canonical_two_powi by blast
  have ge: "fle y r"
    by (rule approx_ge_float [OF app y(1,2)]) (use y(3) unit_float_gap [OF assms(1)] in simp)
  show fin: "is_finite r" using ge le y(2) by (rule finite_between) simp
  show "2 powi (-53) \<le> fval r" using ge fin y by (simp add: fle_fval)
  show "fval r \<le> 1" using le fin by (simp add: fle_fval)
qed

lemma inverse_two_powi: "(1::real) / 2 powi (- k) = 2 powi k"
  by (simp add: power_int_minus divide_inverse)

lemma fval_binade: "2 powi (52 + k) = fval (Fin False (2 ^ 52) k)"
  by (simp add: two_powi_add)

lemma binade_sum: "(52::int) + 970 = 1022"
  by simp

lemma exponent_diff: "(-1::int) - (-1025) = 1024"
  by simp

lemma f64_limit_le: "f64_limit \<le> 2 powi 1024"
  by (simp add: f64_limit_def)

text \<open>The odds are never zero or negative; they are infinite only at a subnormal price.\<close>

lemma odds_facts:
  assumes "unit_float x"
  defines "b \<equiv> fdiv (fsub (lit 1 1) x) x"
  shows "canonical b" and "b \<noteq> NaN" and "is_finite b \<Longrightarrow> 0 < fval b" and "\<not> is_finite b \<Longrightarrow> b = Inf False"
    and "2 powi (-1022) \<le> fval x \<Longrightarrow> is_finite b"
proof -
  note r = fsub_one [OF assms(1)]
  have x: "canonical x" "is_finite x" "0 < fval x" "fval x < 1"
    using assms by (auto simp: unit_float_def)
  show "canonical b" using r x by (simp add: b_def)
  have app: "approx b (fval (fsub (lit 1 1) x) / fval x)"
    unfolding b_def using r x by (intro fdiv_approx) simp_all
  then show nan: "b \<noteq> NaN" by (rule approx_not_NaN)
  obtain y where y: "canonical y" "is_finite y" "fval y = 2 powi (-53)"
    using canonical_two_powi by blast
  have "fval (fsub (lit 1 1) x) \<le> fval (fsub (lit 1 1) x) / fval x"
    using r(3) x two_powi_pos [of "-53"] by (simp add: le_divide_eq mult_left_le)
  then have ge: "fle y b" using y r(3) by (intro approx_ge_float [OF app]) simp_all
  show "is_finite b \<Longrightarrow> 0 < fval b" using ge y two_powi_pos [of "-53"] by (simp add: fle_fval)
  show "\<not> is_finite b \<Longrightarrow> b = Inf False" using ge nan y(2) by (cases b; cases y) auto
  show "is_finite b" if "2 powi (-1022) \<le> fval x"
  proof -
    let ?M = "Fin False (2 ^ 52) 970"
    have "fval (fsub (lit 1 1) x) / fval x \<le> 1 / 2 powi (-1022)"
      using r x that by (intro frac_le) simp_all
    also have "\<dots> = 2 powi (52 + 970)" using inverse_two_powi [of 1022] by (simp only: binade_sum)
    also have "\<dots> = fval ?M" by (rule fval_binade)
    finally have "fle b ?M" by (intro approx_le_float [OF app]) (simp_all add: canonical_def)
    then show ?thesis using ge nan y(2) by (cases b; cases y) auto
  qed
qed

section \<open>The stake on valid inputs\<close>

lemma fraction_float:
  assumes "num_ok cf" and "num_lt F0 cf" and "num_le cf F1"
  obtains c where "to_float cf = Inr c" "canonical c" "is_finite c" "0 < fval c" "fval c \<le> 1"
    "num_value cf = fval c" "num_finite cf"
proof (cases cf)
  case (PyInt n)
  then have n: "n = 1" using assms(2,3) by (simp add: num_lt_def num_le_def flt_fval fle_fval)
  have one: "f64_of_int 1 = lit 1 1" by code_simp
  then have "to_float cf = Inr (lit 1 1)" by (simp add: PyInt n one lit_1_1)
  then show thesis using that [of "lit 1 1"] by (simp add: PyInt n num_finite_def)
next
  case (PyFloat c)
  then have fin: "is_finite c"
    using assms(2,3) finite_between [of f64_zero c "lit 1 1"]
    by (auto simp: num_lt_def num_le_def intro: flt_imp_fle)
  then show thesis
    using assms PyFloat that [of c] by (simp add: num_lt_def num_le_def flt_fval fle_fval)
qed

text \<open>The numbers the function computes on the way.\<close>

definition odds :: "f64 \<Rightarrow> f64" where
  "odds x = fdiv (fsub (lit 1 1) x) x"

definition kelly_edge :: "f64 \<Rightarrow> f64 \<Rightarrow> f64" where
  "kelly_edge u x = fsub (fmul u (odds x)) (fsub (lit 1 1) u)"

definition stake :: "f64 \<Rightarrow> f64 \<Rightarrow> f64 \<Rightarrow> pynum" where
  "stake u x c =
     (if fle (kelly_edge u x) f64_zero then F0
      else py_max F0 (py_min F1 (PyFloat (fmul (fdiv (kelly_edge u x) (odds x)) c))))"

lemma positive_not_feq_zero: "is_finite y \<Longrightarrow> 0 < fval y \<Longrightarrow> \<not> feq y f64_zero"
  by (simp add: feq_def fle_fval)

lemma odds_nonzero: "unit_float x \<Longrightarrow> \<not> feq (odds x) f64_zero"
  using odds_facts(3,4) [of x] positive_not_feq_zero [of "odds x"]
  by (cases "is_finite (odds x)") (auto simp: odds_def feq_def f64_zero_def)

lemma check_probability_unit: "unit_float x \<Longrightarrow> check_probability name (PyFloat x) = Inr True"
  by (auto simp: check_probability_def unit_float_def num_lt_def flt_fval)

lemma kelly_unit:
  assumes "unit_float u" and "unit_float x" and "num_lt F0 cf" and "num_le cf F1"
    and "to_float cf = Inr c"
  shows "kelly_fraction (PyFloat u) (PyFloat x) cf = Inr (stake u x c)"
proof -
  have x: "\<not> feq x f64_zero" using assms(2) positive_not_feq_zero by (simp add: unit_float_def)
  have mul: "num_mul (PyFloat a) cf = Inr (PyFloat (fmul a c))" for a
    using assms(5) by (cases cf) simp_all
  show ?thesis
    using assms(3,4) x odds_nonzero [OF assms(2)]
    by (simp add: kelly_fraction_def check_probability_unit assms(1,2) num_sub_def mul stake_def
        kelly_edge_def odds_def num_le_def fsub_def assms(5))
qed

text \<open>What the function does on arbitrary arguments.\<close>

lemma check_probability_cases [consumes 1]:
  assumes "num_ok v"
  obtains (overflow) e where "check_probability name v = Inl e" "is_overflow e"
    | (range) m where "check_probability name v = Inl (ValueError m)"
    | (nan) "check_probability name v = Inr False"
    | (unit) x where "check_probability name v = Inr True" "v = PyFloat x" "unit_float x"
proof -
  have unit: "\<exists>x. v = PyFloat x \<and> unit_float x" if "num_lt F0 v" "num_lt v F1"
    using num_lt_unit [OF assms that] by blast
  have inl: "math_isnan v = Inl e \<or> math_isinf v = Inl e \<Longrightarrow> is_overflow e" for e
    by (auto simp: math_isnan_def math_isinf_def rbind_eq_Inl dest: to_float_Inl)
  show thesis
  proof (cases "any_res [math_isnan v, math_isinf v]")
    case (Inl e)
    then have "is_overflow e" using inl any_res_Inl [OF Inl] by fastforce
    then show thesis using overflow [of e] Inl by (simp add: check_probability_def del: any_res.simps)
  next
    case (Inr bad)
    show thesis
    proof (cases "\<not> bad \<and> num_lt F0 v \<and> num_lt v F1")
      case True
      then have "check_probability name v = Inr True"
        using Inr by (simp add: check_probability_def del: any_res.simps)
      then show thesis using unit True that(4) by blast
    next
      case False
      then show thesis using Inr range nan
        by (cases bad) (auto simp: check_probability_def simp del: any_res.simps)
    qed
  qed
qed

lemma kelly_cases [consumes 3]:
  assumes "num_ok p" and "num_ok q" and "num_ok cf"
  obtains (error) e where "kelly_fraction p q cf = Inl e" "is_overflow e \<or> (\<exists>m. e = ValueError m)"
    | (nan) "kelly_fraction p q cf = Inr F0"
    | (unit) u x c where "p = PyFloat u" "unit_float u" "q = PyFloat x" "unit_float x"
        "to_float cf = Inr c" "num_lt F0 cf" "num_le cf F1"
        "kelly_fraction p q cf = Inr (stake u x c)"
proof (cases "num_lt F0 cf \<and> num_le cf F1")
  case False
  then show thesis using error by (auto simp: kelly_fraction_def)
next
  case True
  then obtain c where c: "to_float cf = Inr c" using fraction_float [OF assms(3)] by blast
  from assms(1) show thesis
  proof (cases rule: check_probability_cases [where name = "''p_win''"])
    case (unit u)
    note u = unit
    from assms(2) show thesis
    proof (cases rule: check_probability_cases [where name = "''price''"])
      case (unit x)
      then show thesis using u True c kelly_unit that(3) by blast
    qed (use True u in \<open>auto simp: kelly_fraction_def intro: error nan\<close>)
  qed (use True in \<open>auto simp: kelly_fraction_def intro: error nan\<close>)
qed

lemma clamp_unit: "num_le F0 (py_max F0 (py_min F1 a)) \<and> num_le (py_max F0 (py_min F1 a)) F1"
  by (auto simp: py_max_def py_min_def num_lt_def num_le_def fle_fval intro: flt_imp_fle)

text \<open>Sample probabilities.\<close>

lemma unit_samples:
  "unit_float (lit 1 2)" "unit_float (lit 3 5)" "fval (lit 1 2) = 1 / 2" "fval (lit 1 2) \<le> fval (lit 3 5)"
  "2 powi (-1022) \<le> fval (lit 1 2)" "num_ok F1" "num_lt F0 F1" "num_le F1 F1"
proof -
  have l: "lit 1 2 = Fin False (2 ^ 52) (-53)" "lit 3 5 = Fin False 5404319552844595 (-53)" by code_simp+
  show h: "fval (lit 1 2) = 1 / 2" by (simp add: l(1) power_int_def power_divide)
  show "unit_float (lit 1 2)" using h by (simp add: unit_float_def l(1) canonical_def)
  show "unit_float (lit 3 5)" by (simp add: unit_float_def l(2) canonical_def power_int_def power_divide)
  show "fval (lit 1 2) \<le> fval (lit 3 5)" unfolding h by (simp add: l(2) power_int_def power_divide)
  have "(2::real) powi (-1022) \<le> 2 powi (-1)" by (intro power_int_increasing) simp_all
  then show "2 powi (-1022) \<le> fval (lit 1 2)" unfolding h by (simp add: power_int_minus)
  show "num_ok F1" "num_lt F0 F1" "num_le F1 F1" by (simp_all add: num_lt_def num_le_def flt_fval fle_fval)
qed

text \<open>C27. The stake is a number between 0 and 1 on every input that is accepted, NaN and infinite
  probabilities included; the only other outcomes are a \<open>ValueError\<close> and the \<open>OverflowError\<close> of
  an integer too large for a float. No input divides by zero.\<close>

theorem kelly_range:
  assumes "num_ok p" and "num_ok q" and "num_ok cf"
  shows "case kelly_fraction p q cf of
      Inr r \<Rightarrow> num_le (PyInt 0) r \<and> num_le r (PyInt 1)
    | Inl e \<Rightarrow> is_overflow e \<or> (\<exists>m. e = ValueError m)"
proof -
  have unit: "num_le F0 r \<and> num_le r F1 \<Longrightarrow> num_le (PyInt 0) r \<and> num_le r (PyInt 1)" for r
  proof -
    have "num_le (PyInt 0) F0" "num_le F1 (PyInt 1)" by (simp_all add: num_le_def fle_fval)
    then show "num_le F0 r \<and> num_le r F1 \<Longrightarrow> num_le (PyInt 0) r \<and> num_le r (PyInt 1)"
      using num_le_trans by blast
  qed
  have zero: "num_le F0 F0 \<and> num_le F0 F1" by (simp add: num_le_def fle_fval)
  have stake: "num_le F0 (stake u x c) \<and> num_le (stake u x c) F1" for u x c
    using clamp_unit zero by (simp add: stake_def)
  show ?thesis
    using assms by (cases rule: kelly_cases) (simp_all add: unit stake zero)
qed

theorem kelly_range_witness:
  "case kelly_fraction (PyFloat NaN) (PyInt 3) F1 of
      Inr r \<Rightarrow> num_le (PyInt 0) r \<and> num_le r (PyInt 1)
    | Inl e \<Rightarrow> is_overflow e \<or> (\<exists>m. e = ValueError m)"
  by (rule kelly_range) (simp_all add: canonical_def [of NaN])

section \<open>The conservative fraction bounds the stake\<close>

lemma gain_facts:
  assumes "unit_float u" and "unit_float x" and "is_finite (odds x)"
  shows "canonical (fmul u (odds x))" and "is_finite (fmul u (odds x))"
    and "0 \<le> fval (fmul u (odds x))" and "fval (fmul u (odds x)) \<le> fval (odds x)"
proof -
  have o: "canonical (odds x)" "0 < fval (odds x)"
    using odds_facts(1,3) [OF assms(2)] assms(3) by (simp_all add: odds_def)
  have u: "canonical u" "is_finite u" "0 < fval u" "fval u < 1" using assms(1) by (auto simp: unit_float_def)
  show "canonical (fmul u (odds x))" by simp
  have app: "approx (fmul u (odds x)) (fval u * fval (odds x))"
    using u o assms(3) by (intro fmul_approx)
  have le: "fle (fmul u (odds x)) (odds x)"
    using u o assms(3) by (intro approx_le_float [OF app]) simp_all
  have ge: "fle f64_zero (fmul u (odds x))"
    using u o by (intro approx_ge_float [OF app]) simp_all
  show fin: "is_finite (fmul u (odds x))" using finite_between [OF ge le] assms(3) by simp
  show "0 \<le> fval (fmul u (odds x))" "fval (fmul u (odds x)) \<le> fval (odds x)"
    using ge le fin assms(3) by (simp_all add: fle_fval)
qed

lemma edge_facts:
  assumes "unit_float u" and "unit_float x" and "is_finite (odds x)"
  shows "canonical (kelly_edge u x)" and "fle (kelly_edge u x) (odds x)"
    and "is_finite (kelly_edge u x)"
proof -
  note r = fsub_one [OF assms(1)] and g = gain_facts [OF assms]
  have o: "canonical (odds x)" using odds_facts(1) [OF assms(2)] by (simp add: odds_def)
  have app: "approx (kelly_edge u x) (fval (fmul u (odds x)) - fval (fsub (lit 1 1) u))"
    using fadd_approx [of "fmul u (odds x)" "fneg (fsub (lit 1 1) u)"] g r
    by (simp add: kelly_edge_def fsub_def [of "fmul u (odds x)"])
  show "canonical (kelly_edge u x)"
    using g r by (simp add: kelly_edge_def fsub_def [of "fmul u (odds x)"])
  show le: "fle (kelly_edge u x) (odds x)"
    using g r o assms(3) two_powi_pos [of "-53"] by (intro approx_le_float [OF app]) simp_all
  have ge: "fle (fneg (lit 1 1)) (kelly_edge u x)"
    using g r by (intro approx_ge_float [OF app]) simp_all
  show "is_finite (kelly_edge u x)"
    by (rule finite_between [OF ge le]) (simp_all add: assms(3))
qed

lemma quotient_facts:
  assumes "unit_float u" and "unit_float x" and "is_finite (odds x)"
    and "\<not> fle (kelly_edge u x) f64_zero"
  defines "q \<equiv> fdiv (kelly_edge u x) (odds x)"
  shows "canonical q" and "is_finite q" and "0 \<le> fval q" and "fval q \<le> 1"
proof -
  note e = edge_facts [OF assms(1-3)]
  have o: "canonical (odds x)" "0 < fval (odds x)"
    using odds_facts(1,3) [OF assms(2)] assms(3) by (simp_all add: odds_def)
  have pos: "0 < fval (kelly_edge u x)" using assms(4) e(3) by (simp add: fle_fval)
  show "canonical q" using e o by (simp add: q_def)
  have app: "approx q (fval (kelly_edge u x) / fval (odds x))"
    unfolding q_def using e o assms(3) by (intro fdiv_approx) simp_all
  have le: "fle q (lit 1 1)"
    using e o assms(3) by (intro approx_le_float [OF app]) (simp_all add: fle_fval)
  have ge: "fle f64_zero q" using pos o by (intro approx_ge_float [OF app]) simp_all
  show fin: "is_finite q" using ge le by (rule finite_between) simp_all
  show "0 \<le> fval q" "fval q \<le> 1" using ge le fin by (simp_all add: fle_fval)
qed

lemma stake_fraction:
  assumes "unit_float u" and "unit_float x" and "is_finite (odds x)"
    and "canonical c" and "is_finite c" and "0 < fval c" and "\<not> fle (kelly_edge u x) f64_zero"
  defines "f \<equiv> fmul (fdiv (kelly_edge u x) (odds x)) c"
  shows "is_finite f" and "0 \<le> fval f" and "fval f \<le> fval c"
proof -
  note q = quotient_facts [OF assms(1-3,7)]
  have app: "approx f (fval (fdiv (kelly_edge u x) (odds x)) * fval c)"
    unfolding f_def using q assms(4,5) by (intro fmul_approx)
  have le: "fle f c"
    using q assms(4-6) by (intro approx_le_float [OF app]) (simp_all add: mult_le_cancel_right2)
  have ge: "fle f64_zero f" using q assms(6) by (intro approx_ge_float [OF app]) simp_all
  show fin: "is_finite f" using ge le by (rule finite_between) (simp_all add: assms(5))
  show "0 \<le> fval f" "fval f \<le> fval c" using ge le fin assms(5) by (simp_all add: fle_fval)
qed

lemma stake_le_fraction:
  assumes "unit_float u" and "unit_float x" and "is_finite (odds x)" and "num_ok cf"
    and "num_lt F0 cf" and "num_le cf F1" and "to_float cf = Inr c"
  shows "num_le (stake u x c) cf"
proof -
  obtain c' where "to_float cf = Inr c'" "canonical c'" "is_finite c'" "0 < fval c'" "fval c' \<le> 1"
    "num_value cf = fval c'" "num_finite cf"
    using fraction_float [OF assms(4-6)] by blast
  then have c: "canonical c" "is_finite c" "0 < fval c" "fval c \<le> 1"
    "num_value cf = fval c" "num_finite cf" using assms(7) by auto
  have le: "num_le (PyFloat y) cf" if "is_finite y" "fval y \<le> fval c" for y
    using that c num_le_value [of "PyFloat y" cf] by simp
  show ?thesis
    using stake_fraction [OF assms(1-3) c(1-3)] c le
    by (auto simp: stake_def py_max_def py_min_def num_lt_def flt_fval)
qed

text \<open>C25. At any price that is not subnormal the stake never exceeds the conservative fraction:
  rounding included, a fractional Kelly bet is at most that fraction of the bankroll.\<close>

theorem kelly_at_most_fraction:
  assumes "num_ok p" and "num_ok q" and "num_ok cf"
    and "\<forall>x. q = PyFloat x \<and> unit_float x \<longrightarrow> 2 powi (-1022) \<le> fval x"
    and "kelly_fraction p q cf = Inr r" and "num_lt F0 cf"
  shows "num_le r cf"
  using assms(1-3)
proof (cases rule: kelly_cases)
  case (unit u x c)
  have "is_finite (odds x)"
    unfolding odds_def using odds_facts(5) [OF unit(4)] assms(4) unit(3,4) by blast
  then have "num_le (stake u x c) cf"
    using unit assms(3) by (intro stake_le_fraction) simp_all
  then show ?thesis using unit(8) assms(5) by simp
next
  case nan
  then show ?thesis using assms(5,6) num_lt_imp_le by simp
qed (use assms(5) in simp)

theorem kelly_at_most_fraction_witness:
  "\<exists>r. kelly_fraction (PyFloat (lit 3 5)) (PyFloat (lit 1 2)) F1 = Inr r \<and> num_le r F1"
proof -
  have ok: "num_ok (PyFloat (lit 3 5))" "num_ok (PyFloat (lit 1 2))"
    using unit_samples(1,2) by (simp_all add: unit_float_def)
  have price: "\<forall>x. PyFloat (lit 1 2) = PyFloat x \<and> unit_float x \<longrightarrow> 2 powi (-1022) \<le> fval x"
    using unit_samples(5) by simp
  have "to_float F1 = Inr (lit 1 1)" by simp
  from kelly_unit [OF unit_samples(2,1,7,8) this]
  show ?thesis using kelly_at_most_fraction [OF ok unit_samples(6) price _ unit_samples(7)] by blast
qed

lemma mag_ge_limit:
  assumes "2 powi 1024 \<le> v"
  shows "2 powi 1024 \<le> mag v"
proof -
  have pos: "0 < v" using assms two_powi_pos [of 1024] by linarith
  have "(2::real) powi 1024 < 2 powi (ilog2 v + 1)"
    using ilog2_bounds(2) [OF pos] assms by (rule order_le_less_trans [rotated])
  then have g: "1024 \<le> ilog2 v" unfolding two_powi_less_iff by simp
  then have "-1074 < grid v" and eq: "grid v + 52 = ilog2 v" by (simp_all add: grid_def)
  then have "2 powi ilog2 v \<le> mag v" using mag_ge_binade [OF pos] by simp
  moreover have "(2::real) powi 1024 \<le> 2 powi ilog2 v" using g unfolding two_powi_le_iff .
  ultimately show ?thesis by (rule order_trans [rotated])
qed

text \<open>The odds overflow at such prices.\<close>

lemma odds_overflow:
  assumes "unit_float x" and "fval x \<le> 2 powi (-1025)"
  shows "odds x = Inf False"
proof (rule ccontr)
  assume "odds x \<noteq> Inf False"
  then have fin: "is_finite (odds x)" using odds_facts(4) [OF assms(1)] unfolding odds_def by blast
  have x: "canonical x" "is_finite x" "0 < fval x" using assms(1) by (auto simp: unit_float_def)
  note r = fsub_one [OF assms(1)]
  have half: "canonical (lit 1 2)" "is_finite (lit 1 2)" "fval (lit 1 2) = 1 / 2"
  proof -
    have "lit 1 2 = Fin False (2 ^ 52) (-53)" by code_simp
    then show "canonical (lit 1 2)" "is_finite (lit 1 2)" "fval (lit 1 2) = 1 / 2"
      by (simp_all add: canonical_def power_int_def power_divide)
  qed
  have "(2::real) powi (-1025) \<le> 2 powi (-1)" by (subst two_powi_le_iff) simp
  then have "fval x \<le> 2 powi (-1)" using assms(2) by (rule order_trans [rotated])
  then have "fval x \<le> 1 / 2" by (simp add: power_int_minus)
  then have "fle (lit 1 2) (fsub (lit 1 1) x)"
    using half by (intro approx_ge_float [OF r(5)]) simp_all
  then have ge: "1 / 2 \<le> fval (fsub (lit 1 1) x)" using half r by (simp add: fle_fval)
  have "approx (odds x) (fval (fsub (lit 1 1) x) / fval x)"
    unfolding odds_def using r x by (intro fdiv_approx) simp_all
  then have "mag \<bar>fval (fsub (lit 1 1) x) / fval x\<bar> < f64_limit"
    using fin by (cases "odds x") (auto simp: approx_def)
  moreover have "\<bar>fval (fsub (lit 1 1) x) / fval x\<bar> = fval (fsub (lit 1 1) x) / fval x"
    using ge x by simp
  ultimately have lt: "mag (fval (fsub (lit 1 1) x) / fval x) < f64_limit" by (simp only:)
  have "(2::real) powi 1024 = 2 powi (-1) / 2 powi (-1025)"
    using two_powi_diff [of "-1" "-1025"] by (simp only: exponent_diff)
  also have "\<dots> \<le> 2 powi (-1) / fval x"
    using assms(2) x by (intro divide_left_mono) simp_all
  also have "\<dots> \<le> fval (fsub (lit 1 1) x) / fval x"
    using ge x by (intro divide_right_mono) (simp_all add: power_int_minus)
  finally have "2 powi 1024 \<le> mag (fval (fsub (lit 1 1) x) / fval x)" by (rule mag_ge_limit)
  then show False using lt f64_limit_le by linarith
qed

text \<open>At a positive price of at most \<open>2^-1025\<close> every accepted bet comes out as the whole
  bankroll, whatever the conservative fraction: the odds overflow to infinity, the quotient
  of two infinities is NaN, and the clamp turns NaN into 1.\<close>

lemma kelly_tiny_price_full_stake:
  assumes "num_ok p" and "num_lt F0 p" and "num_lt p F1" and "num_ok cf" and "num_lt F0 cf"
    and "num_le cf F1" and "unit_float x" and "fval x \<le> 2 powi (-1025)"
  shows "kelly_fraction p (PyFloat x) cf = Inr F1"
proof -
  obtain u where u: "p = PyFloat u" "unit_float u" using num_lt_unit assms(1-3) by blast
  obtain c where c: "to_float cf = Inr c" using fraction_float [OF assms(4-6)] by blast
  have o: "odds x = Inf False" by (rule odds_overflow) fact+
  have edge: "kelly_edge u x = Inf False"
    using u(2) fsub_one(2) [OF u(2)]
    by (cases u; cases "fsub (lit 1 1) u")
      (auto simp: kelly_edge_def o unit_float_def canonical_def fsub_def [of "Inf False"]
        zero_less_mult_iff split: if_splits)
  have "stake u x c = F1"
    by (simp add: stake_def edge o py_max_def py_min_def f64_zero_def num_lt_def flt_fval lit_1_1)
  then show ?thesis using kelly_unit [OF u(2) assms(7) assms(5,6) c] u(1) by simp
qed

section \<open>Monotonicity\<close>

lemma clamp_mono:
  assumes "is_finite a" and "is_finite b" and "fle a b"
  shows "num_le (py_max F0 (py_min F1 (PyFloat a))) (py_max F0 (py_min F1 (PyFloat b)))"
  using assms by (auto simp: py_max_def py_min_def num_lt_def num_le_def fle_fval flt_fval)

lemma edge_mono:
  assumes "unit_float u" and "unit_float v" and "unit_float x" and "is_finite (odds x)"
    and "fval u \<le> fval v"
  shows "fle (kelly_edge u x) (kelly_edge v x)"
proof -
  note gu = gain_facts [OF assms(1,3,4)] and gv = gain_facts [OF assms(2,3,4)]
  note ru = fsub_one [OF assms(1)] and rv = fsub_one [OF assms(2)]
  have uv: "canonical u" "canonical v" "is_finite u" "is_finite v"
    using assms(1,2) by (auto simp: unit_float_def)
  have "fle (fmul u (odds x)) (fmul v (odds x))"
    using odds_facts(1,3) [OF assms(3)] assms(4,5) uv
    by (intro fmul_mono_left) (simp_all add: odds_def fle_fval less_imp_le)
  then have g: "fval (fmul u (odds x)) \<le> fval (fmul v (odds x))" using gu gv by (simp add: fle_fval)
  have "fle (fsub (lit 1 1) v) (fsub (lit 1 1) u)"
    by (rule approx_mono [OF rv(5) ru(5)]) (use assms(5) in simp)
  then have r: "fval (fsub (lit 1 1) v) \<le> fval (fsub (lit 1 1) u)" using ru rv by (simp add: fle_fval)
  show ?thesis
    unfolding kelly_edge_def fsub_def [of "fmul _ _"]
    by (rule approx_mono [OF fadd_approx fadd_approx]) (use gu gv ru rv g r in simp_all)
qed

text \<open>C26. More confidence never means a smaller bet: at a fixed price that is not subnormal and a
  fixed fraction the stake is monotone in the estimated probability, through every rounding.\<close>

theorem kelly_monotone:
  assumes "unit_float u" and "unit_float v" and "fval u \<le> fval v"
    and "unit_float x" and "2 powi (-1022) \<le> fval x"
    and "num_ok cf" and "num_lt F0 cf" and "num_le cf F1"
  shows "\<exists>r r'. kelly_fraction (PyFloat u) (PyFloat x) cf = Inr r
    \<and> kelly_fraction (PyFloat v) (PyFloat x) cf = Inr r' \<and> num_le r r'"
proof -
  obtain c where c: "to_float cf = Inr c" "canonical c" "is_finite c" "0 < fval c"
    using fraction_float [OF assms(6-8)] by blast
  have o: "canonical (odds x)" "is_finite (odds x)" "0 < fval (odds x)"
    unfolding odds_def using odds_facts(1,3,5) [OF assms(4)] assms(5) by blast+
  note eu = edge_facts [OF assms(1,4) o(2)] and ev = edge_facts [OF assms(2,4) o(2)]
  have mono: "fle (kelly_edge u x) (kelly_edge v x)" using edge_mono assms(1-4) o(2) by blast
  have "num_le (stake u x c) (stake v x c)"
  proof (cases "fle (kelly_edge u x) f64_zero")
    case True
    have "num_le F0 (stake v x c)" using clamp_unit by (simp add: stake_def num_le_def fle_fval)
    then show ?thesis using True by (simp add: stake_def [of u])
  next
    case False
    then have v: "\<not> fle (kelly_edge v x) f64_zero" using mono fle_trans by blast
    note su = stake_fraction [OF assms(1,4) o(2) c(2-4) False]
      and sv = stake_fraction [OF assms(2,4) o(2) c(2-4) v]
    have "fle (fdiv (kelly_edge u x) (odds x)) (fdiv (kelly_edge v x) (odds x))"
      using eu ev o mono by (intro fdiv_mono_left) simp_all
    then have "fle (fmul (fdiv (kelly_edge u x) (odds x)) c) (fmul (fdiv (kelly_edge v x) (odds x)) c)"
      using quotient_facts [OF assms(1,4) o(2) False] quotient_facts [OF assms(2,4) o(2) v] c
      by (intro fmul_mono_left) simp_all
    then show ?thesis using False v su sv by (simp add: stake_def clamp_mono)
  qed
  then show ?thesis using kelly_unit assms c(1) by blast
qed

theorem kelly_monotone_witness:
  "\<exists>r r'. kelly_fraction (PyFloat (lit 1 2)) (PyFloat (lit 1 2)) F1 = Inr r
    \<and> kelly_fraction (PyFloat (lit 3 5)) (PyFloat (lit 1 2)) F1 = Inr r' \<and> num_le r r'"
  by (rule kelly_monotone) (fact unit_samples)+

end
