(* ===== verification/ConfigLoader.thy ===== *)
theory ConfigLoader
  imports Kelly
begin

text \<open>
  \<open>config.py\<close>: validation of the desk-controls file. Reading the file and parsing the YAML
  are parameters (whether the path exists, and what \<open>yaml.safe_load\<close> made of its text); the
  path is the resolved one, as text. A load returns the parameters, in the order they were
  added, and the unknown top-level keys that were warned about.
\<close>

section \<open>Truth of a Python value\<close>

fun truthy :: "pyval \<Rightarrow> bool" where
  "truthy VNone = False"
| "truthy (VBool b) = b"
| "truthy (VInt n) = (n \<noteq> 0)"
| "truthy (VFloat x) = (\<not> feq x f64_zero)"
| "truthy (VStr s) = (s \<noteq> [])"
| "truthy (VList vs) = (vs \<noteq> [])"
| "truthy (VTuple vs) = (vs \<noteq> [])"
| "truthy (VDict kvs) = (kvs \<noteq> [])"
| "truthy _ = True"

section \<open>The loader\<close>

definition known_top_level_keys :: "string list" where
  "known_top_level_keys =
     [''drawdown'', ''concentration'', ''expected_value'', ''consecutive_losses'', ''kelly'']"

fun require_number :: "pyval \<Rightarrow> string \<Rightarrow> string \<Rightarrow> f64 res" where
  "require_number (VInt n) path yaml_key = to_float (PyInt n)"
| "require_number (VFloat x) path yaml_key = to_float (PyFloat x)"
| "require_number v path yaml_key =
     Inl (TypeError (yaml_key @ '' must be a number, got '' @ type_name v
       @ '' (config: '' @ path @ '')''))"

text \<open>\<open>_section\<close>: an absent or falsy section is empty.\<close>

definition section_of ::
    "(pyval \<times> pyval) list \<Rightarrow> string \<Rightarrow> string \<Rightarrow> (pyval \<times> pyval) list res" where
  "section_of data path name =
     (case map_of data (VStr name) of
        None \<Rightarrow> Inr []
      | Some v \<Rightarrow>
          if \<not> truthy v then Inr []
          else (case v of
                  VDict kvs \<Rightarrow> Inr kvs
                | _ \<Rightarrow> Inl (TypeError (name @ '' must be a mapping (config: '' @ path @ '')''))))"

type_synonym params = "(string \<times> pynum) list"

definition range_error :: "string \<Rightarrow> string \<Rightarrow> string \<Rightarrow> string \<Rightarrow> exn" where
  "range_error yaml_key what got path =
     ValueError (yaml_key @ '' must be '' @ what @ '', got '' @ got @ '' (config: '' @ path @ '')'')"

text \<open>One optional number of a section: \<open>bad\<close> is the rejected range, \<open>conv\<close> the conversion.\<close>

definition number_field ::
    "(pyval \<times> pyval) list \<Rightarrow> string \<Rightarrow> string \<Rightarrow> string \<Rightarrow> (f64 \<Rightarrow> bool) \<Rightarrow> string
      \<Rightarrow> string \<Rightarrow> (f64 \<Rightarrow> pynum res) \<Rightarrow> params res" where
  "number_field sect path yaml_section key bad what out conv =
     (case map_of sect (VStr key) of
        None \<Rightarrow> Inr []
      | Some v \<Rightarrow>
          (let yaml_key = yaml_section @ ''.'' @ key in
           rbind (require_number v path yaml_key) (\<lambda>x.
           rguard (bad x) (range_error yaml_key what (repr_f64 x) path)
             (rbind (conv x) (\<lambda>y. Inr [(out, y)])))))"

definition not_in_unit :: "f64 \<Rightarrow> bool" where
  "not_in_unit x \<longleftrightarrow> \<not> (flt f64_zero x \<and> fle x (lit 1 1))"

definition not_above_zero :: "f64 \<Rightarrow> bool" where
  "not_above_zero x \<longleftrightarrow> fle x f64_zero"

definition loss_limit_field :: "(pyval \<times> pyval) list \<Rightarrow> string \<Rightarrow> params res" where
  "loss_limit_field sect path =
     (case map_of sect (VStr ''max_consecutive_losses'') of
        None \<Rightarrow> Inr []
      | Some (VInt raw) \<Rightarrow>
          rguard (raw < 0)
            (range_error ''consecutive_losses.max_consecutive_losses'' ''>= 0'' (str_int raw) path)
            (Inr [(''consecutive_loss_limit'', PyInt raw)])
      | Some v \<Rightarrow> Inl (TypeError (''consecutive_losses.max_consecutive_losses must be an int, got ''
             @ type_name v @ '' (config: '' @ path @ '')'')))"

definition load_fields :: "(pyval \<times> pyval) list \<Rightarrow> string \<Rightarrow> params res" where
  "load_fields data path =
     rbind (section_of data path ''drawdown'') (\<lambda>drawdown.
     rbind (number_field drawdown path ''drawdown'' ''max_daily_drawdown_pct''
              not_in_unit ''in (0, 1]'' ''max_daily_drawdown_pct'' (\<lambda>x. Inr (PyFloat x))) (\<lambda>r1.
     rbind (section_of data path ''concentration'') (\<lambda>concentration.
     rbind (number_field concentration path ''concentration'' ''max_correlated_exposure''
              not_above_zero ''> 0'' ''max_correlated_exposure'' (\<lambda>x. Inr (PyFloat x))) (\<lambda>r2.
     rbind (number_field concentration path ''concentration'' ''max_cluster_usd''
              not_above_zero ''> 0'' ''max_cluster_usd'' (\<lambda>x. Inr (PyFloat x))) (\<lambda>r3.
     rbind (section_of data path ''expected_value'') (\<lambda>expected_value.
     rbind (number_field expected_value path ''expected_value'' ''min_expected_value''
              (\<lambda>x. False) [] ''min_expected_value'' (\<lambda>x. Inr (PyFloat x))) (\<lambda>r4.
     rbind (section_of data path ''consecutive_losses'') (\<lambda>consecutive_losses.
     rbind (loss_limit_field consecutive_losses path) (\<lambda>r5.
     rbind (number_field consecutive_losses path ''consecutive_losses'' ''time_window_seconds''
              not_above_zero ''> 0'' ''consecutive_loss_window_minutes''
              (\<lambda>x. num_div (PyFloat x) (PyFloat (lit 60 1)))) (\<lambda>r6.
     rbind (section_of data path ''kelly'') (\<lambda>kelly.
     rbind (number_field kelly path ''kelly'' ''conservative_fraction''
              not_in_unit ''in (0, 1]'' ''kelly_conservative_fraction'' (\<lambda>x. Inr (PyFloat x))) (\<lambda>r7.
       Inr (r1 @ r2 @ r3 @ r4 @ r5 @ r6 @ r7)))))))))))))"

definition load_risk_config ::
    "bool \<Rightarrow> (string + pyval) \<Rightarrow> string \<Rightarrow> params res \<times> pyval list" where
  "load_risk_config exists parsed path =
     (if \<not> exists then (Inl (FileNotFoundError (''risk config not found at '' @ path)), [])
      else case parsed of
        Inl exc \<Rightarrow> (Inl (YAMLError (''invalid YAML in risk config at '' @ path @ '': '' @ exc)), [])
      | Inr data \<Rightarrow>
          (case (if data = VNone then VDict [] else data) of
             VDict kvs \<Rightarrow>
               (load_fields kvs path,
                filter (\<lambda>k. k \<notin> VStr ` set known_top_level_keys) (map fst kvs))
           | _ \<Rightarrow> (Inl (TypeError (''risk config at '' @ path
                  @ '' must be a YAML mapping at the top level'')), [])))"

text \<open>The whole call: the path or the default one, made absolute (\<open>resolve\<close>: the home directory and the
  file system), and what is found there.\<close>

definition DEFAULT_PATH :: string where
  "DEFAULT_PATH = ''~/.verdict/risk_config.yaml''"

definition load_config_file ::
    "(string \<Rightarrow> string) \<Rightarrow> (string \<Rightarrow> bool) \<Rightarrow> (string \<Rightarrow> string + pyval) \<Rightarrow> string option
      \<Rightarrow> params res \<times> pyval list" where
  "load_config_file resolve exists parsed path =
     (let resolved = resolve (case path of Some p \<Rightarrow> p | None \<Rightarrow> DEFAULT_PATH)
      in load_risk_config (exists resolved) (parsed resolved) resolved)"

section \<open>What a loaded configuration guarantees\<close>

text \<open>The range each parameter is checked against.\<close>

definition param_ok :: "string \<times> pynum \<Rightarrow> bool" where
  "param_ok kv \<longleftrightarrow>
     (case kv of (k, v) \<Rightarrow>
        k \<in> {''max_daily_drawdown_pct'', ''kelly_conservative_fraction''}
          \<and> (\<exists>x. v = PyFloat x \<and> is_finite x \<and> 0 < fval x \<and> fval x \<le> 1)
      \<or> k \<in> {''max_correlated_exposure'', ''max_cluster_usd'', ''consecutive_loss_window_minutes''}
          \<and> (\<exists>x. v = PyFloat x \<and> \<not> flt x f64_zero)
      \<or> k = ''min_expected_value'' \<and> (\<exists>x. v = PyFloat x)
      \<or> k = ''consecutive_loss_limit'' \<and> (\<exists>n. v = PyInt n \<and> 0 \<le> n))"

lemma not_in_unit_iff: "\<not> not_in_unit x \<longleftrightarrow> is_finite x \<and> 0 < fval x \<and> fval x \<le> 1"
proof (cases "is_finite x")
  case True
  then show ?thesis by (simp add: not_in_unit_def flt_fval fle_fval)
next
  case False
  then have "\<not> (fle f64_zero x \<and> fle x (lit 1 1))"
    using finite_between [of f64_zero x "lit 1 1"] by auto
  then show ?thesis using False flt_imp_fle by (auto simp: not_in_unit_def)
qed

lemma number_field_ok:
  assumes "number_field sect path ys key bad what out conv = Inr r"
    and "\<And>x y. \<not> bad x \<Longrightarrow> conv x = Inr y \<Longrightarrow> param_ok (out, y)"
  shows "\<forall>kv \<in> set r. param_ok kv"
  using assms by (auto simp: number_field_def Let_def res_eq_iff split: option.splits)

lemma loss_limit_field_ok: "loss_limit_field sect path = Inr r \<Longrightarrow> \<forall>kv \<in> set r. param_ok kv"
  by (auto simp: loss_limit_field_def param_ok_def rguard_eq_Inr split: option.splits pyval.splits)

lemma round_f64_not_negative:
  assumes "0 < q"
  shows "\<not> flt (round_f64 False p q e) f64_zero"
proof (cases "p \<le> 0")
  case True
  then show ?thesis by (simp add: round_f64_def f64_zero_def)
next
  case False
  then have app: "approx (round_f64 False p q e) (of_int (sgn_int False p) / of_int q * 2 powi e)"
    using assms by (intro round_f64_approx) simp_all
  then have "fle f64_zero (round_f64 False p q e)"
    using False assms by (intro approx_ge_float [OF app]) simp_all
  then show ?thesis using fle_flt_trans flt_irrefl by blast
qed

lemma not_above_zero_minutes:
  assumes "\<not> not_above_zero x"
  shows "\<not> flt (fdiv x (lit 60 1)) f64_zero"
proof -
  have sixty: "lit 60 1 = Fin False (15 * 2 ^ 49) (-47)" by code_simp
  show ?thesis
  proof (cases x)
    case (Fin s m e)
    then have pos: "0 < fval x" using assms by (simp add: not_above_zero_def fle_fval)
    show ?thesis
    proof (cases s)
      case True
      then have "m \<le> 0" using pos Fin by (simp add: mult_less_0_iff)
      then show ?thesis using Fin True by (simp add: sixty round_f64_def f64_zero_def flt_fval)
    next
      case False
      have "fdiv x (lit 60 1) = round_f64 False m (15 * 2 ^ 49) (e - (-47))"
        using Fin False by (simp only: sixty fdiv.simps) simp
      then show ?thesis using round_f64_not_negative [of "15 * 2 ^ 49" m "e - (-47)"] by simp
    qed
  qed (use assms in \<open>simp_all add: not_above_zero_def sixty f64_zero_def\<close>)
qed

lemma param_ok_simps:
  "param_ok (''max_daily_drawdown_pct'', PyFloat x) \<longleftrightarrow> is_finite x \<and> 0 < fval x \<and> fval x \<le> 1"
  "param_ok (''kelly_conservative_fraction'', PyFloat x) \<longleftrightarrow> is_finite x \<and> 0 < fval x \<and> fval x \<le> 1"
  "param_ok (''max_correlated_exposure'', PyFloat x) \<longleftrightarrow> \<not> flt x f64_zero"
  "param_ok (''max_cluster_usd'', PyFloat x) \<longleftrightarrow> \<not> flt x f64_zero"
  "param_ok (''consecutive_loss_window_minutes'', PyFloat x) \<longleftrightarrow> \<not> flt x f64_zero"
  "param_ok (''min_expected_value'', PyFloat x)"
  "param_ok (''consecutive_loss_limit'', PyInt n) \<longleftrightarrow> 0 \<le> n"
  by (simp_all add: param_ok_def)

lemma not_above_zero_not_negative: "\<not> not_above_zero x \<Longrightarrow> \<not> flt x f64_zero"
  by (auto simp: not_above_zero_def dest: flt_imp_fle)

lemma load_fields_ok:
  assumes "load_fields data path = Inr r"
  shows "\<forall>kv \<in> set r. param_ok kv"
proof -
  from assms obtain r1 r2 r3 r4 r5 r6 r7 s1 s2 s3 s4 s5 where r: "r = r1 @ r2 @ r3 @ r4 @ r5 @ r6 @ r7"
    "number_field s1 path ''drawdown'' ''max_daily_drawdown_pct''
       not_in_unit ''in (0, 1]'' ''max_daily_drawdown_pct'' (\<lambda>x. Inr (PyFloat x)) = Inr r1"
    "number_field s2 path ''concentration'' ''max_correlated_exposure''
       not_above_zero ''> 0'' ''max_correlated_exposure'' (\<lambda>x. Inr (PyFloat x)) = Inr r2"
    "number_field s2 path ''concentration'' ''max_cluster_usd''
       not_above_zero ''> 0'' ''max_cluster_usd'' (\<lambda>x. Inr (PyFloat x)) = Inr r3"
    "number_field s3 path ''expected_value'' ''min_expected_value''
       (\<lambda>x. False) [] ''min_expected_value'' (\<lambda>x. Inr (PyFloat x)) = Inr r4"
    "loss_limit_field s4 path = Inr r5"
    "number_field s4 path ''consecutive_losses'' ''time_window_seconds''
       not_above_zero ''> 0'' ''consecutive_loss_window_minutes''
       (\<lambda>x. num_div (PyFloat x) (PyFloat (lit 60 1))) = Inr r6"
    "number_field s5 path ''kelly'' ''conservative_fraction''
       not_in_unit ''in (0, 1]'' ''kelly_conservative_fraction'' (\<lambda>x. Inr (PyFloat x)) = Inr r7"
    unfolding load_fields_def rbind_eq_Inr by blast
  have fl: "Inr (PyFloat x) = Inr y \<Longrightarrow> y = PyFloat x" for x and y :: pynum by simp
  have "\<forall>kv \<in> set r1. param_ok kv"
    by (rule number_field_ok [OF r(2)])
      (drule fl, simp only: param_ok_simps not_in_unit_iff simp_thms)
  moreover have "\<forall>kv \<in> set r2. param_ok kv"
    by (rule number_field_ok [OF r(3)])
      (drule fl, simp only: param_ok_simps not_above_zero_not_negative simp_thms)
  moreover have "\<forall>kv \<in> set r3. param_ok kv"
    by (rule number_field_ok [OF r(4)])
      (drule fl, simp only: param_ok_simps not_above_zero_not_negative simp_thms)
  moreover have "\<forall>kv \<in> set r4. param_ok kv"
    by (rule number_field_ok [OF r(5)]) (drule fl, simp only: param_ok_simps)
  moreover have "\<forall>kv \<in> set r5. param_ok kv" by (rule loss_limit_field_ok [OF r(6)])
  moreover have "\<forall>kv \<in> set r6. param_ok kv"
  proof (rule number_field_ok [OF r(7)])
    fix x y
    assume "\<not> not_above_zero x" "num_div (PyFloat x) (PyFloat (lit 60 1)) = Inr y"
    then have "y = PyFloat (fdiv x (lit 60 1))" "\<not> flt (fdiv x (lit 60 1)) f64_zero"
      using not_above_zero_minutes [of x] by (auto split: if_splits)
    then show "param_ok (''consecutive_loss_window_minutes'', y)" by (simp only: param_ok_simps simp_thms)
  qed
  moreover have "\<forall>kv \<in> set r7. param_ok kv"
    by (rule number_field_ok [OF r(8)])
      (drule fl, simp only: param_ok_simps not_in_unit_iff simp_thms)
  ultimately show ?thesis using r(1) by auto
qed

lemma config_params_ok:
  "fst (load_risk_config exists parsed path) = Inr r \<Longrightarrow> \<forall>kv \<in> set r. param_ok kv"
  using load_fields_ok by (auto simp: load_risk_config_def split: if_splits sum.splits pyval.splits)

text \<open>A cluster cap of NaN in the file (\<open>.nan\<close>) is loaded without complaint, and a cluster
  context built with it approves every trade, of whatever finite cost and open exposure: the
  cap is off.\<close>

lemma config_nan_cap_disables_gate:
  "load_risk_config True (Inr (VDict
       [(VStr ''concentration'', VDict [(VStr ''max_cluster_usd'', VFloat NaN)])])) path
     = (Inr [(''max_cluster_usd'', PyFloat NaN)], [])
   \<and> evaluate_cluster_cap \<lparr>cluster_id = cid, cluster_open_usd = PyFloat u,
        cluster_proposed_cost = PyFloat c, max_cluster_usd = PyFloat NaN\<rparr>
     = new_decision True ''OK'' (PyFloat c)"
  by (simp add: load_risk_config_def load_fields_def section_of_def number_field_def
      loss_limit_field_def not_above_zero_def known_top_level_keys_def evaluate_cluster_cap_def)

end
