(* ===== verification/ConfigUse.thy ===== *)
theory ConfigUse
  imports ConfigLoader RiskState
begin

text \<open>
  A loaded configuration in use, as the documentation of \<open>config.py\<close> promises it: the parameters
  that \<open>RiskContext\<close> has are its keyword arguments (the others keep their defaults), and the Kelly
  fraction goes to \<open>kelly_fraction\<close>.
\<close>

section \<open>The keyword arguments\<close>

definition arg :: "params \<Rightarrow> string \<Rightarrow> pynum \<Rightarrow> pynum" where
  "arg r k dflt = (case map_of r k of Some v \<Rightarrow> v | None \<Rightarrow> dflt)"

definition context_from_config :: "params \<Rightarrow> risk_context res" where
  "context_from_config r = RiskContext_new
     (val_of_num (arg r ''max_daily_drawdown_pct'' (max_daily_drawdown_pct default_context)))
     (val_of_num (max_weekly_drawdown_pct default_context))
     (val_of_num (arg r ''max_correlated_exposure'' (max_correlated_exposure default_context)))
     (val_of_num (arg r ''min_expected_value'' (min_expected_value default_context)))
     (VInt (latency_budget_us default_context))
     (val_of_num (arg r ''consecutive_loss_limit'' (PyInt (consecutive_loss_limit default_context))))
     (val_of_num (arg r ''consecutive_loss_window_minutes''
        (consecutive_loss_window_minutes default_context)))"

lemma arg_ok:
  assumes "\<forall>kv \<in> set r. param_ok kv" and "param_ok (k, d)"
  shows "param_ok (k, arg r k d)"
  using assms map_of_SomeD [of r k] by (fastforce simp: arg_def split: option.splits)

lemma arg_given: "arg r k d \<noteq> d \<Longrightarrow> (k, arg r k d) \<in> set r"
  by (auto simp: arg_def map_of_SomeD split: option.splits)

text \<open>What an argument of each key is.\<close>

lemma param_ok_cases:
  "param_ok (''max_daily_drawdown_pct'', v) \<Longrightarrow> \<exists>x. v = PyFloat x \<and> is_finite x \<and> 0 < fval x \<and> fval x \<le> 1"
  "param_ok (''max_correlated_exposure'', v) \<Longrightarrow> \<exists>x. v = PyFloat x \<and> \<not> flt x f64_zero"
  "param_ok (''min_expected_value'', v) \<Longrightarrow> \<exists>x. v = PyFloat x"
  "param_ok (''consecutive_loss_limit'', v) \<Longrightarrow> \<exists>n. v = PyInt n \<and> 0 \<le> n"
  "param_ok (''consecutive_loss_window_minutes'', v) \<Longrightarrow> \<exists>x. v = PyFloat x \<and> \<not> flt x f64_zero"
  "param_ok (''kelly_conservative_fraction'', v) \<Longrightarrow> \<exists>x. v = PyFloat x \<and> is_finite x \<and> 0 < fval x \<and> fval x \<le> 1"
  by (simp_all add: param_ok_def)

lemma defaults_ok:
  "param_ok (''max_daily_drawdown_pct'', max_daily_drawdown_pct default_context)"
  "param_ok (''max_correlated_exposure'', max_correlated_exposure default_context)"
  "param_ok (''min_expected_value'', min_expected_value default_context)"
  "param_ok (''consecutive_loss_limit'', PyInt (consecutive_loss_limit default_context))"
  "param_ok (''consecutive_loss_window_minutes'', consecutive_loss_window_minutes default_context)"
proof -
  have "\<not> not_in_unit (lit 10 100)" "\<not> flt (lit 2500 1) f64_zero" "\<not> flt (lit 15 1) f64_zero"
    by code_simp+
  then show "param_ok (''max_daily_drawdown_pct'', max_daily_drawdown_pct default_context)"
    "param_ok (''max_correlated_exposure'', max_correlated_exposure default_context)"
    "param_ok (''min_expected_value'', min_expected_value default_context)"
    "param_ok (''consecutive_loss_limit'', PyInt (consecutive_loss_limit default_context))"
    "param_ok (''consecutive_loss_window_minutes'', consecutive_loss_window_minutes default_context)"
    by (simp_all only: default_context_def risk_context.simps param_ok_simps not_in_unit_iff order_refl
        simp_thms not_False_eq_True)
qed

lemma defaults_finite:
  "num_finite (max_daily_drawdown_pct default_context)" "num_finite (max_weekly_drawdown_pct default_context)"
  "num_finite (max_correlated_exposure default_context)" "num_finite (min_expected_value default_context)"
  "num_finite (consecutive_loss_window_minutes default_context)"
  by code_simp+

lemma ensure_finite_float:
  "ensure_finite (VFloat x) fld
     = (if is_finite x then Inr (PyFloat x) else Inl (ValueError (fld @ '' must be finite'')))"
  by (cases x) (simp_all add: math_isfinite_def)

section \<open>The context\<close>

text \<open>The fields the file sets hold its values, the others the defaults.\<close>

definition from_file :: "params \<Rightarrow> risk_context \<Rightarrow> bool" where
  "from_file r ctx \<longleftrightarrow>
     max_daily_drawdown_pct ctx = arg r ''max_daily_drawdown_pct'' (max_daily_drawdown_pct default_context)
   \<and> max_correlated_exposure ctx = arg r ''max_correlated_exposure'' (max_correlated_exposure default_context)
   \<and> min_expected_value ctx = arg r ''min_expected_value'' (min_expected_value default_context)
   \<and> PyInt (consecutive_loss_limit ctx)
       = arg r ''consecutive_loss_limit'' (PyInt (consecutive_loss_limit default_context))
   \<and> consecutive_loss_window_minutes ctx
       = arg r ''consecutive_loss_window_minutes'' (consecutive_loss_window_minutes default_context)
   \<and> latency_budget_us ctx = latency_budget_us default_context"

definition documented_ranges :: "risk_context \<Rightarrow> bool" where
  "documented_ranges ctx \<longleftrightarrow>
     0 < num_value (max_daily_drawdown_pct ctx) \<and> num_value (max_daily_drawdown_pct ctx) \<le> 1
   \<and> 0 \<le> num_value (max_correlated_exposure ctx) \<and> 0 \<le> consecutive_loss_limit ctx
   \<and> 0 \<le> num_value (consecutive_loss_window_minutes ctx)"

lemma config_context:
  assumes "fst (load_risk_config exists parsed path) = Inr r"
  shows "case context_from_config r of
      Inl e \<Rightarrow> \<exists>k v. (k, v) \<in> set r \<and> \<not> num_finite v \<and> e = ValueError (k @ '' must be finite'')
    | Inr ctx \<Rightarrow> context_ok ctx \<and> documented_ranges ctx \<and> from_file r ctx"
proof -
  note ok = arg_ok [OF config_params_ok [OF assms]]
  let ?a = "\<lambda>k f. arg r k (f default_context)"
  obtain d where d: "?a ''max_daily_drawdown_pct'' max_daily_drawdown_pct = PyFloat d"
      "is_finite d" "0 < fval d" "fval d \<le> 1"
    using param_ok_cases(1) [OF ok [OF defaults_ok(1)]] by blast
  obtain x where x: "?a ''max_correlated_exposure'' max_correlated_exposure = PyFloat x" "\<not> flt x f64_zero"
    using param_ok_cases(2) [OF ok [OF defaults_ok(2)]] by blast
  obtain ev where ev: "?a ''min_expected_value'' min_expected_value = PyFloat ev"
    using param_ok_cases(3) [OF ok [OF defaults_ok(3)]] by blast
  obtain n where n: "?a ''consecutive_loss_limit'' (\<lambda>c. PyInt (consecutive_loss_limit c)) = PyInt n" "0 \<le> n"
    using param_ok_cases(4) [OF ok [OF defaults_ok(4)]] by blast
  obtain w where w: "?a ''consecutive_loss_window_minutes'' consecutive_loss_window_minutes = PyFloat w"
      "\<not> flt w f64_zero"
    using param_ok_cases(5) [OF ok [OF defaults_ok(5)]] by blast
  obtain wk where wk: "max_weekly_drawdown_pct default_context = PyFloat wk" "is_finite wk"
    using defaults_finite(2) by (auto simp: default_context_def num_finite_def)
  have refused: "\<exists>k v. (k, v) \<in> set r \<and> \<not> num_finite v \<and> ValueError (key @ '' must be finite'')
      = ValueError (k @ '' must be finite'')"
    if "arg r key dflt = PyFloat y" "num_finite dflt" "\<not> is_finite y" for key dflt y
  proof -
    have nf: "\<not> num_finite (arg r key dflt)" using that(1,3) by (simp add: num_finite_def)
    then have "(key, arg r key dflt) \<in> set r" using arg_given that(2) by metis
    then show ?thesis using nf by blast
  qed
  note bad = refused [OF x(1) defaults_finite(3)] refused [OF ev defaults_finite(4)]
    refused [OF w(1) defaults_finite(5)]
  show ?thesis
    using d(2-4) x(2) n(2) w(2) wk bad
    by (auto simp: context_from_config_def RiskContext_new_def d(1) x(1) ev n(1) w(1) wk(1)
        ensure_finite_float context_ok_def documented_ranges_def from_file_def num_finite_def flt_fval simp del: ensure_finite.simps
        split: sum.splits)
qed


section \<open>The Kelly fraction\<close>

text \<open>The fraction of a file that loads is one \<open>kelly_fraction\<close> accepts: for every probability and
  every price that is not subnormal the call returns, and the stake is between zero and the
  configured fraction.\<close>

lemma config_fraction_bounds_stake:
  assumes "fst (load_risk_config exists parsed path) = Inr r"
    and "map_of r ''kelly_conservative_fraction'' = Some cf" and "num_ok cf"
    and "unit_float u" and "unit_float x" and "2 powi (-1022) \<le> fval x"
  shows "\<exists>s. kelly_fraction (PyFloat u) (PyFloat x) cf = Inr s \<and> num_le F0 s \<and> num_le s cf"
proof -
  have "param_ok (''kelly_conservative_fraction'', cf)"
    using config_params_ok [OF assms(1)] map_of_SomeD [OF assms(2)] by blast
  then obtain c where c: "cf = PyFloat c" "is_finite c" "0 < fval c" "fval c \<le> 1"
    using param_ok_cases(6) by blast
  have cf: "num_lt F0 cf" "num_le cf F1" "to_float cf = Inr c"
    using c by (simp_all add: num_lt_def num_le_def flt_fval fle_fval)
  have "is_finite (odds x)"
    using odds_facts(5) [OF assms(5,6)] by (simp add: odds_def)
  then have le: "num_le (stake u x c) cf" by (intro stake_le_fraction assms cf)
  have "num_le F0 (stake u x c)"
    using clamp_unit by (auto simp: stake_def num_le_def fle_fval)
  then show ?thesis using kelly_unit [OF assms(4,5) cf] le by blast
qed

section \<open>A sample file\<close>

definition sample_yaml :: pyval where
  "sample_yaml = VDict [(VStr ''drawdown'', VDict [(VStr ''max_daily_drawdown_pct'', VFloat (lit 1 2))]),
     (VStr ''kelly'', VDict [(VStr ''conservative_fraction'', VFloat (lit 1 4))])]"

lemma sample_yaml_loads:
  "fst (load_risk_config True (Inr sample_yaml) ''risk.yaml'')
     = Inr [(''max_daily_drawdown_pct'', PyFloat (lit 1 2)), (''kelly_conservative_fraction'', PyFloat (lit 1 4))]"
  by code_simp


end
