(* ===== verification/Controls.thy ===== *)
theory Controls
  imports Gates
begin

text \<open>
  The stateful desk controls of \<open>gates.py\<close>: the kill switch, the timed circuit breaker and
  the rolling consecutive-loss gate, as records with one function per method, and the two
  interfaces the engine uses them through: checking (\<open>desk_control\<close>) and snapshots
  (\<open>snapshot\<close>).
\<close>

text \<open>\<open>_is_finite\<close>: a finite \<open>float\<close>; an \<open>int\<close> is not one.\<close>

fun is_finite_float :: "pynum \<Rightarrow> bool" where
  "is_finite_float (PyFloat x) = is_finite x"
| "is_finite_float (PyInt n) = False"

section \<open>KillSwitch\<close>

record kill_switch =
  ks_tripped :: bool
  ks_tripped_at :: "pydatetime option"
  ks_reason :: string

definition KillSwitch_new :: "string \<Rightarrow> kill_switch" where
  "KillSwitch_new reason = \<lparr>ks_tripped = False, ks_tripped_at = None, ks_reason = reason\<rparr>"

definition ks_trip :: "pydatetime option \<Rightarrow> kill_switch \<Rightarrow> kill_switch" where
  "ks_trip when ks =
     (if \<not> ks_tripped ks then ks\<lparr>ks_tripped := True, ks_tripped_at := when\<rparr> else ks)"

definition ks_reset :: "kill_switch \<Rightarrow> kill_switch" where
  "ks_reset ks = ks\<lparr>ks_tripped := False, ks_tripped_at := None\<rparr>"

definition ks_check ::
    "kill_switch \<Rightarrow> risk_decision \<Rightarrow> pydatetime option \<Rightarrow> (kill_switch, bool \<times> risk_decision) upd" where
  "ks_check ks d when = (if ks_tripped ks then g_reject (ks_reason ks) d else g_pass d, ks)"

definition ks_to_state :: "kill_switch \<Rightarrow> kill_switch_state" where
  "ks_to_state ks = \<lparr>kss_tripped = ks_tripped ks, kss_reason = ks_reason ks,
     kss_tripped_at = ks_tripped_at ks\<rparr>"

definition ks_from_state :: "kill_switch_state \<Rightarrow> kill_switch" where
  "ks_from_state st = (KillSwitch_new (kss_reason st))
     \<lparr>ks_tripped := kss_tripped st, ks_tripped_at := kss_tripped_at st\<rparr>"

section \<open>TimedCircuitBreaker\<close>

record timed_breaker =
  tb_threshold :: int
  tb_cooldown_hours :: f64
  tb_loss_streak :: int
  tb_tripped_at :: "pydatetime option"
  tb_tripped :: bool

definition TimedCircuitBreaker_new :: "pyval \<Rightarrow> pynum \<Rightarrow> timed_breaker res" where
  "TimedCircuitBreaker_new threshold cooldown =
     rbind (require_int threshold ''consecutive_loss_threshold must be an int'') (\<lambda>t.
     rguard (t < 1) (ValueError ''consecutive_loss_threshold must be >= 1'')
    (rguard (num_le cooldown (PyInt 0)) (ValueError ''cooldown_hours must be > 0'')
    (rbind (to_float cooldown) (\<lambda>c.
       Inr \<lparr>tb_threshold = t, tb_cooldown_hours = c, tb_loss_streak = 0,
            tb_tripped_at = None, tb_tripped = False\<rparr>))))"

definition tb_record :: "pynum \<Rightarrow> pydatetime option \<Rightarrow> timed_breaker \<Rightarrow> timed_breaker" where
  "tb_record pl when tb =
     (if \<not> is_finite_float pl then tb
      else if tb_tripped tb then tb
      else if num_lt pl (PyInt 0)
      then (let tb' = tb\<lparr>tb_loss_streak := tb_loss_streak tb + 1\<rparr>
            in if tb_threshold tb' \<le> tb_loss_streak tb'
               then tb'\<lparr>tb_tripped := True, tb_tripped_at := when\<rparr> else tb')
      else tb\<lparr>tb_loss_streak := 0\<rparr>)"

definition tb_cleared :: "timed_breaker \<Rightarrow> timed_breaker" where
  "tb_cleared tb = tb\<lparr>tb_tripped := False, tb_tripped_at := None, tb_loss_streak := 0\<rparr>"

text \<open>The tail of \<open>check\<close>, after the cooldown test.\<close>

definition tb_still :: "timed_breaker \<Rightarrow> risk_decision \<Rightarrow> gate_result" where
  "tb_still tb d =
     (if tb_tripped tb
      then g_reject (''ERR_TIMED_CIRCUIT_BREAKER: tripped after '' @ str_int (tb_loss_streak tb)
             @ '' consecutive losses, cooldown '' @ repr_f64 (tb_cooldown_hours tb) @ ''h'') d
      else g_pass d)"

definition tb_check ::
    "timed_breaker \<Rightarrow> risk_decision \<Rightarrow> pydatetime option
      \<Rightarrow> (timed_breaker, bool \<times> risk_decision) upd" where
  "tb_check tb d now =
     (case (tb_tripped tb, tb_tripped_at tb, now) of
        (True, Some t0, Some t) \<Rightarrow>
          if timezone_mode t \<noteq> timezone_mode t0
          then (g_reject ''ERR_INVALID_TIMEZONE_MIXED'' d, tb)
          else (case rbind (dt_sub t t0) (\<lambda>elapsed.
                     rbind (timedelta_hours (tb_cooldown_hours tb)) (\<lambda>cool.
                       Inr (cool \<le> elapsed))) of
                  Inl e \<Rightarrow> (Inl e, tb)
                | Inr True \<Rightarrow> (g_pass d, tb_cleared tb)
                | Inr False \<Rightarrow> (tb_still tb d, tb))
      | _ \<Rightarrow> (tb_still tb d, tb))"

definition tb_reset :: "timed_breaker \<Rightarrow> timed_breaker" where
  "tb_reset tb = tb\<lparr>tb_loss_streak := 0, tb_tripped := False, tb_tripped_at := None\<rparr>"

definition tb_to_state :: "timed_breaker \<Rightarrow> timed_breaker_state res" where
  "tb_to_state tb = TimedCircuitBreakerState_new (VInt (tb_threshold tb))
     (PyFloat (tb_cooldown_hours tb)) (VInt (tb_loss_streak tb)) (tb_tripped tb) (tb_tripped_at tb)"

definition tb_from_state :: "timed_breaker_state \<Rightarrow> timed_breaker res" where
  "tb_from_state st =
     rbind (TimedCircuitBreaker_new (VInt (tbs_threshold st)) (tbs_cooldown_hours st)) (\<lambda>tb.
       Inr (tb\<lparr>tb_loss_streak := tbs_loss_streak st, tb_tripped := tbs_tripped st,
               tb_tripped_at := tbs_tripped_at st\<rparr>))"

section \<open>ConsecutiveLossGate\<close>

record loss_gate =
  lg_max_losses :: int
  lg_window_trades :: int
  lg_history :: "bool list"

definition ConsecutiveLossGate_new :: "pyval \<Rightarrow> pyval \<Rightarrow> loss_gate res" where
  "ConsecutiveLossGate_new max_losses window_trades =
     rbind (require_int max_losses ''max_losses must be an int'') (\<lambda>m.
     rbind (require_int window_trades ''window_trades must be an int'') (\<lambda>w.
     rguard (m < 1) (ValueError ''max_losses must be >= 1'')
    (rguard (w < 1) (ValueError ''window_trades must be >= 1'')
    (rguard (w < m) (ValueError ''max_losses cannot exceed window_trades'')
      (Inr \<lparr>lg_max_losses = m, lg_window_trades = w, lg_history = []\<rparr>)))))"

text \<open>\<open>xs[-n:]\<close> for positive \<open>n\<close>: the last \<open>n\<close> elements.\<close>

definition last_n :: "int \<Rightarrow> 'a list \<Rightarrow> 'a list" where
  "last_n n xs = drop (length xs - nat n) xs"

definition lg_record :: "pynum \<Rightarrow> loss_gate \<Rightarrow> loss_gate" where
  "lg_record pl lg =
     (if \<not> is_finite_float pl then lg
      else (let h = lg_history lg @ [num_lt pl (PyInt 0)]
            in if lg_window_trades lg < int (length h)
               then lg\<lparr>lg_history := last_n (lg_window_trades lg) h\<rparr>
               else lg\<lparr>lg_history := h\<rparr>))"

definition count_true :: "bool list \<Rightarrow> int" where
  "count_true bs = int (length (filter id bs))"

definition lg_check ::
    "loss_gate \<Rightarrow> risk_decision \<Rightarrow> pydatetime option \<Rightarrow> (loss_gate, bool \<times> risk_decision) upd" where
  "lg_check lg d now =
     (if int (length (lg_history lg)) < lg_window_trades lg then g_pass d
      else (let losses = count_true (lg_history lg)
            in if lg_max_losses lg < losses
               then g_reject (''ERR_CONSECUTIVE_LOSS_GATE: '' @ str_int losses
                      @ '' losses in last '' @ str_int (lg_window_trades lg)
                      @ '' trades (limit '' @ str_int (lg_max_losses lg) @ '')'') d
               else g_pass d), lg)"

definition lg_reset :: "loss_gate \<Rightarrow> loss_gate" where
  "lg_reset lg = lg\<lparr>lg_history := []\<rparr>"

definition lg_to_state :: "loss_gate \<Rightarrow> loss_gate_state res" where
  "lg_to_state lg = ConsecutiveLossGateState_new (VInt (lg_max_losses lg))
     (VInt (lg_window_trades lg)) (lg_history lg)"

definition lg_from_state :: "loss_gate_state \<Rightarrow> loss_gate res" where
  "lg_from_state st =
     rbind (ConsecutiveLossGate_new (VInt (lgs_max_losses st)) (VInt (lgs_window_trades st))) (\<lambda>lg.
       Inr (lg\<lparr>lg_history := lgs_history st\<rparr>))"

section \<open>The checking interface\<close>

text \<open>
  What the engine needs of a control: a pass leaves the decision alone, a rejection writes
  the two fields and leaves the control alone, an exception leaves the control alone, and
  the control never looks at the decision.
\<close>

locale desk_control =
  fixes check :: "'s \<Rightarrow> risk_decision \<Rightarrow> pydatetime option \<Rightarrow> ('s, bool \<times> risk_decision) upd"
  assumes check_uniform: "fst (check s d t) = apply_verdict (verdict_of (\<lambda>e. fst (check s e t))) d"
    and check_state: "snd (check s d t) = snd (check s e t)"
    and reject_keeps: "fst (check s d t) = Inr (False, d') \<Longrightarrow> snd (check s d t) = s"
    and raise_keeps: "fst (check s d t) = Inl x \<Longrightarrow> snd (check s d t) = s"
begin

text \<open>\<open>None\<close>: passes; \<open>Some r\<close>: rejects with reason \<open>r\<close>.\<close>

lemma check_cases:
  obtains (pass) s' where "check s d t = (g_pass d, s')"
    | (fail) r where "check s d t = (g_reject r d, s)"
    | (raise) x where "check s d t = (Inl x, s)"
proof (cases "verdict_of (\<lambda>e. fst (check s e t))")
  case (Inl x)
  then have "fst (check s d t) = Inl x" by (subst check_uniform) (simp add: apply_verdict_def)
  then show thesis using raise raise_keeps by (metis prod.collapse)
next
  case (Inr v)
  show thesis
  proof (cases v)
    case None
    then have "fst (check s d t) = g_pass d"
      using Inr by (subst check_uniform) (simp add: apply_verdict_def)
    then show thesis using pass by (metis prod.collapse)
  next
    case (Some r)
    then have f: "fst (check s d t) = g_reject r d"
      using Inr by (subst check_uniform) (simp add: apply_verdict_def)
    then show thesis using fail reject_keeps by (metis g_reject_def prod.collapse)
  qed
qed

lemma pass_decision: "fst (check s d t) = Inr (True, d') \<Longrightarrow> d' = d"
  by (rule check_cases [of s d t]) (simp_all add: g_pass_def g_reject_def)

lemma fail_decision: "fst (check s d t) = Inr (False, d') \<Longrightarrow> \<exists>r. d' = reject r d"
  by (rule check_cases [of s d t]) (auto simp: g_pass_def g_reject_def)

end

interpretation ks: desk_control ks_check
  by unfold_locales
    (auto simp: ks_check_def apply_verdict_def verdict_of_def g_pass_def g_reject_def)

lemma tb_still_uniform: "tb_still tb d = apply_verdict (verdict_of (tb_still tb)) d"
  by (simp add: tb_still_def apply_verdict_def verdict_of_def g_pass_def g_reject_def)

lemma tb_still_not_Inl [simp]: "tb_still tb d \<noteq> Inl e"
  by (simp add: tb_still_def g_pass_def g_reject_def)

interpretation tb: desk_control tb_check
proof unfold_locales
  fix s d t
  show "fst (tb_check s d t) = apply_verdict (verdict_of (\<lambda>e. fst (tb_check s e t))) d"
    by (auto simp: tb_check_def apply_verdict_def verdict_of_def g_pass_def g_reject_def
        tb_still_def split: option.splits sum.splits bool.splits)
next
  fix s d t e
  show "snd (tb_check s d t) = snd (tb_check s e t)"
    by (auto simp: tb_check_def split: option.splits sum.splits bool.splits)
next
  fix s d t d'
  show "fst (tb_check s d t) = Inr (False, d') \<Longrightarrow> snd (tb_check s d t) = s"
    by (auto simp: tb_check_def g_pass_def split: option.splits sum.splits bool.splits if_splits)
next
  fix s d t x
  show "fst (tb_check s d t) = Inl x \<Longrightarrow> snd (tb_check s d t) = s"
    by (auto simp: tb_check_def g_pass_def g_reject_def
        split: option.splits sum.splits bool.splits if_splits)
qed

interpretation lg: desk_control lg_check
  by unfold_locales
    (auto simp: lg_check_def apply_verdict_def verdict_of_def g_pass_def g_reject_def Let_def)

section \<open>The snapshot interface\<close>

text \<open>
  A control can be written to a snapshot and rebuilt from it; both go through constructors
  that validate, so both may raise. On a control that satisfies its invariant neither does,
  and the control comes back as it was. An absent control (\<open>... if x is not None else None\<close>)
  stays absent.
\<close>

fun map_opt_res :: "('a \<Rightarrow> 'b res) \<Rightarrow> 'a option \<Rightarrow> 'b option res" where
  "map_opt_res f None = Inr None"
| "map_opt_res f (Some x) = rbind (f x) (\<lambda>y. Inr (Some y))"

locale snapshot =
  fixes to_state :: "'o \<Rightarrow> 's res" and from_state :: "'s \<Rightarrow> 'o res" and inv :: "'o \<Rightarrow> bool"
  assumes roundtrip: "inv x \<Longrightarrow> \<exists>s. to_state x = Inr s \<and> from_state s = Inr x"
begin

lemma restores: "inv x \<Longrightarrow> rbind (to_state x) from_state = Inr x"
  using roundtrip by fastforce

lemma opt_roundtrip:
  "pred_option inv x \<Longrightarrow> \<exists>s. map_opt_res to_state x = Inr s \<and> map_opt_res from_state s = Inr x"
  using roundtrip by (cases x) fastforce+

lemma to_state_inj: "inv x \<Longrightarrow> inv y \<Longrightarrow> to_state x = to_state y \<Longrightarrow> x = y"
  using roundtrip [of x] roundtrip [of y] by auto

end

text \<open>The invariants: what the constructors check, and what the methods keep.\<close>

definition tb_inv :: "timed_breaker \<Rightarrow> bool" where
  "tb_inv tb \<longleftrightarrow> 1 \<le> tb_threshold tb \<and> \<not> num_le (PyFloat (tb_cooldown_hours tb)) (PyInt 0)
     \<and> 0 \<le> tb_loss_streak tb \<and> tb_loss_streak tb \<le> tb_threshold tb
     \<and> (tb_tripped tb \<longleftrightarrow> tb_loss_streak tb = tb_threshold tb)
     \<and> (\<not> tb_tripped tb \<longrightarrow> tb_tripped_at tb = None)"

definition lg_inv :: "loss_gate \<Rightarrow> bool" where
  "lg_inv lg \<longleftrightarrow> 1 \<le> lg_max_losses lg \<and> lg_max_losses lg \<le> lg_window_trades lg
     \<and> int (length (lg_history lg)) \<le> lg_window_trades lg"

lemmas breaker_ops = TimedCircuitBreaker_new_def tb_record_def tb_check_def tb_still_def
  tb_cleared_def tb_reset_def

lemmas loss_gate_ops = ConsecutiveLossGate_new_def lg_record_def lg_check_def lg_reset_def last_n_def

interpretation ks_snap: snapshot "\<lambda>ks. Inr (ks_to_state ks)" "\<lambda>st. Inr (ks_from_state st)" "\<lambda>_. True"
  by unfold_locales (simp add: ks_to_state_def ks_from_state_def KillSwitch_new_def)

interpretation tb_snap: snapshot tb_to_state tb_from_state tb_inv
proof
  fix tb assume "tb_inv tb"
  then show "\<exists>s. tb_to_state tb = Inr s \<and> tb_from_state s = Inr tb"
    by (cases tb) (auto simp: tb_inv_def tb_to_state_def TimedCircuitBreakerState_new_def
        tb_from_state_def TimedCircuitBreaker_new_def)
qed

interpretation lg_snap: snapshot lg_to_state lg_from_state lg_inv
proof
  fix lg assume "lg_inv lg"
  then show "\<exists>s. lg_to_state lg = Inr s \<and> lg_from_state s = Inr lg"
    by (cases lg) (auto simp: lg_inv_def lg_to_state_def ConsecutiveLossGateState_new_def
        lg_from_state_def ConsecutiveLossGate_new_def)
qed

end
