(* ===== verification/ControlLaws.thy ===== *)
theory ControlLaws
  imports Controls
begin

text \<open>
  What the desk controls guarantee over a whole session: the breaker as a state machine with
  its invariant, when it trips, how long it stays tripped and when it never recovers; the
  contents of the loss gate's window; the kill switch between resets.
\<close>

section \<open>The breaker as a state machine\<close>

datatype tb_event =
    TbRecord pynum "pydatetime option"
  | TbCheck "pydatetime option"
  | TbReset

inductive tb_step :: "timed_breaker \<Rightarrow> tb_event \<Rightarrow> timed_breaker \<Rightarrow> bool" where
  step_record: "tb_step tb (TbRecord p t) (tb_record p t tb)"
| step_check: "tb_step tb (TbCheck now) (snd (tb_check tb d now))"
| step_reset: "tb_step tb TbReset (tb_reset tb)"

inductive_cases tb_stepE: "tb_step tb e tb'"

inductive_simps tb_step_simps:
  "tb_step tb (TbRecord p t) tb'" "tb_step tb (TbCheck now) tb'" "tb_step tb TbReset tb'"

inductive tb_steps :: "timed_breaker \<Rightarrow> tb_event list \<Rightarrow> timed_breaker \<Rightarrow> bool" where
  steps_Nil: "tb_steps tb [] tb"
| steps_Cons: "tb_step tb e tb1 \<Longrightarrow> tb_steps tb1 es tb2 \<Longrightarrow> tb_steps tb (e # es) tb2"

inductive_simps tb_steps_simps: "tb_steps tb [] tb'" "tb_steps tb (e # es) tb'"

text \<open>Every breaker a program can get hold of: constructed, then used.\<close>

inductive tb_reachable :: "timed_breaker \<Rightarrow> bool" where
  reach_new: "TimedCircuitBreaker_new threshold cooldown = Inr tb \<Longrightarrow> tb_reachable tb"
| reach_step: "tb_reachable tb \<Longrightarrow> tb_step tb e tb' \<Longrightarrow> tb_reachable tb'"

lemma to_float_positive:
  assumes "\<not> num_le a (PyInt 0)" and "to_float a = Inr c"
  shows "\<not> num_le (PyFloat c) (PyInt 0)"
proof (cases a)
  case (PyInt n)
  then have n: "1 \<le> n"
    using assms(1) by (simp add: num_le_def fle_fval)
  have c: "c = f64_of_int n"
    using to_float_of_int assms(2) PyInt by blast
  have "fle (f64_of_int 1) c"
    unfolding c using n by (intro approx_mono [OF f64_of_int_approx f64_of_int_approx]) simp
  moreover have "\<not> fle (f64_of_int 1) (exact_int 0)" by code_simp
  ultimately show ?thesis unfolding num_le_def using fle_trans by fastforce
qed (use assms in simp)

lemma TimedCircuitBreaker_new_inv:
  "TimedCircuitBreaker_new threshold cooldown = Inr tb \<Longrightarrow> tb_inv tb \<and> \<not> tb_tripped tb"
  by (auto simp: TimedCircuitBreaker_new_def tb_inv_def res_eq_iff to_float_positive)

lemma tb_record_inv: "tb_inv tb \<Longrightarrow> tb_inv (tb_record p t tb)"
  by (auto simp: tb_record_def tb_inv_def Let_def)

lemma tb_reset_inv: "tb_inv tb \<Longrightarrow> tb_inv (tb_reset tb)"
  by (auto simp: tb_reset_def tb_inv_def)

lemma tb_cleared_eq [simp]: "tb_cleared tb = tb_reset tb"
  by (simp add: tb_cleared_def tb_reset_def)

lemma tb_check_state: "snd (tb_check tb d now) = tb \<or> snd (tb_check tb d now) = tb_reset tb"
  by (auto simp: tb_check_def split: option.splits sum.splits bool.splits)

lemma tb_step_inv: "tb_step tb e tb' \<Longrightarrow> tb_inv tb \<Longrightarrow> tb_inv tb'"
  by (erule tb_stepE) (metis tb_record_inv tb_reset_inv tb_check_state)+



section \<open>When it trips\<close>

text \<open>The results the breaker takes notice of, and the losses among them.\<close>

definition counted :: "(pynum \<times> 'a) list \<Rightarrow> bool list" where
  "counted rs = map (\<lambda>r. num_lt (fst r) (PyInt 0)) (filter (\<lambda>r. is_finite_float (fst r)) rs)"

definition tb_records :: "(pynum \<times> pydatetime option) list \<Rightarrow> timed_breaker \<Rightarrow> timed_breaker" where
  "tb_records rs tb = fold (\<lambda>r. tb_record (fst r) (snd r)) rs tb"

text \<open>The abstract machine: the length of the current run, frozen once it reaches the limit.\<close>

definition run_step :: "nat \<Rightarrow> bool \<Rightarrow> nat \<Rightarrow> nat" where
  "run_step k b n = (if k \<le> n then n else if b then Suc n else 0)"

definition run_of :: "nat \<Rightarrow> bool list \<Rightarrow> nat" where
  "run_of k bs = fold (run_step k) bs 0"

definition has_run :: "nat \<Rightarrow> bool list \<Rightarrow> bool" where
  "has_run k bs \<longleftrightarrow> (\<exists>xs zs. bs = xs @ replicate k True @ zs)"

lemma counted_simps [simp]:
  "counted [] = []"
  "counted (r # rs) =
     (if is_finite_float (fst r) then num_lt (fst r) (PyInt 0) # counted rs else counted rs)"
  by (simp_all add: counted_def)

text \<open>Recording refines the abstract machine.\<close>

lemma tb_records_refines:
  assumes "tb_inv tb"
  shows "tb_inv (tb_records rs tb) \<and> tb_threshold (tb_records rs tb) = tb_threshold tb
    \<and> nat (tb_loss_streak (tb_records rs tb))
        = fold (run_step (nat (tb_threshold tb))) (counted rs) (nat (tb_loss_streak tb))"
  using assms
proof (induction rs arbitrary: tb)
  case (Cons r rs)
  obtain p t where r: "r = (p, t)" by (cases r)
  have inv: "tb_inv (tb_record p t tb)" using Cons.prems by (rule tb_record_inv)
  have thr: "tb_threshold (tb_record p t tb) = tb_threshold tb"
    by (simp add: tb_record_def Let_def)
  have streak: "nat (tb_loss_streak (tb_record p t tb)) =
      (if is_finite_float p
       then run_step (nat (tb_threshold tb)) (num_lt p (PyInt 0)) (nat (tb_loss_streak tb))
       else nat (tb_loss_streak tb))"
    using Cons.prems by (auto simp: tb_record_def tb_inv_def run_step_def Let_def)
  show ?case
    using Cons.IH [OF inv] streak thr by (simp add: r tb_records_def)
qed (simp add: tb_records_def)

lemma replicate_prefix: "(\<exists>ys. bs = replicate k True @ ys) \<longleftrightarrow> k \<le> length (takeWhile (\<lambda>b. b) bs)"
proof (induction k arbitrary: bs)
  case (Suc k)
  show ?case by (cases bs) (auto simp: Suc.IH [symmetric])
qed simp

lemma replicate_suffix:
  "(\<exists>xs. bs = xs @ replicate k True) \<longleftrightarrow> k \<le> length (takeWhile (\<lambda>b. b) (rev bs))"
proof -
  have "(\<exists>xs. bs = xs @ replicate k True) \<longleftrightarrow> (\<exists>ys. rev bs = replicate k True @ ys)"
    by (metis rev_append rev_replicate rev_rev_ident)
  then show ?thesis by (simp add: replicate_prefix)
qed

lemma has_run_snoc:
  "has_run k (bs @ [b]) \<longleftrightarrow> has_run k bs \<or> (\<exists>xs. bs @ [b] = xs @ replicate k True)"
proof
  assume "has_run k (bs @ [b])"
  then obtain xs zs where run: "bs @ [b] = xs @ replicate k True @ zs"
    by (auto simp: has_run_def)
  show "has_run k bs \<or> (\<exists>xs. bs @ [b] = xs @ replicate k True)"
  proof (cases zs rule: rev_cases)
    case (snoc ys y)
    then have "bs = xs @ replicate k True @ ys" using run by simp
    then show ?thesis by (auto simp: has_run_def)
  qed (use run in auto)
next
  assume "has_run k bs \<or> (\<exists>xs. bs @ [b] = xs @ replicate k True)"
  then show "has_run k (bs @ [b])"
    unfolding has_run_def by (metis append.assoc append.right_neutral)
qed

lemma run_of_eq:
  assumes "0 < k"
  shows "run_of k bs = (if has_run k bs then k else length (takeWhile (\<lambda>b. b) (rev bs)))"
proof (induction bs rule: rev_induct)
  case Nil
  then show ?case using assms by (simp add: run_of_def has_run_def)
next
  case (snoc b bs)
  have step: "run_of k (bs @ [b]) = run_step k b (run_of k bs)" by (simp add: run_of_def)
  have "\<not> has_run k bs \<Longrightarrow> length (takeWhile (\<lambda>b. b) (rev bs)) < k"
    using replicate_suffix [of bs k] by (auto simp: has_run_def) (metis append_Nil2 not_le)
  then show ?case
    unfolding step snoc.IH has_run_snoc replicate_suffix by (auto simp: run_step_def)
qed

lemma tb_new_streak:
  "TimedCircuitBreaker_new (VInt n) c = Inr tb \<Longrightarrow> tb_loss_streak tb = 0 \<and> tb_threshold tb = n"
  by (auto simp: TimedCircuitBreaker_new_def res_eq_iff)

text \<open>C11. A fresh breaker that is fed a sequence of results is tripped afterwards exactly when the
  finite float results among them contain the threshold number of losses in a row, wherever in
  the sequence; everything else in the list is invisible to it.\<close>

theorem breaker_trips_iff:
  assumes "TimedCircuitBreaker_new (VInt n) c = Inr tb"
  shows "tb_tripped (tb_records rs tb)
    \<longleftrightarrow> (\<exists>xs zs. counted rs = xs @ replicate (nat n) True @ zs)"
proof -
  have inv: "tb_inv tb" and s: "tb_loss_streak tb = 0" "tb_threshold tb = n"
    using assms TimedCircuitBreaker_new_inv tb_new_streak by blast+
  have n: "1 \<le> n" using inv s by (simp add: tb_inv_def)
  note r = tb_records_refines [OF inv, of rs]
  have "tb_tripped (tb_records rs tb) \<longleftrightarrow> nat n \<le> run_of (nat n) (counted rs)"
    using r s n unfolding tb_inv_def run_of_def by auto
  also have "\<dots> \<longleftrightarrow> has_run (nat n) (counted rs)"
    using replicate_suffix [of "counted rs" "nat n"] n
    by (auto simp: run_of_eq has_run_def) (metis append_Nil2)
  finally show ?thesis by (simp add: has_run_def)
qed

theorem breaker_trips_iff_witness:
  "\<exists>tb. TimedCircuitBreaker_new (VInt 2) (PyInt 24) = Inr tb
     \<and> tb_tripped (tb_records [(PyFloat (lit (-1) 1), None), (PyInt (-9), None),
          (PyFloat (lit (-2) 1), None)] tb)"
proof -
  let ?rs = "[(PyFloat (lit (-1) 1), None), (PyInt (-9), None), (PyFloat (lit (-2) 1), None)]"
  let ?tb = "\<lparr>tb_threshold = 2, tb_cooldown_hours = lit 24 1, tb_loss_streak = 0,
     tb_tripped_at = None, tb_tripped = False\<rparr>"
  have new: "TimedCircuitBreaker_new (VInt 2) (PyInt 24) = Inr ?tb" by code_simp
  have "counted ?rs = [] @ replicate (nat 2) True @ []" by code_simp
  then show ?thesis using breaker_trips_iff [OF new, of ?rs] new by blast
qed

section \<open>How long it stays tripped\<close>

lemma tb_record_tripped: "tb_tripped tb \<Longrightarrow> tb_record p t tb = tb"
  by (simp add: tb_record_def)

lemma tb_check_tripped:
  assumes "tb_tripped tb" and "tb_tripped_at tb = Some t0"
  shows "timezone_mode t \<noteq> timezone_mode t0
           \<Longrightarrow> tb_check tb d (Some t) = (g_reject ''ERR_INVALID_TIMEZONE_MIXED'' d, tb)"
    and "timezone_mode t = timezone_mode t0 \<Longrightarrow> dt_sub t t0 = Inr age
           \<Longrightarrow> timedelta_hours (tb_cooldown_hours tb) = Inr cool
           \<Longrightarrow> tb_check tb d (Some t)
               = (if cool \<le> age then (g_pass d, tb_reset tb) else (tb_still tb d, tb))"
    and "tb_check tb d None = (tb_still tb d, tb)"
  using assms by (simp_all add: tb_check_def)

lemma tb_check_untimed:
  "tb_tripped_at tb = None \<or> \<not> tb_tripped tb \<Longrightarrow> tb_check tb d now = (tb_still tb d, tb)"
  by (auto simp: tb_check_def split: option.splits bool.splits)

lemma same_mode_sub: "timezone_mode a = timezone_mode b \<Longrightarrow> \<exists>age. dt_sub a b = Inr age"
  by (rule dt_sub_ok)
    (auto simp: timezone_mode_def is_aware_def dt_aware_def dt_offset_def
      split: if_splits option.splits)

text \<open>Events that leave a breaker tripped at \<open>t0\<close> as it is: results, and checks before \<open>cool\<close>
  microseconds have passed, without a time, or in the other timezone mode.\<close>

fun too_early :: "pydatetime \<Rightarrow> int \<Rightarrow> tb_event \<Rightarrow> bool" where
  "too_early t0 cool (TbRecord p t) = True"
| "too_early t0 cool (TbCheck None) = True"
| "too_early t0 cool (TbCheck (Some t)) =
     (timezone_mode t \<noteq> timezone_mode t0 \<or> (case dt_sub t t0 of Inl _ \<Rightarrow> True | Inr age \<Rightarrow> age < cool))"
| "too_early t0 cool TbReset = False"

lemma too_early_step:
  assumes "tb_tripped tb" and "tb_tripped_at tb = Some t0"
    and "timedelta_hours (tb_cooldown_hours tb) = Inr cool"
    and "too_early t0 cool e" and "tb_step tb e tb'"
  shows "tb' = tb"
proof (cases e)
  case (TbCheck now)
  show ?thesis
  proof (cases now)
    case None
    then show ?thesis using TbCheck assms tb_check_tripped(3) by (auto simp: tb_step_simps)
  next
    case (Some t)
    then show ?thesis
      using TbCheck assms same_mode_sub [of t t0]
        tb_check_tripped(1) [OF assms(1,2), of t] tb_check_tripped(2) [OF assms(1,2), of t]
      by (cases "timezone_mode t = timezone_mode t0") (auto simp: tb_step_simps)
  qed
qed (use assms tb_record_tripped in \<open>auto simp: tb_step_simps\<close>)



text \<open>C36. A breaker that tripped on a result recorded without a time never recovers by itself:
  whatever is recorded and however much later it is checked, it rejects until it is reset.\<close>

theorem breaker_latched_without_time:
  assumes "tb_tripped tb" and "tb_tripped_at tb = None"
    and "tb_steps tb es tb'" and "TbReset \<notin> set es"
  shows "tb' = tb \<and> (\<exists>r. \<forall>d now. tb_check tb' d now = (g_reject r d, tb'))"
proof
  show eq: "tb' = tb"
    using assms(3,1,2,4)
  proof (induction rule: tb_steps.induct)
    case (steps_Cons tb e tb1 es tb2)
    then have "tb1 = tb"
      using tb_record_tripped tb_check_untimed by (cases e) (auto simp: tb_step_simps)
    then show ?case using steps_Cons by simp
  qed simp
  show "\<exists>r. \<forall>d now. tb_check tb' d now = (g_reject r d, tb')"
    using assms(1,2) by (auto simp: eq tb_check_untimed tb_still_def)
qed

theorem breaker_latched_without_time_witness:
  "\<exists>r. \<forall>d now. tb_check \<lparr>tb_threshold = 1, tb_cooldown_hours = lit 24 1, tb_loss_streak = 1,
     tb_tripped_at = None, tb_tripped = True\<rparr> d now = (g_reject r d, \<lparr>tb_threshold = 1,
     tb_cooldown_hours = lit 24 1, tb_loss_streak = 1, tb_tripped_at = None, tb_tripped = True\<rparr>)"
proof -
  let ?tb = "\<lparr>tb_threshold = 1, tb_cooldown_hours = lit 24 1, tb_loss_streak = 1,
     tb_tripped_at = None, tb_tripped = True\<rparr>"
  let ?es = "[TbRecord (PyFloat (lit 5 1)) None, TbCheck (Some \<lparr>dt_wall = 86400000000, dt_tz = None\<rparr>)]"
  have "tb_steps ?tb ?es ?tb"
    by (simp add: tb_steps_simps tb_step_simps tb_record_tripped tb_check_untimed)
  moreover have "tb_tripped ?tb" "tb_tripped_at ?tb = None" "TbReset \<notin> set ?es" by simp_all
  ultimately show ?thesis using breaker_latched_without_time by blast
qed

lemma tb_records_cooldown: "tb_cooldown_hours (tb_records rs tb) = tb_cooldown_hours tb"
  unfolding tb_records_def by (induction rs arbitrary: tb) (auto simp: tb_record_def Let_def)

text \<open>A cooldown of NaN or infinitely many hours is accepted by the constructor, and from the
  moment such a breaker trips every timed check raises instead of deciding.\<close>

lemma breaker_nonfinite_cooldown:
  assumes "1 \<le> n" and "x = NaN \<or> x = Inf False"
  shows "\<exists>tb. TimedCircuitBreaker_new (VInt n) (PyFloat x) = Inr tb
    \<and> (\<forall>rs d t t0. tb_tripped (tb_records rs tb) \<and> tb_tripped_at (tb_records rs tb) = Some t0
         \<and> timezone_mode t = timezone_mode t0
         \<longrightarrow> (\<exists>e. tb_check (tb_records rs tb) d (Some t) = (Inl e, tb_records rs tb)))"
proof -
  obtain tb where tb: "TimedCircuitBreaker_new (VInt n) (PyFloat x) = Inr tb"
      "tb_cooldown_hours tb = x"
    using assms by (auto simp: TimedCircuitBreaker_new_def num_le_def exact_int_def)
  have raises: "\<exists>e. timedelta_hours (tb_cooldown_hours (tb_records rs tb)) = Inl e" for rs
    using assms(2) tb(2) by (auto simp: tb_records_cooldown)
  show ?thesis
  proof (intro exI [of _ tb] conjI allI impI)
    fix rs d t t0
    assume h: "tb_tripped (tb_records rs tb) \<and> tb_tripped_at (tb_records rs tb) = Some t0
         \<and> timezone_mode t = timezone_mode t0"
    then obtain age where "dt_sub t t0 = Inr age" using same_mode_sub by blast
    then show "\<exists>e. tb_check (tb_records rs tb) d (Some t) = (Inl e, tb_records rs tb)"
      using h raises [of rs] by (auto simp: tb_check_def)
  qed (rule tb(1))
qed

section \<open>The rolling loss window\<close>

definition lg_records :: "pynum list \<Rightarrow> loss_gate \<Rightarrow> loss_gate" where
  "lg_records rs lg = fold lg_record rs lg"

definition losses_in :: "pynum list \<Rightarrow> bool list" where
  "losses_in rs = map (\<lambda>p. num_lt p (PyInt 0)) (filter is_finite_float rs)"

lemma length_last_n [simp]: "length (last_n n xs) = min (nat n) (length xs)"
  by (simp add: last_n_def)

lemma last_n_all: "int (length xs) \<le> n \<Longrightarrow> last_n n xs = xs"
  by (simp add: last_n_def)

lemma last_n_snoc:
  "1 \<le> n \<Longrightarrow> last_n n (last_n n xs @ [x]) = last_n n (xs @ [x])"
  by (cases "length xs < nat n") (auto simp: last_n_def Suc_diff_le)

lemma lg_record_history:
  assumes "1 \<le> lg_window_trades lg"
  shows "lg_record p lg = lg\<lparr>lg_history := (if is_finite_float p
           then last_n (lg_window_trades lg) (lg_history lg @ [num_lt p (PyInt 0)])
           else lg_history lg)\<rparr>"
  by (auto simp: lg_record_def Let_def last_n_all)

lemma lg_records_history:
  assumes "1 \<le> lg_window_trades lg" and "lg_history lg = []"
  shows "lg_records rs lg = lg\<lparr>lg_history := last_n (lg_window_trades lg) (losses_in rs)\<rparr>"
proof (induction rs rule: rev_induct)
  case (snoc p rs)
  then show ?case
    using assms(1) by (simp add: lg_records_def lg_record_history last_n_snoc losses_in_def)
qed (use assms in \<open>simp add: lg_records_def losses_in_def last_n_def\<close>)

lemma ConsecutiveLossGate_new_inv:
  "ConsecutiveLossGate_new m w = Inr lg \<Longrightarrow> lg_inv lg \<and> lg_history lg = []"
  by (auto simp: ConsecutiveLossGate_new_def lg_inv_def res_eq_iff)

lemma lg_record_inv: "lg_inv lg \<Longrightarrow> lg_inv (lg_record p lg)"
  by (auto simp: lg_record_def lg_inv_def last_n_def Let_def)

lemma lg_reset_inv: "lg_inv lg \<Longrightarrow> lg_inv (lg_reset lg)"
  by (auto simp: lg_reset_def lg_inv_def)

lemma lg_check_state [simp]: "snd (lg_check lg d now) = lg"
  by (simp add: lg_check_def)

lemma loss_gate_check:
  assumes "ConsecutiveLossGate_new (VInt m) (VInt w) = Inr lg"
  shows "lg_history (lg_records rs lg) = last_n w (losses_in rs)"
    and "lg_check (lg_records rs lg) d now = (g_pass d, lg_records rs lg)
         \<longleftrightarrow> int (length (losses_in rs)) < w \<or> count_true (last_n w (losses_in rs)) \<le> m"
proof -
  have lg: "lg = \<lparr>lg_max_losses = m, lg_window_trades = w, lg_history = []\<rparr>" "1 \<le> w"
    using assms by (auto simp: ConsecutiveLossGate_new_def res_eq_iff)
  have short: "int (min (nat w) n) < w \<longleftrightarrow> int n < w" for n
    using lg(2) by linarith
  have eq: "lg_records rs lg = lg\<lparr>lg_history := last_n w (losses_in rs)\<rparr>"
    using lg by (simp add: lg_records_history)
  then show "lg_history (lg_records rs lg) = last_n w (losses_in rs)" by simp
  show "lg_check (lg_records rs lg) d now = (g_pass d, lg_records rs lg)
         \<longleftrightarrow> int (length (losses_in rs)) < w \<or> count_true (last_n w (losses_in rs)) \<le> m"
    unfolding eq using short [of "length (losses_in rs)"]
    by (auto simp: lg lg_check_def g_pass_def g_reject_def Let_def)
qed

text \<open>C12. A fresh gate that has been fed a list of results holds the outcomes of the last
  \<open>window_trades\<close> finite float ones, and passes exactly when there have been fewer than that
  many or at most \<open>max_losses\<close> of those last ones lost.\<close>

theorem loss_gate_window:
  assumes "ConsecutiveLossGate_new (VInt m) (VInt w) = Inr lg"
  shows "lg_history (lg_records rs lg) = last_n w (losses_in rs)
    \<and> (lg_check (lg_records rs lg) d now = (g_pass d, lg_records rs lg)
         \<longleftrightarrow> int (length (losses_in rs)) < w \<or> count_true (last_n w (losses_in rs)) \<le> m)"
  using loss_gate_check [OF assms] by blast

theorem loss_gate_window_witness:
  "\<exists>lg. ConsecutiveLossGate_new (VInt 1) (VInt 2) = Inr lg
     \<and> lg_history (lg_records [PyFloat (lit 1 1), PyFloat (lit (-1) 1), PyFloat (lit (-2) 1)] lg)
         = [True, True]"
proof -
  let ?rs = "[PyFloat (lit 1 1), PyFloat (lit (-1) 1), PyFloat (lit (-2) 1)]"
  have new: "ConsecutiveLossGate_new (VInt 1) (VInt 2)
      = Inr \<lparr>lg_max_losses = 1, lg_window_trades = 2, lg_history = []\<rparr>" by code_simp
  have "last_n 2 (losses_in ?rs) = [True, True]" by code_simp
  then show ?thesis using loss_gate_window [OF new, of ?rs] new by auto
qed

text \<open>With \<open>max_losses\<close> equal to \<open>window_trades\<close>, which the constructor allows, the gate never
  rejects anything: even a window of nothing but losses is within the limit.\<close>

lemma loss_gate_full_limit_vacuous:
  assumes "ConsecutiveLossGate_new (VInt w) (VInt w) = Inr lg"
  shows "lg_check (lg_records rs lg) d now = (g_pass d, lg_records rs lg)"
proof -
  have w: "1 \<le> w" using assms by (auto simp: ConsecutiveLossGate_new_def res_eq_iff)
  have "count_true (last_n w (losses_in rs)) \<le> int (length (last_n w (losses_in rs)))"
    unfolding count_true_def by (intro of_nat_mono length_filter_le)
  also have "\<dots> \<le> w" using w by simp
  finally show ?thesis using loss_gate_check(2) [OF assms] by blast
qed

section \<open>The kill switch between resets\<close>

datatype ks_event = KsTrip "pydatetime option" | KsReset | KsCheck "pydatetime option"

fun ks_apply :: "ks_event \<Rightarrow> kill_switch \<Rightarrow> kill_switch" where
  "ks_apply (KsTrip t) ks = ks_trip t ks"
| "ks_apply KsReset ks = ks_reset ks"
| "ks_apply (KsCheck t) ks = snd (ks_check ks blank_decision t)"

text \<open>The trips since the last reset, oldest first.\<close>

definition since_reset :: "ks_event list \<Rightarrow> ks_event list" where
  "since_reset es = rev (takeWhile (\<lambda>e. e \<noteq> KsReset) (rev es))"

fun trip_times :: "ks_event list \<Rightarrow> pydatetime option list" where
  "trip_times [] = []"
| "trip_times (KsTrip t # es) = t # trip_times es"
| "trip_times (e # es) = trip_times es"

lemma trip_times_append [simp]: "trip_times (es @ fs) = trip_times es @ trip_times fs"
  by (induction es rule: trip_times.induct) simp_all

lemma since_reset_simps [simp]:
  "since_reset [] = []" "since_reset (es @ [KsReset]) = []"
  "e \<noteq> KsReset \<Longrightarrow> since_reset (es @ [e]) = since_reset es @ [e]"
  by (simp_all add: since_reset_def)

text \<open>C37. After any sequence of trips, resets and checks the switch is tripped exactly when there
  has been a trip since the last reset; it then carries the time of the first such trip and
  rejects every trade with its own reason, which no operation changes; otherwise it passes.\<close>

theorem kill_switch_history:
  "let ks = fold ks_apply es (KillSwitch_new reason); trips = trip_times (since_reset es)
   in ks = \<lparr>ks_tripped = (trips \<noteq> []),
            ks_tripped_at = (case trips of [] \<Rightarrow> None | t # _ \<Rightarrow> t), ks_reason = reason\<rparr>
    \<and> ks_check ks d now = (if trips \<noteq> [] then g_reject reason d else g_pass d, ks)"
proof -
  have "fold ks_apply es (KillSwitch_new reason) = \<lparr>ks_tripped = (trip_times (since_reset es) \<noteq> []),
              ks_tripped_at = (case trip_times (since_reset es) of [] \<Rightarrow> None | t # _ \<Rightarrow> t),
              ks_reason = reason\<rparr>"
  proof (induction es rule: rev_induct)
    case (snoc e es)
    then show ?case
      by (cases e) (auto simp: ks_trip_def ks_reset_def ks_check_def split: list.splits)
  qed (simp add: KillSwitch_new_def)
  then show ?thesis by (simp add: ks_check_def Let_def)
qed

end
