(* ===== verification/Engine.thy ===== *)
theory Engine
  imports ControlLaws LossWindow
begin

text \<open>
  \<open>engine.py\<close>: the stateless gate chain with its tracing, and the \<open>RiskAuthority\<close> that puts the
  desk controls in front of it, fires the \<open>on_trip\<close> callback, records resolved trades, and
  saves and restores its state.
\<close>

section \<open>Inputs and environment\<close>

text \<open>The arguments of \<open>evaluate_trade\<close> after the context.\<close>

record trade_inputs =
  ti_daily_realized_pnl :: pynum
  ti_equity :: pynum
  ti_target_family :: string
  ti_proposed_cost :: pynum
  ti_open_positions :: "position list"
  ti_expected_value :: pynum
  ti_trade_outcomes :: "trade_outcome list option"
  ti_current_time :: "pydatetime option"
  ti_cluster_cap :: "cluster_cap_context option"

text \<open>
  What an evaluation reads from its process: the module of the configured tracer provider's
  class, and the two readings of \<open>time.perf_counter_ns()\<close>.
\<close>

record engine_env =
  provider_module :: string
  start_ns :: int
  end_ns :: int

section \<open>Tracing\<close>

datatype attr = AStr string | ANum pynum | ABool bool

datatype trace_event =
    SpanOpen string
  | SetAttribute string string attr
  | SpanClose string

type_synonym trace_log = "trace_event list"

text \<open>\<open>_tracing_enabled\<close>, \<open>_maybe_span\<close> with the \<open>with\<close> statement around its body (which is left,
  and so closed, by an exception too), \<open>_set_attrs\<close> and \<open>_mark_rejected\<close>.\<close>

definition tracing_enabled :: "string \<Rightarrow> bool" where
  "tracing_enabled provider = startswith ''opentelemetry.sdk'' provider"

definition with_maybe_span ::
    "string \<Rightarrow> string \<Rightarrow> (string option \<Rightarrow> trace_log \<Rightarrow> 'a \<times> trace_log) \<Rightarrow> trace_log
      \<Rightarrow> 'a \<times> trace_log" where
  "with_maybe_span provider name body tr =
     (if \<not> tracing_enabled provider then body None tr
      else (let (r, tr') = body (Some name) (tr @ [SpanOpen name])
            in (r, tr' @ [SpanClose name])))"

definition set_attrs :: "string option \<Rightarrow> (string \<times> attr) list \<Rightarrow> trace_log \<Rightarrow> trace_log" where
  "set_attrs sp attrs tr =
     (case sp of
        None \<Rightarrow> tr
      | Some s \<Rightarrow> tr @ map (\<lambda>(key, v). SetAttribute s key v) attrs)"

definition mark_rejected :: "string option \<Rightarrow> risk_decision \<Rightarrow> trace_log \<Rightarrow> trace_log" where
  "mark_rejected sp d =
     set_attrs sp [(''approved'', ABool False), (''reason_code'', AStr (reason_code d))]"

section \<open>The gate chain\<close>

definition run_gate ::
    "string \<Rightarrow> string \<Rightarrow> (risk_decision \<Rightarrow> gate_result) \<Rightarrow> risk_decision \<Rightarrow> trace_log
      \<Rightarrow> gate_result \<times> trace_log" where
  "run_gate provider name gate d = with_maybe_span provider name (\<lambda>sp tr.
     case gate d of
       Inl e \<Rightarrow> (Inl e, tr)
     | Inr (result, d') \<Rightarrow>
         let tr1 = set_attrs sp [(''approved'', ABool result)] tr;
             tr2 = (if \<not> result
                     then set_attrs sp [(''reason_code'', AStr (reason_code d'))] tr1
                     else tr1)
         in (Inr (result, d'), tr2))"

text \<open>\<open>if not _run_gate(...): _mark_rejected(span, decision); return decision\<close>, then \<open>k\<close>.\<close>

definition gate_or_return ::
    "string \<Rightarrow> string option \<Rightarrow> string \<Rightarrow> (risk_decision \<Rightarrow> gate_result)
      \<Rightarrow> (risk_decision \<Rightarrow> trace_log \<Rightarrow> risk_decision res \<times> trace_log)
      \<Rightarrow> risk_decision \<Rightarrow> trace_log \<Rightarrow> risk_decision res \<times> trace_log" where
  "gate_or_return provider sp name gate k d tr =
     (case run_gate provider name gate d tr of
        (Inl e, tr') \<Rightarrow> (Inl e, tr')
      | (Inr (True, d'), tr') \<Rightarrow> k d' tr'
      | (Inr (False, d'), tr') \<Rightarrow> (Inr d', mark_rejected sp d' tr'))"

definition cluster_or_return ::
    "string option \<Rightarrow> cluster_cap_context option
      \<Rightarrow> (risk_decision \<Rightarrow> trace_log \<Rightarrow> risk_decision res \<times> trace_log)
      \<Rightarrow> risk_decision \<Rightarrow> trace_log \<Rightarrow> risk_decision res \<times> trace_log" where
  "cluster_or_return sp cap k d tr =
     (case cap of
        None \<Rightarrow> k d tr
      | Some c \<Rightarrow>
          (case evaluate_cluster_cap c of
             Inl e \<Rightarrow> (Inl e, tr)
           | Inr cd \<Rightarrow>
               if \<not> approved cd
               then (let d' = reject (reason_code cd) d in (Inr d', mark_rejected sp d' tr))
               else k d tr))"

definition latency_and_return ::
    "string option \<Rightarrow> risk_context \<Rightarrow> int \<Rightarrow> risk_decision \<Rightarrow> trace_log
      \<Rightarrow> risk_decision res \<times> trace_log" where
  "latency_and_return sp ctx elapsed_us d tr =
     (if latency_budget_us ctx < elapsed_us
      then (let d' = reject (''ERR_LATENCY_BUDGET: evaluation took '' @ str_int elapsed_us
                  @ ''us (limit '' @ str_int (latency_budget_us ctx) @ ''us)'') d
            in (Inr d', mark_rejected sp d' tr))
      else (Inr d, set_attrs sp [(''approved'', ABool True),
              (''suggested_size'', ANum (suggested_size d))] tr))"

definition evaluate_stateless ::
    "engine_env \<Rightarrow> risk_context \<Rightarrow> trade_inputs \<Rightarrow> trace_log \<Rightarrow> risk_decision res \<times> trace_log" where
  "evaluate_stateless env ctx ti =
     (let p = provider_module env in
      with_maybe_span p ''evaluate_trade'' (\<lambda>sp tr.
        let tr0 = set_attrs sp
              [(''trade_risk_engine.target_family'', AStr (ti_target_family ti)),
               (''trade_risk_engine.proposed_cost'', ANum (ti_proposed_cost ti)),
               (''trade_risk_engine.expected_value'', ANum (ti_expected_value ti)),
               (''trade_risk_engine.daily_realized_pnl'', ANum (ti_daily_realized_pnl ti)),
               (''trade_risk_engine.equity'', ANum (ti_equity ti))] tr
        in case new_decision True ''OK'' (ti_proposed_cost ti) of
             Inl e \<Rightarrow> (Inl e, tr0)
           | Inr d \<Rightarrow>
               (gate_or_return p sp ''evaluate_expected_value''
                  (evaluate_expected_value ctx (ti_expected_value ti))
               (gate_or_return p sp ''evaluate_drawdown''
                  (evaluate_drawdown ctx (ti_daily_realized_pnl ti) (ti_equity ti))
               (gate_or_return p sp ''evaluate_consecutive_losses''
                  (evaluate_consecutive_losses ctx (ti_trade_outcomes ti) (ti_current_time ti))
               (gate_or_return p sp ''evaluate_concentration''
                  (evaluate_concentration ctx (ti_target_family ti) (ti_proposed_cost ti)
                     (ti_open_positions ti))
               (cluster_or_return sp (ti_cluster_cap ti)
               (latency_and_return sp ctx ((end_ns env - start_ns env) div 1000))))))) d tr0))"

text \<open>\<open>RiskAuthority.evaluate_trade\<close>\<close>

definition evaluate_trade ::
    "engine_env \<Rightarrow> risk_context \<Rightarrow> trade_inputs \<Rightarrow> trace_log \<Rightarrow> risk_decision res \<times> trace_log" where
  "evaluate_trade = evaluate_stateless"

section \<open>RiskAuthority\<close>

text \<open>
  The callback is client code. It is given the decision object that is about to be returned,
  which it may change, and it may raise: its model returns the object as it left it and the
  exception, if any.
\<close>

type_synonym callback = "risk_decision \<Rightarrow> risk_decision \<times> exn option"

record authority =
  ra_kill_switch :: "kill_switch option"
  ra_timed_breaker :: "timed_breaker option"
  ra_loss_gate :: "loss_gate option"
  ra_on_trip :: "callback option"
  ra_last_trip_reason :: "string option"

definition RiskAuthority_new ::
    "kill_switch option \<Rightarrow> timed_breaker option \<Rightarrow> loss_gate option \<Rightarrow> callback option
      \<Rightarrow> authority" where
  "RiskAuthority_new ks tb lg cb =
     \<lparr>ra_kill_switch = ks, ra_timed_breaker = tb, ra_loss_gate = lg, ra_on_trip = cb,
      ra_last_trip_reason = None\<rparr>"

text \<open>
  \<open>_maybe_fire_trip\<close>: the authority and the decision afterwards, and the decisions the callback
  was called with. An exception from the callback is logged and dropped.
\<close>

definition maybe_fire_trip ::
    "authority \<Rightarrow> risk_decision \<Rightarrow> authority \<times> risk_decision \<times> risk_decision list" where
  "maybe_fire_trip ra d =
     (case ra_on_trip ra of
        None \<Rightarrow> (ra, d, [])
      | Some cb \<Rightarrow>
          if ra_last_trip_reason ra = Some (reason_code d) then (ra, d, [])
          else (ra\<lparr>ra_last_trip_reason := Some (reason_code d)\<rparr>, fst (cb d), [d]))"

text \<open>The result of a stateful evaluation.\<close>

record stateful_result =
  sr_decision :: "risk_decision res"
  sr_log :: trace_log
  sr_authority :: authority
  sr_calls :: "risk_decision list"

text \<open>
  \<open>if self.x is not None and not self.x.check(decision, ...): self._maybe_fire_trip(decision);
  return decision\<close>, then \<open>k\<close>: \<open>get\<close> and \<open>put\<close> read and write the attribute.
\<close>

definition control_or_return ::
    "('s \<Rightarrow> risk_decision \<Rightarrow> pydatetime option \<Rightarrow> ('s, bool \<times> risk_decision) upd)
      \<Rightarrow> (authority \<Rightarrow> 's option) \<Rightarrow> ('s \<Rightarrow> authority \<Rightarrow> authority) \<Rightarrow> pydatetime option
      \<Rightarrow> (risk_decision \<Rightarrow> authority \<Rightarrow> trace_log \<Rightarrow> stateful_result)
      \<Rightarrow> risk_decision \<Rightarrow> authority \<Rightarrow> trace_log \<Rightarrow> stateful_result" where
  "control_or_return check get put now k d ra tr =
     (case get ra of
        None \<Rightarrow> k d ra tr
      | Some c \<Rightarrow>
          (case check c d now of
             (Inl e, c') \<Rightarrow> \<lparr>sr_decision = Inl e, sr_log = tr, sr_authority = put c' ra, sr_calls = []\<rparr>
           | (Inr (True, d'), c') \<Rightarrow> k d' (put c' ra) tr
           | (Inr (False, d'), c') \<Rightarrow>
               (case maybe_fire_trip (put c' ra) d' of (ra', d'', calls) \<Rightarrow>
                  \<lparr>sr_decision = Inr d'', sr_log = tr, sr_authority = ra', sr_calls = calls\<rparr>)))"

definition evaluate_with_state ::
    "engine_env \<Rightarrow> authority \<Rightarrow> risk_context \<Rightarrow> trade_inputs \<Rightarrow> trace_log \<Rightarrow> stateful_result" where
  "evaluate_with_state env ra ctx ti tr =
     (case new_decision True ''OK'' (ti_proposed_cost ti) of
        Inl e \<Rightarrow> \<lparr>sr_decision = Inl e, sr_log = tr, sr_authority = ra, sr_calls = []\<rparr>
      | Inr d \<Rightarrow>
          (control_or_return ks_check ra_kill_switch
             (\<lambda>k r. r\<lparr>ra_kill_switch := Some k\<rparr>) (ti_current_time ti)
          (control_or_return tb_check ra_timed_breaker
             (\<lambda>b r. r\<lparr>ra_timed_breaker := Some b\<rparr>) (ti_current_time ti)
          (control_or_return lg_check ra_loss_gate
             (\<lambda>g r. r\<lparr>ra_loss_gate := Some g\<rparr>) (ti_current_time ti)
          (\<lambda>d ra tr. case evaluate_stateless env ctx ti tr of (r, tr') \<Rightarrow>
             \<lparr>sr_decision = r, sr_log = tr', sr_authority = ra, sr_calls = []\<rparr>)))) d ra tr)"

definition record_resolved_trade :: "pynum \<Rightarrow> pydatetime option \<Rightarrow> authority \<Rightarrow> authority" where
  "record_resolved_trade pl when ra =
     ra\<lparr>ra_timed_breaker := map_option (tb_record pl when) (ra_timed_breaker ra),
        ra_loss_gate := map_option (lg_record pl) (ra_loss_gate ra)\<rparr>"

definition snapshot_state :: "authority \<Rightarrow> risk_context \<Rightarrow> risk_state res" where
  "snapshot_state ra ctx =
     rbind (map_opt_res (\<lambda>k. Inr (ks_to_state k)) (ra_kill_switch ra)) (\<lambda>ks.
     rbind (map_opt_res tb_to_state (ra_timed_breaker ra)) (\<lambda>tb.
     rbind (map_opt_res lg_to_state (ra_loss_gate ra)) (\<lambda>lg.
       RiskState_new RISK_STATE_SCHEMA_VERSION ctx ks tb lg)))"

definition authority_from_state :: "risk_state \<Rightarrow> callback option \<Rightarrow> authority res" where
  "authority_from_state st cb =
     rbind (map_opt_res (\<lambda>k. Inr (ks_from_state k)) (kill_switch_of st)) (\<lambda>ks.
     rbind (map_opt_res tb_from_state (timed_breaker_of st)) (\<lambda>tb.
     rbind (map_opt_res lg_from_state (loss_gate_of st)) (\<lambda>lg.
       Inr (RiskAuthority_new ks tb lg cb))))"

end
