(* ===== verification/EngineLaws.thy ===== *)
theory EngineLaws
  imports Engine
begin

text \<open>
  What the engine computes: the gate chain as a list of verdicts of which the first
  rejection wins, with and without the desk controls in front of it; the trace it writes;
  the exceptions it can raise; the \<open>on_trip\<close> callback; and snapshots.
\<close>

section \<open>The chain of verdicts\<close>

fun first_rejection :: "string option res list \<Rightarrow> string option res" where
  "first_rejection [] = Inr None"
| "first_rejection (v # vs) =
     rbind v (\<lambda>r. case r of None \<Rightarrow> first_rejection vs | Some c \<Rightarrow> Inr (Some c))"

definition conclude :: "string option res \<Rightarrow> risk_decision \<Rightarrow> risk_decision res" where
  "conclude v d = rbind v (\<lambda>r. Inr (case r of None \<Rightarrow> d | Some c \<Rightarrow> reject c d))"

definition cluster_verdict :: "cluster_cap_context option \<Rightarrow> string option res" where
  "cluster_verdict cap =
     (case cap of
        None \<Rightarrow> Inr None
      | Some c \<Rightarrow> rbind (evaluate_cluster_cap c) (\<lambda>cd.
          Inr (if approved cd then None else Some (reason_code cd))))"

definition latency_verdict :: "risk_context \<Rightarrow> int \<Rightarrow> string option res" where
  "latency_verdict ctx us =
     Inr (if latency_budget_us ctx < us
          then Some (''ERR_LATENCY_BUDGET: evaluation took '' @ str_int us
                 @ ''us (limit '' @ str_int (latency_budget_us ctx) @ ''us)'')
          else None)"

definition elapsed_us :: "engine_env \<Rightarrow> int" where
  "elapsed_us env = (end_ns env - start_ns env) div 1000"

definition gate_verdicts :: "engine_env \<Rightarrow> risk_context \<Rightarrow> trade_inputs \<Rightarrow> string option res list" where
  "gate_verdicts env ctx ti =
     [verdict_of (evaluate_expected_value ctx (ti_expected_value ti)),
      verdict_of (evaluate_drawdown ctx (ti_daily_realized_pnl ti) (ti_equity ti)),
      verdict_of (evaluate_consecutive_losses ctx (ti_trade_outcomes ti) (ti_current_time ti)),
      verdict_of (evaluate_concentration ctx (ti_target_family ti) (ti_proposed_cost ti)
        (ti_open_positions ti)),
      cluster_verdict (ti_cluster_cap ti),
      latency_verdict ctx (elapsed_us env)]"

lemma first_rejection_append:
  "first_rejection (us @ vs) =
     rbind (first_rejection us) (\<lambda>r. case r of None \<Rightarrow> first_rejection vs | Some c \<Rightarrow> Inr (Some c))"
proof (induction us)
  case (Cons u us)
  show ?case by (cases u) (auto simp: Cons.IH split: option.splits)
qed simp

lemma first_rejection_None: "first_rejection vs = Inr None \<longleftrightarrow> (\<forall>v \<in> set vs. v = Inr None)"
  by (induction vs) (auto simp: rbind_eq_Inr split: option.splits)

lemma first_rejection_Some: "first_rejection vs = Inr (Some c) \<Longrightarrow> Inr (Some c) \<in> set vs"
  by (induction vs) (auto simp: rbind_eq_Inr split: option.splits)

lemma first_rejection_Inl: "first_rejection vs = Inl e \<Longrightarrow> Inl e \<in> set vs"
  by (induction vs) (auto simp: rbind_eq_Inl split: option.splits)

text \<open>A continuation of the chain that computes the first rejection of \<open>vs\<close>.\<close>

definition computes ::
    "(risk_decision \<Rightarrow> trace_log \<Rightarrow> risk_decision res \<times> trace_log) \<Rightarrow> string option res list \<Rightarrow> bool" where
  "computes k vs \<longleftrightarrow> (\<forall>d tr. fst (k d tr) = conclude (first_rejection vs) d)"

lemma fst_with_maybe_span:
  "(\<And>sp tr. fst (body sp tr) = x) \<Longrightarrow> fst (with_maybe_span p name body tr) = x"
  by (simp add: with_maybe_span_def Let_def case_prod_beta)

lemma fst_run_gate: "fst (run_gate p name gate d tr) = gate d"
  unfolding run_gate_def
  by (rule fst_with_maybe_span) (auto simp: Let_def split: sum.splits prod.splits)

context risk_gate
begin

lemma chain_step:
  assumes "computes k vs"
  shows "computes (gate_or_return p sp name (gate i) k) (verdict_of (gate i) # vs)"
  unfolding computes_def
proof (intro allI)
  fix d tr
  obtain tr' where run: "run_gate p name (gate i) d tr = (gate i d, tr')"
    by (metis fst_run_gate prod.collapse)
  show "fst (gate_or_return p sp name (gate i) k d tr)
      = conclude (first_rejection (verdict_of (gate i) # vs)) d"
    unfolding gate_or_return_def run using assms
    by (cases "verdict_of (gate i)"; subst uniform)
      (auto simp: apply_verdict_def g_pass_def g_reject_def conclude_def computes_def
        split: option.splits)
qed

lemma passes_iff: "gate i d = g_pass d \<longleftrightarrow> verdict_of (gate i) = Inr None"
  by (subst uniform, cases "verdict_of (gate i)")
    (auto simp: apply_verdict_def g_pass_def g_reject_def split: option.splits)

end

lemma computes_cluster:
  "computes k vs \<Longrightarrow> computes (cluster_or_return sp cap k) (cluster_verdict cap # vs)"
  by (auto simp: computes_def cluster_or_return_def cluster_verdict_def conclude_def Let_def
      split: option.splits sum.splits)

lemma computes_latency: "computes (latency_and_return sp ctx us) [latency_verdict ctx us]"
  by (auto simp: computes_def latency_and_return_def latency_verdict_def conclude_def Let_def)

text \<open>The gates of the chain, each through its interpretation of the interface.\<close>

lemmas chain_steps = ev_gate.chain_step [of _ _ _ _ _ "(ctx, ev)" for ctx ev, simplified]
  drawdown_gate.chain_step [of _ _ _ _ _ "(ctx, p, q)" for ctx p q, simplified]
  loss_gate.chain_step [of _ _ _ _ _ "(ctx, ocs, now)" for ctx ocs now, simplified]
  concentration_gate.chain_step [of _ _ _ _ _ "(ctx, fam, cost, ps)" for ctx fam cost ps, simplified]

definition decide :: "engine_env \<Rightarrow> risk_context \<Rightarrow> trade_inputs \<Rightarrow> risk_decision res" where
  "decide env ctx ti =
     rbind (new_decision True ''OK'' (ti_proposed_cost ti))
       (conclude (first_rejection (gate_verdicts env ctx ti)))"

lemma evaluate_stateless_decide: "fst (evaluate_stateless env ctx ti tr) = decide env ctx ti"
  unfolding evaluate_stateless_def Let_def
proof (rule fst_with_maybe_span, goal_cases)
  case (1 sp tr)
  have "computes (gate_or_return (provider_module env) sp ''evaluate_expected_value''
          (evaluate_expected_value ctx (ti_expected_value ti))
       (gate_or_return (provider_module env) sp ''evaluate_drawdown''
          (evaluate_drawdown ctx (ti_daily_realized_pnl ti) (ti_equity ti))
       (gate_or_return (provider_module env) sp ''evaluate_consecutive_losses''
          (evaluate_consecutive_losses ctx (ti_trade_outcomes ti) (ti_current_time ti))
       (gate_or_return (provider_module env) sp ''evaluate_concentration''
          (evaluate_concentration ctx (ti_target_family ti) (ti_proposed_cost ti)
             (ti_open_positions ti))
       (cluster_or_return sp (ti_cluster_cap ti)
       (latency_and_return sp ctx ((end_ns env - start_ns env) div 1000)))))))
       (gate_verdicts env ctx ti)"
    unfolding gate_verdicts_def elapsed_us_def
    by (intro chain_steps computes_cluster computes_latency)
  then show ?case
    by (cases "new_decision True ''OK'' (ti_proposed_cost ti)")
      (simp_all add: decide_def computes_def)
qed

section \<open>A sample trade\<close>

definition sample_inputs :: trade_inputs where
  "sample_inputs = \<lparr>ti_daily_realized_pnl = PyFloat f64_zero, ti_equity = PyFloat (lit 10000 1),
     ti_target_family = ''FED'', ti_proposed_cost = PyFloat (lit 100 1), ti_open_positions = [],
     ti_expected_value = PyFloat (lit 5 100), ti_trade_outcomes = None, ti_current_time = None,
     ti_cluster_cap = None\<rparr>"

definition sample_env :: engine_env where
  "sample_env = \<lparr>provider_module = ''opentelemetry.sdk.trace'', start_ns = 0, end_ns = 90000\<rparr>"

lemma sample_gates:
  "evaluate_expected_value default_context (PyFloat (lit 5 100)) = g_pass"
  "evaluate_drawdown default_context (PyFloat f64_zero) (PyFloat (lit 10000 1)) = g_pass"
  by (rule ext, code_simp)+

lemma sample_cost:
  "new_decision True ''OK'' (PyFloat (lit 100 1)) =
     Inr \<lparr>approved = True, reason_code = ''OK'', suggested_size = PyFloat (lit 100 1)\<rparr>"
  by (rule new_decision_ok) code_simp

lemma sample_drawdown_raises:
  "evaluate_drawdown default_context (PyInt (10 ^ 309)) (PyFloat (lit 10000 1)) d =
     Inl (OverflowError ''int too large to convert to float'')"
proof -
  have "math_isnan (PyFloat (lit 10000 1)) = Inr False" by code_simp
  then show ?thesis
    unfolding evaluate_drawdown_def
    by (simp add: Let_def math_isnan_def [of "PyInt _"] huge_int_overflows del: to_float.simps power_numeral)
qed

lemma sample_losses: "evaluate_consecutive_losses default_context ocs t = g_pass"
  by (rule loss_limit_off) code_simp+

lemma sample_latency: "latency_verdict default_context (elapsed_us sample_env) = Inr None"
  by (simp add: latency_verdict_def elapsed_us_def sample_env_def default_context_def)

lemma sample_approved:
  "decide sample_env default_context sample_inputs
     = Inr \<lparr>approved = True, reason_code = ''OK'', suggested_size = PyFloat (lit 100 1)\<rparr>"
  by (simp add: decide_def gate_verdicts_def sample_inputs_def sample_gates sample_cost
      sample_concentration default_exposure sample_losses sample_latency cluster_verdict_def
      conclude_def)

lemma sample_raises:
  "decide sample_env default_context (sample_inputs\<lparr>ti_daily_realized_pnl := PyInt (10 ^ 309)\<rparr>)
     = Inl (OverflowError ''int too large to convert to float'')"
  by (simp add: decide_def gate_verdicts_def sample_inputs_def sample_gates sample_cost
      conclude_def verdict_of_def [of "evaluate_drawdown _ _ _"] sample_drawdown_raises
      del: power_numeral)

text \<open>C3. The stateless evaluation is a pure function of its inputs and the elapsed time: the
  constructor's check of the proposed cost, then the first rejection (or exception) among the
  six verdicts in the order expected value, drawdown, loss window, concentration, cluster cap,
  latency. Tracing has no influence on it.\<close>

theorem stateless_first_rejection_wins:
  "fst (evaluate_stateless env ctx ti tr) =
     rbind (new_decision True ''OK'' (ti_proposed_cost ti))
       (conclude (first_rejection (gate_verdicts env ctx ti)))"
  unfolding evaluate_stateless_decide decide_def ..

section \<open>Approval\<close>

lemma cluster_cap_coded:
  "evaluate_cluster_cap c = Inr cd \<Longrightarrow> \<not> approved cd \<Longrightarrow> startswith ''ERR_'' (reason_code cd)"
  by (auto simp: evaluate_cluster_cap_def new_decision_Inr rbind_eq_Inr split: if_splits)

lemma gate_verdicts_coded:
  assumes "Inr (Some r) \<in> set (gate_verdicts env ctx ti)"
  shows "startswith ''ERR_'' r"
proof -
  have "cluster_verdict cap = Inr (Some r) \<Longrightarrow> startswith ''ERR_'' r" for cap
    by (auto simp: cluster_verdict_def rbind_eq_Inr dest!: cluster_cap_coded
        split: option.splits if_splits)
  moreover have "latency_verdict ctx us = Inr (Some r) \<Longrightarrow> startswith ''ERR_'' r" for us
    by (auto simp: latency_verdict_def split: if_splits)
  ultimately show ?thesis
    using assms ev_gate.coded [of "(ctx, ti_expected_value ti)"]
      drawdown_gate.coded [of "(ctx, ti_daily_realized_pnl ti, ti_equity ti)"]
      loss_gate.coded [of "(ctx, ti_trade_outcomes ti, ti_current_time ti)"]
      concentration_gate.coded
        [of "(ctx, ti_target_family ti, ti_proposed_cost ti, ti_open_positions ti)"]
    unfolding gate_verdicts_def by (auto dest: sym)
qed

lemma decide_Inr:
  assumes "decide env ctx ti = Inr d"
  shows "num_finite (ti_proposed_cost ti)" and "suggested_size d = ti_proposed_cost ti"
    and "approved d \<longleftrightarrow> (\<forall>v \<in> set (gate_verdicts env ctx ti). v = Inr None)"
    and "approved d \<Longrightarrow> reason_code d = ''OK''"
    and "\<not> approved d \<Longrightarrow> Inr (Some (reason_code d)) \<in> set (gate_verdicts env ctx ti)"
proof -
  obtain r where fin: "num_finite (ti_proposed_cost ti)"
    and r: "first_rejection (gate_verdicts env ctx ti) = Inr r"
    and d: "d = (case r of None \<Rightarrow> id | Some c \<Rightarrow> reject c)
        \<lparr>approved = True, reason_code = ''OK'', suggested_size = ti_proposed_cost ti\<rparr>"
    using assms
    by (auto simp: decide_def conclude_def rbind_eq_Inr new_decision_Inr split: option.splits)
  show "num_finite (ti_proposed_cost ti)" by (rule fin)
  show "suggested_size d = ti_proposed_cost ti" "approved d \<Longrightarrow> reason_code d = ''OK''"
    by (simp_all add: d split: option.splits)
  show "approved d \<longleftrightarrow> (\<forall>v \<in> set (gate_verdicts env ctx ti). v = Inr None)"
    unfolding first_rejection_None [symmetric] r by (simp add: d split: option.splits)
  show "\<not> approved d \<Longrightarrow> Inr (Some (reason_code d)) \<in> set (gate_verdicts env ctx ti)"
    using first_rejection_Some r by (auto simp: d split: option.splits)
qed

text \<open>C4. A returned decision is approved exactly when every gate passes the trade, the cluster
  cap (if given) approves it and the evaluation stayed within the latency budget. It carries
  the proposed cost in any case, the reason \<open>OK\<close> if approved and an \<open>ERR_\<close> code if not.\<close>

theorem stateless_approved_iff:
  assumes "fst (evaluate_stateless env ctx ti tr) = Inr d"
  shows "(approved d \<longleftrightarrow>
        evaluate_expected_value ctx (ti_expected_value ti) b = g_pass b
      \<and> evaluate_drawdown ctx (ti_daily_realized_pnl ti) (ti_equity ti) b = g_pass b
      \<and> evaluate_consecutive_losses ctx (ti_trade_outcomes ti) (ti_current_time ti) b = g_pass b
      \<and> evaluate_concentration ctx (ti_target_family ti) (ti_proposed_cost ti)
          (ti_open_positions ti) b = g_pass b
      \<and> (case ti_cluster_cap ti of None \<Rightarrow> True
         | Some c \<Rightarrow> \<exists>cd. evaluate_cluster_cap c = Inr cd \<and> approved cd)
      \<and> elapsed_us env \<le> latency_budget_us ctx)
    \<and> suggested_size d = ti_proposed_cost ti
    \<and> (if approved d then reason_code d = ''OK'' else startswith ''ERR_'' (reason_code d))"
proof -
  note gates = ev_gate.passes_iff [of "(ctx, ti_expected_value ti)" b, simplified]
    drawdown_gate.passes_iff [of "(ctx, ti_daily_realized_pnl ti, ti_equity ti)" b, simplified]
    loss_gate.passes_iff [of "(ctx, ti_trade_outcomes ti, ti_current_time ti)" b, simplified]
    concentration_gate.passes_iff
      [of "(ctx, ti_target_family ti, ti_proposed_cost ti, ti_open_positions ti)" b, simplified]
  have cluster: "cluster_verdict cap = Inr None \<longleftrightarrow> (case cap of None \<Rightarrow> True
         | Some c \<Rightarrow> \<exists>cd. evaluate_cluster_cap c = Inr cd \<and> approved cd)" for cap
    by (auto simp: cluster_verdict_def rbind_eq_Inr split: option.splits)
  have latency: "latency_verdict ctx us = Inr None \<longleftrightarrow> us \<le> latency_budget_us ctx" for us
    by (auto simp: latency_verdict_def)
  note d = decide_Inr [OF assms [unfolded evaluate_stateless_decide]]
  have code: "if approved d then reason_code d = ''OK'' else startswith ''ERR_'' (reason_code d)"
    using d(4,5) gate_verdicts_coded by auto
  show ?thesis
    unfolding gates
    by (intro conjI code d(2)) (simp add: d(3) gate_verdicts_def cluster latency)
qed

theorem stateless_approved_iff_witness:
  "\<exists>d. fst (evaluate_stateless sample_env default_context sample_inputs []) = Inr d \<and> approved d
     \<and> elapsed_us sample_env \<le> latency_budget_us default_context"
proof -
  have d: "fst (evaluate_stateless sample_env default_context sample_inputs [])
      = Inr \<lparr>approved = True, reason_code = ''OK'', suggested_size = PyFloat (lit 100 1)\<rparr>"
    by (simp add: evaluate_stateless_decide sample_approved)
  then show ?thesis using stateless_approved_iff [OF d] by auto
qed

section \<open>Exceptions\<close>

lemma any_res_overflow: "any_res rs = Inl e \<Longrightarrow> (\<forall>r \<in> set rs. \<forall>x. r = Inl x \<longrightarrow> is_overflow x) \<Longrightarrow> is_overflow e"
  by (drule any_res_Inl) blast

lemma math_check_Inl:
  "math_isnan a = Inl e \<Longrightarrow> is_overflow e" "math_isinf a = Inl e \<Longrightarrow> is_overflow e"
  by (auto simp: math_isnan_def math_isinf_def rbind_eq_Inl dest: to_float_Inl)

lemma num_add_Inl: "num_add a b = Inl e \<Longrightarrow> is_overflow e"
  by (cases "(a, b)" rule: num_add.cases)
    (auto simp: rbind_eq_Inl simp del: to_float.simps dest: to_float_Inl)

lemma int_truediv_Inl: "int_truediv a b = Inl e \<Longrightarrow> b \<noteq> 0 \<Longrightarrow> is_overflow e"
  by (auto simp: int_truediv_def split: f64.splits)

text \<open>Dividing by a number that is greater than zero never divides by a zero float.\<close>

lemma num_div_Inl:
  assumes "num_div a b = Inl e" and "\<not> num_le b (PyInt 0)"
  shows "is_overflow e"
proof (cases "\<exists>m n. a = PyInt m \<and> b = PyInt n")
  case True
  then obtain m n where mn: "a = PyInt m" "b = PyInt n" by blast
  then have "n \<noteq> 0" using assms(2) by (auto simp: num_le_def fle_fval)
  then show ?thesis using assms(1) mn by (auto simp: rbind_eq_Inl dest: int_truediv_Inl)
next
  case False
  have "\<not> feq y f64_zero" if "to_float b = Inr y" for y
  proof
    assume "feq y f64_zero"
    moreover have "fle f64_zero (exact_int 0)" by code_simp
    ultimately have "fle y (exact_int 0)" unfolding feq_def using fle_trans by blast
    then show False using to_float_positive [OF assms(2) that] by (simp add: num_le_def)
  qed
  then show ?thesis
    using assms(1) False by (cases "(a, b)" rule: num_div.cases)
      (auto simp: rbind_eq_Inl simp del: to_float.simps split: if_splits dest: to_float_Inl)
qed

lemma percent2_Inl: "percent2 a = Inl e \<Longrightarrow> is_overflow e"
  by (auto simp: percent2_def rbind_eq_Inl dest: to_float_Inl)

lemma expected_value_Inl: "evaluate_expected_value ctx ev d = Inl e \<Longrightarrow> is_overflow e"
  by (auto simp: evaluate_expected_value_def Let_def rbind_eq_Inl g_pass_def g_reject_def
      math_check_Inl split: if_splits dest!: any_res_overflow)

lemma drawdown_Inl: "evaluate_drawdown ctx p q d = Inl e \<Longrightarrow> is_overflow e"
  by (auto simp: evaluate_drawdown_def Let_def rbind_eq_Inl math_check_Inl
      split: if_splits dest!: any_res_overflow dest: num_div_Inl percent2_Inl)

lemma family_exposure_Inl: "family_exposure t acc ps = Inl e \<Longrightarrow> is_overflow e"
  by (induction ps arbitrary: acc)
    (auto simp: rbind_eq_Inl math_check_Inl simp del: any_res.simps split: if_splits
      dest!: any_res_overflow dest: num_add_Inl)

lemma concentration_Inl: "evaluate_concentration ctx fam cost ps d = Inl e \<Longrightarrow> is_overflow e"
  by (auto simp: evaluate_concentration_def Let_def rbind_eq_Inl math_check_Inl
      split: if_splits option.splits dest!: any_res_overflow
      dest: num_add_Inl family_exposure_Inl)

lemma new_decision_float_zero: "\<exists>d. new_decision a r (PyFloat f64_zero) = Inr d"
  by (simp add: new_decision_Inr)

lemma cluster_cap_Inl:
  assumes "num_finite (cluster_proposed_cost c)" and "evaluate_cluster_cap c = Inl e"
  shows "is_overflow e"
proof -
  have "new_decision a r (cluster_proposed_cost c) \<noteq> Inl e" for a r
    using assms(1) new_decision_ok by fastforce
  moreover have "new_decision a r (PyFloat f64_zero) \<noteq> Inl e" for a r
    using new_decision_float_zero [of a r] by auto
  ultimately show ?thesis
    using assms(2) by (auto simp: evaluate_cluster_cap_def rbind_eq_Inl split: if_splits
        dest: num_add_Inl)
qed

lemma verdict_Inl: "verdict_of g = Inl e \<longleftrightarrow> g blank_decision = Inl e"
  by (auto simp: verdict_of_def split: sum.splits bool.splits prod.splits)



section \<open>A policy field without a gate\<close>

text \<open>The weekly drawdown limit of the policy has no effect: no gate reads it.\<close>

lemma weekly_limit_unused:
  "evaluate_stateless env (ctx\<lparr>max_weekly_drawdown_pct := w\<rparr>) ti tr = evaluate_stateless env ctx ti tr"
proof -
  have loop: "loss_loop (ctx\<lparr>max_weekly_drawdown_pct := w\<rparr>) secs now n ocs d
      = loss_loop ctx secs now n ocs d" for secs now n ocs d
    by (induction ocs arbitrary: n) (simp_all cong: if_cong)
  have gates: "evaluate_expected_value (ctx\<lparr>max_weekly_drawdown_pct := w\<rparr>) = evaluate_expected_value ctx"
    "evaluate_drawdown (ctx\<lparr>max_weekly_drawdown_pct := w\<rparr>) = evaluate_drawdown ctx"
    "evaluate_consecutive_losses (ctx\<lparr>max_weekly_drawdown_pct := w\<rparr>) = evaluate_consecutive_losses ctx"
    "evaluate_concentration (ctx\<lparr>max_weekly_drawdown_pct := w\<rparr>) = evaluate_concentration ctx"
    "latency_and_return sp (ctx\<lparr>max_weekly_drawdown_pct := w\<rparr>) = latency_and_return sp ctx" for sp
    unfolding gate_defs latency_and_return_def [abs_def] fun_eq_iff
    by (simp_all add: loop cong: if_cong option.case_cong list.case_cong)
  show ?thesis unfolding evaluate_stateless_def gates ..
qed

section \<open>The trace\<close>

text \<open>
  A trace is well nested when spans close in the reverse order they opened and attributes are
  only set on the innermost open span: \<open>run_spans\<close> is the stack after the events.
\<close>

fun run_spans :: "string list \<Rightarrow> trace_log \<Rightarrow> string list option" where
  "run_spans st [] = Some st"
| "run_spans st (SpanOpen n # es) = run_spans (n # st) es"
| "run_spans st (SetAttribute s k v # es) =
     (if st \<noteq> [] \<and> hd st = s then run_spans st es else None)"
| "run_spans st (SpanClose n # es) =
     (if st \<noteq> [] \<and> hd st = n then run_spans (tl st) es else None)"

text \<open>The last value of an attribute of a span.\<close>

fun span_attr :: "string \<Rightarrow> string \<Rightarrow> trace_log \<Rightarrow> attr option" where
  "span_attr s k [] = None"
| "span_attr s k (e # es) =
     (case span_attr s k es of
        Some v \<Rightarrow> Some v
      | None \<Rightarrow> (case e of SetAttribute s' k' v \<Rightarrow> if s' = s \<and> k' = k then Some v else None
                | _ \<Rightarrow> None))"

lemma run_spans_append:
  "run_spans st (es @ fs) = Option.bind (run_spans st es) (\<lambda>st'. run_spans st' fs)"
  by (induction st es rule: run_spans.induct) simp_all

lemma span_attr_append:
  "span_attr s k (es @ fs) = (case span_attr s k fs of Some v \<Rightarrow> Some v | None \<Rightarrow> span_attr s k es)"
  by (induction es) (auto split: option.splits)

text \<open>The root span reports the decision \<open>d\<close>.\<close>

definition reports :: "trace_log \<Rightarrow> risk_decision \<Rightarrow> bool" where
  "reports es d \<longleftrightarrow> span_attr ''evaluate_trade'' ''approved'' es = Some (ABool (approved d))
     \<and> (\<not> approved d \<longrightarrow>
          span_attr ''evaluate_trade'' ''reason_code'' es = Some (AStr (reason_code d)))"

lemma reports_append: "reports fs d \<Longrightarrow> reports (es @ fs) d"
  by (auto simp: reports_def span_attr_append)

text \<open>The events a part of the chain adds inside the root span.\<close>

definition adds :: "trace_log \<Rightarrow> risk_decision res \<times> trace_log \<Rightarrow> bool" where
  "adds tr r \<longleftrightarrow> (\<exists>es. snd r = tr @ es
     \<and> run_spans [''evaluate_trade''] es = Some [''evaluate_trade'']
     \<and> (\<forall>d. fst r = Inr d \<longrightarrow> reports es d))"

lemma adds_more:
  assumes "adds (tr @ es) r" and "run_spans [''evaluate_trade''] es = Some [''evaluate_trade'']"
  shows "adds tr r"
proof -
  obtain fs where "snd r = tr @ es @ fs" "\<forall>d. fst r = Inr d \<longrightarrow> reports fs d"
    "run_spans [''evaluate_trade''] fs = Some [''evaluate_trade'']"
    using assms(1) unfolding adds_def by auto
  then show ?thesis
    unfolding adds_def using assms(2) reports_append
    by (intro exI [of _ "es @ fs"]) (simp add: run_spans_append)
qed

lemma adds_rejected:
  "\<not> approved d \<Longrightarrow> adds tr (Inr d, mark_rejected (Some ''evaluate_trade'') d tr)"
  by (simp add: adds_def mark_rejected_def set_attrs_def reports_def)

lemma run_gate_trace:
  assumes "tracing_enabled p"
  shows "\<exists>es. run_gate p name gate d tr = (gate d, tr @ es) \<and> (\<forall>st. run_spans st es = Some st)"
  using assms
  by (cases "gate d")
    (auto simp: run_gate_def with_maybe_span_def set_attrs_def Let_def split: prod.splits)

text \<open>A continuation that, on an approved decision, adds well-nested events that report its result.\<close>

definition traces :: "(risk_decision \<Rightarrow> trace_log \<Rightarrow> risk_decision res \<times> trace_log) \<Rightarrow> bool" where
  "traces k \<longleftrightarrow> (\<forall>d tr. approved d \<longrightarrow> adds tr (k d tr))"

lemma traces_start:
  assumes "traces k"
  shows "adds tr (case new_decision True r c of Inl e \<Rightarrow> (Inl e, tr) | Inr d \<Rightarrow> k d tr)"
proof (cases "new_decision True r c")
  case (Inr d)
  then have "approved d" by (simp add: new_decision_Inr)
  then show ?thesis using assms Inr by (simp add: traces_def)
qed (simp add: adds_def)

context risk_gate
begin

lemma traces_step:
  assumes "tracing_enabled p" and "traces k"
  shows "traces (gate_or_return p (Some ''evaluate_trade'') name (gate i) k)"
  unfolding traces_def
proof (intro allI impI)
  fix d :: risk_decision and tr
  assume d: "approved d"
  obtain es where es: "run_gate p name (gate i) d tr = (gate i d, tr @ es)"
    "\<forall>st. run_spans st es = Some st"
    using run_gate_trace [OF assms(1)] by blast
  have more: "adds (tr @ es) r \<Longrightarrow> adds tr r" for r using adds_more es(2) by blast
  show "adds tr (gate_or_return p (Some ''evaluate_trade'') name (gate i) k d tr)"
  proof (rule more, cases "gate i d")
    case (Inl e)
    then show "adds (tr @ es) (gate_or_return p (Some ''evaluate_trade'') name (gate i) k d tr)"
      by (simp add: gate_or_return_def es adds_def)
  next
    case (Inr bd)
    obtain b d' where bd: "bd = (b, d')" by (cases bd)
    show "adds (tr @ es) (gate_or_return p (Some ''evaluate_trade'') name (gate i) k d tr)"
    proof (cases b)
      case True
      then show ?thesis
        using Inr bd pass_unchanged [of i d d'] assms(2) d
        by (simp add: gate_or_return_def es traces_def)
    next
      case False
      then show ?thesis
        using Inr bd fail_rejects [of i d d']
        by (auto simp: gate_or_return_def es intro!: adds_rejected)
    qed
  qed
qed

end

lemma traces_cluster:
  "traces k \<Longrightarrow> traces (cluster_or_return (Some ''evaluate_trade'') cap k)"
  unfolding traces_def cluster_or_return_def Let_def
  by (auto split: option.splits sum.splits intro!: adds_rejected) (simp add: adds_def)

lemma traces_latency: "traces (latency_and_return (Some ''evaluate_trade'') ctx us)"
  unfolding traces_def latency_and_return_def Let_def
  by (auto intro!: adds_rejected) (simp add: adds_def set_attrs_def reports_def)

lemmas traces_steps = ev_gate.traces_step [of _ _ _ "(ctx, ev)" for ctx ev, simplified]
  drawdown_gate.traces_step [of _ _ _ "(ctx, p, q)" for ctx p q, simplified]
  loss_gate.traces_step [of _ _ _ "(ctx, ocs, now)" for ctx ocs now, simplified]
  concentration_gate.traces_step [of _ _ _ "(ctx, fam, cost, ps)" for ctx fam cost ps, simplified]

lemma untraced_span: "\<not> tracing_enabled p \<Longrightarrow> with_maybe_span p name body tr = body None tr"
  by (simp add: with_maybe_span_def)

lemma untraced_gate: "\<not> tracing_enabled p \<Longrightarrow> run_gate p name gate d tr = (gate d, tr)"
  by (auto simp: run_gate_def untraced_span set_attrs_def split: sum.splits prod.splits)

lemma untraced_steps:
  "\<not> tracing_enabled p \<Longrightarrow> (\<And>d. snd (k d tr) = tr) \<Longrightarrow> snd (gate_or_return p None name gate k d tr) = tr"
  "(\<And>d. snd (k d tr) = tr) \<Longrightarrow> snd (cluster_or_return None cap k d tr) = tr"
  "snd (latency_and_return None ctx us d tr) = tr"
  by (auto simp: gate_or_return_def cluster_or_return_def latency_and_return_def untraced_gate
      mark_rejected_def set_attrs_def Let_def split: sum.splits prod.splits bool.splits option.splits)

lemma evaluate_stateless_untraced:
  "\<not> tracing_enabled (provider_module env) \<Longrightarrow> snd (evaluate_stateless env ctx ti tr) = tr"
  unfolding evaluate_stateless_def Let_def
  by (auto simp: untraced_span set_attrs_def intro!: untraced_steps split: sum.splits)

lemma evaluate_stateless_traced:
  assumes "tracing_enabled (provider_module env)"
  shows "\<exists>es. snd (evaluate_stateless env ctx ti tr) = tr @ es \<and> run_spans [] es = Some []
    \<and> (\<forall>d. fst (evaluate_stateless env ctx ti tr) = Inr d \<longrightarrow> reports es d)"
proof -
  let ?root = "Some ''evaluate_trade''" and ?p = "provider_module env"
  let ?chain = "gate_or_return ?p ?root ''evaluate_expected_value''
          (evaluate_expected_value ctx (ti_expected_value ti))
       (gate_or_return ?p ?root ''evaluate_drawdown''
          (evaluate_drawdown ctx (ti_daily_realized_pnl ti) (ti_equity ti))
       (gate_or_return ?p ?root ''evaluate_consecutive_losses''
          (evaluate_consecutive_losses ctx (ti_trade_outcomes ti) (ti_current_time ti))
       (gate_or_return ?p ?root ''evaluate_concentration''
          (evaluate_concentration ctx (ti_target_family ti) (ti_proposed_cost ti)
             (ti_open_positions ti))
       (cluster_or_return ?root (ti_cluster_cap ti)
       (latency_and_return ?root ctx ((end_ns env - start_ns env) div 1000))))))"
  let ?tr = "tr @ [SpanOpen ''evaluate_trade'']"
  define attrs where "attrs = map (\<lambda>(key, v). SetAttribute ''evaluate_trade'' key v)
      [(''trade_risk_engine.target_family'', AStr (ti_target_family ti)),
       (''trade_risk_engine.proposed_cost'', ANum (ti_proposed_cost ti)),
       (''trade_risk_engine.expected_value'', ANum (ti_expected_value ti)),
       (''trade_risk_engine.daily_realized_pnl'', ANum (ti_daily_realized_pnl ti)),
       (''trade_risk_engine.equity'', ANum (ti_equity ti))]"
  define r where "r = (case new_decision True ''OK'' (ti_proposed_cost ti) of
      Inl e \<Rightarrow> (Inl e, ?tr @ attrs) | Inr d \<Rightarrow> ?chain d (?tr @ attrs))"
  have eq: "evaluate_stateless env ctx ti tr = (fst r, snd r @ [SpanClose ''evaluate_trade''])"
    using assms unfolding evaluate_stateless_def r_def attrs_def Let_def
    by (simp add: with_maybe_span_def set_attrs_def case_prod_beta cong: sum.case_cong)
  have chain: "traces ?chain"
    by (intro traces_steps traces_cluster traces_latency assms)
  have "adds (?tr @ attrs) r"
    unfolding r_def using chain by (rule traces_start)
  moreover have "run_spans [''evaluate_trade''] attrs = Some [''evaluate_trade'']"
    by (simp add: attrs_def)
  ultimately have "adds ?tr r" by (rule adds_more)
  then obtain es where es: "snd r = ?tr @ es" "\<forall>d. fst r = Inr d \<longrightarrow> reports es d"
    "run_spans [''evaluate_trade''] es = Some [''evaluate_trade'']"
    by (auto simp: adds_def)
  have "reports (SpanOpen ''evaluate_trade'' # es @ [SpanClose ''evaluate_trade'']) d"
    if "reports es d" for d
    using that by (auto simp: reports_def span_attr_append)
  then show ?thesis
    using es by (intro exI [of _ "SpanOpen ''evaluate_trade'' # es @ [SpanClose ''evaluate_trade'']"])
      (simp add: eq run_spans_append)
qed

text \<open>C29. With a tracing SDK installed the evaluation writes a well-nested trace, also when a gate
  raises, and the root span's final \<open>approved\<close> and \<open>reason_code\<close> attributes are those of the
  decision that is returned; with no SDK nothing is written.\<close>

theorem trace_reports_decision:
  "if tracing_enabled (provider_module env)
   then \<exists>es. snd (evaluate_stateless env ctx ti tr) = tr @ es \<and> run_spans [] es = Some []
     \<and> (\<forall>d. fst (evaluate_stateless env ctx ti tr) = Inr d \<longrightarrow>
          span_attr ''evaluate_trade'' ''approved'' es = Some (ABool (approved d))
        \<and> (\<not> approved d \<longrightarrow>
             span_attr ''evaluate_trade'' ''reason_code'' es = Some (AStr (reason_code d))))
   else snd (evaluate_stateless env ctx ti tr) = tr"
  using evaluate_stateless_traced [of env ctx ti tr, unfolded reports_def]
    evaluate_stateless_untraced [of env ctx ti tr]
  by simp

theorem trace_reports_decision_witness:
  "span_attr ''evaluate_trade'' ''approved''
     (snd (evaluate_stateless sample_env default_context sample_inputs [])) = Some (ABool True)"
proof -
  have d: "fst (evaluate_stateless sample_env default_context sample_inputs [])
      = Inr \<lparr>approved = True, reason_code = ''OK'', suggested_size = PyFloat (lit 100 1)\<rparr>"
    by (simp add: evaluate_stateless_decide sample_approved)
  have "tracing_enabled (provider_module sample_env)" by code_simp
  then show ?thesis
    using trace_reports_decision [of sample_env default_context sample_inputs "[]"] d by auto
qed

end
