(* ===== verification/AuthorityLaws.thy ===== *)
theory AuthorityLaws
  imports EngineLaws
begin

text \<open>
  What the \<open>RiskAuthority\<close> guarantees: the desk controls come first and in order; a halt
  stands unless the \<open>on_trip\<close> callback itself rewrites the decision; when the callback fires
  over a session; the invariant of an authority in use; and that saving and restoring it
  changes no later decision.
\<close>

section \<open>The controls in front of the gates\<close>

definition control_verdict ::
    "('s \<Rightarrow> risk_decision \<Rightarrow> pydatetime option \<Rightarrow> ('s, bool \<times> risk_decision) upd) \<Rightarrow> 's option
      \<Rightarrow> pydatetime option \<Rightarrow> string option res" where
  "control_verdict check c now =
     (case c of None \<Rightarrow> Inr None | Some s \<Rightarrow> verdict_of (\<lambda>d. fst (check s d now)))"

definition control_verdicts :: "authority \<Rightarrow> pydatetime option \<Rightarrow> string option res list" where
  "control_verdicts ra now =
     [control_verdict ks_check (ra_kill_switch ra) now,
      control_verdict tb_check (ra_timed_breaker ra) now,
      control_verdict lg_check (ra_loss_gate ra) now]"

text \<open>A callback that leaves the decision as it is (or none at all).\<close>

definition hands_off :: "authority \<Rightarrow> bool" where
  "hands_off ra \<longleftrightarrow> (\<forall>cb. ra_on_trip ra = Some cb \<longrightarrow> (\<forall>d. fst (cb d) = d))"

lemma fire_hands_off: "hands_off ra \<Longrightarrow> fst (snd (maybe_fire_trip ra d)) = d"
  by (auto simp: hands_off_def maybe_fire_trip_def split: option.splits)

lemma conclude_simps [simp]:
  "conclude (Inl e) d = Inl e" "conclude (Inr None) d = Inr d"
  "conclude (Inr (Some c)) d = Inr (reject c d)"
  by (simp_all add: conclude_def)

lemma conclude_first:
  "conclude (first_rejection (v # vs)) d =
     (case v of Inl e \<Rightarrow> Inl e | Inr None \<Rightarrow> conclude (first_rejection vs) d
      | Inr (Some c) \<Rightarrow> Inr (reject c d))"
  by (auto simp: conclude_def split: sum.splits option.splits)

context desk_control
begin

lemma verdict_cases:
  obtains (raise) x where "verdict_of (\<lambda>e. fst (check s e t)) = Inl x" "check s d t = (Inl x, s)"
    | (pass) s' where "verdict_of (\<lambda>e. fst (check s e t)) = Inr None" "check s d t = (Inr (True, d), s')"
    | (halt) c where "verdict_of (\<lambda>e. fst (check s e t)) = Inr (Some c)"
        "check s d t = (Inr (False, reject c d), s)"
proof (cases "verdict_of (\<lambda>e. fst (check s e t))")
  case (Inl x)
  then have "fst (check s d t) = Inl x" by (subst check_uniform) (simp add: apply_verdict_def)
  then show thesis using raise Inl raise_keeps by (metis prod.collapse)
next
  case (Inr v)
  show thesis
  proof (cases v)
    case None
    then have "fst (check s d t) = Inr (True, d)"
      using Inr by (subst check_uniform) (simp add: apply_verdict_def g_pass_def)
    then show thesis using pass Inr None by (metis prod.collapse)
  next
    case (Some c)
    then have f: "fst (check s d t) = Inr (False, reject c d)"
      using Inr by (subst check_uniform) (simp add: apply_verdict_def g_reject_def)
    then show thesis using halt Inr Some reject_keeps by (metis prod.collapse)
  qed
qed

lemma control_step:
  assumes "\<And>ra tr. hands_off ra \<Longrightarrow> sr_decision (k d ra tr) = conclude (first_rejection (vs ra)) d"
    and "\<And>c ra. vs (put c ra) = vs ra" and "\<And>c ra. hands_off (put c ra) = hands_off ra"
    and "hands_off ra"
  shows "sr_decision (control_or_return check get put now k d ra tr)
    = conclude (first_rejection (control_verdict check (get ra) now # vs ra)) d"
proof (cases "get ra")
  case None
  then show ?thesis
    using assms by (simp add: control_or_return_def control_verdict_def conclude_first)
next
  case (Some c)
  have fire: "fst (snd (maybe_fire_trip (put c' ra) d')) = d'" for c' d'
    using fire_hands_off assms(3,4) by blast
  show ?thesis
    using Some assms fire
    by (cases rule: verdict_cases [where s = c and d = d and t = now])
      (auto simp: control_or_return_def control_verdict_def conclude_first case_prod_beta)
qed

end

lemma hands_off_put [simp]:
  "hands_off (ra\<lparr>ra_kill_switch := k\<rparr>) = hands_off ra"
  "hands_off (ra\<lparr>ra_timed_breaker := b\<rparr>) = hands_off ra"
  "hands_off (ra\<lparr>ra_loss_gate := g\<rparr>) = hands_off ra"
  by (simp_all add: hands_off_def)

lemma evaluate_with_state_chain:
  assumes "hands_off ra"
  shows "sr_decision (evaluate_with_state env ra ctx ti tr) =
     rbind (new_decision True ''OK'' (ti_proposed_cost ti))
       (conclude (first_rejection
          (control_verdicts ra (ti_current_time ti) @ gate_verdicts env ctx ti)))"
proof (cases "new_decision True ''OK'' (ti_proposed_cost ti)")
  case (Inr d)
  let ?now = "ti_current_time ti"
  let ?gates = "\<lambda>d ra tr. case evaluate_stateless env ctx ti tr of (r, tr') \<Rightarrow>
        \<lparr>sr_decision = r, sr_log = tr', sr_authority = ra, sr_calls = []\<rparr>"
  let ?lg = "control_or_return lg_check ra_loss_gate (\<lambda>g r. r\<lparr>ra_loss_gate := Some g\<rparr>) ?now ?gates"
  let ?tb = "control_or_return tb_check ra_timed_breaker (\<lambda>b r. r\<lparr>ra_timed_breaker := Some b\<rparr>) ?now ?lg"
  have gates: "sr_decision (?gates d ra tr) = conclude (first_rejection (gate_verdicts env ctx ti)) d"
    for ra tr
    using evaluate_stateless_decide [of env ctx ti tr] Inr
    by (auto simp: decide_def split: prod.splits)
  have lg: "sr_decision (?lg d ra tr) = conclude (first_rejection
      (control_verdict lg_check (ra_loss_gate ra) ?now # gate_verdicts env ctx ti)) d"
    if "hands_off ra" for ra tr
    using that gates by (intro lg.control_step [where vs = "\<lambda>_. gate_verdicts env ctx ti"]) simp_all
  have tb: "sr_decision (?tb d ra tr) = conclude (first_rejection
      (control_verdict tb_check (ra_timed_breaker ra) ?now
       # control_verdict lg_check (ra_loss_gate ra) ?now # gate_verdicts env ctx ti)) d"
    if "hands_off ra" for ra tr
    using that lg
    by (intro tb.control_step [where vs = "\<lambda>ra. control_verdict lg_check (ra_loss_gate ra) ?now
         # gate_verdicts env ctx ti"]) simp_all
  have "sr_decision (evaluate_with_state env ra ctx ti tr)
      = sr_decision (control_or_return ks_check ra_kill_switch
          (\<lambda>k r. r\<lparr>ra_kill_switch := Some k\<rparr>) ?now ?tb d ra tr)"
    by (simp add: evaluate_with_state_def Inr)
  also have "\<dots> = conclude (first_rejection
      (control_verdicts ra ?now @ gate_verdicts env ctx ti)) d"
    unfolding control_verdicts_def append.simps using assms tb
    by (intro ks.control_step [where vs = "\<lambda>ra. control_verdict tb_check (ra_timed_breaker ra) ?now
         # control_verdict lg_check (ra_loss_gate ra) ?now # gate_verdicts env ctx ti"]) simp_all
  finally show ?thesis by (simp add: Inr)
qed (simp add: evaluate_with_state_def)

text \<open>A desk whose kill switch is on, as the sample for the laws below.\<close>

definition halted_desk :: authority where
  "halted_desk = RiskAuthority_new (Some (ks_trip None (KillSwitch_new ''ERR_KILL_SWITCH'')))
     (Some \<lparr>tb_threshold = 1, tb_cooldown_hours = lit 24 1, tb_loss_streak = 0, tb_tripped_at = None,
        tb_tripped = False\<rparr>)
     (Some \<lparr>lg_max_losses = 1, lg_window_trades = 2, lg_history = [True]\<rparr>) None"

lemma halted_desk_hands_off: "hands_off halted_desk"
  by (simp add: halted_desk_def hands_off_def RiskAuthority_new_def)

text \<open>C5. With a callback that does not edit decisions, the stateful evaluation decides as the first
  rejection (or exception) in the longer chain kill switch, breaker, loss gate, then the six
  stateless verdicts. In particular it is the stateless evaluation when no control is set or
  all of them pass.\<close>

theorem desk_controls_first:
  assumes "hands_off ra"
  shows "sr_decision (evaluate_with_state env ra ctx ti tr) =
     rbind (new_decision True ''OK'' (ti_proposed_cost ti))
       (conclude (first_rejection
          (control_verdicts ra (ti_current_time ti) @ gate_verdicts env ctx ti)))"
  using assms by (rule evaluate_with_state_chain)

theorem desk_controls_first_witness:
  "sr_decision (evaluate_with_state sample_env halted_desk default_context sample_inputs [])
     = Inr \<lparr>approved = False, reason_code = ''ERR_KILL_SWITCH'', suggested_size = PyFloat (lit 100 1)\<rparr>"
proof -
  have "control_verdicts halted_desk None ! 0 = Inr (Some ''ERR_KILL_SWITCH'')"
    by (simp add: control_verdicts_def control_verdict_def halted_desk_def RiskAuthority_new_def
        ks_trip_def KillSwitch_new_def ks_check_def verdict_of_def g_reject_def)
  then have "first_rejection (control_verdicts halted_desk None @ vs) = Inr (Some ''ERR_KILL_SWITCH'')" for vs
    by (simp add: control_verdicts_def)
  then show ?thesis
    unfolding desk_controls_first [OF halted_desk_hands_off]
    by (simp add: sample_inputs_def sample_cost conclude_def reject_def)
qed

text \<open>While the kill switch is tripped no gate runs and no trace is written; the trade is
  rejected with the switch's reason, unless the callback fires for it, in which case the
  decision returned is whatever the callback made of the rejection.\<close>

lemma kill_switch_halts:
  assumes "ra_kill_switch ra = Some ks" and "ks_tripped ks" and "num_finite (ti_proposed_cost ti)"
  shows "let d = \<lparr>approved = False, reason_code = ks_reason ks, suggested_size = ti_proposed_cost ti\<rparr>
    in sr_decision (evaluate_with_state env ra ctx ti tr) =
      Inr (case ra_on_trip ra of None \<Rightarrow> d
           | Some cb \<Rightarrow> if ra_last_trip_reason ra = Some (ks_reason ks) then d else fst (cb d))
    \<and> sr_log (evaluate_with_state env ra ctx ti tr) = tr"
proof -
  have put: "ra\<lparr>ra_kill_switch := Some ks\<rparr> = ra" using assms(1) by simp
  show ?thesis
    using assms(1,2) new_decision_ok [OF assms(3), of True "''OK''"]
    by (auto simp: evaluate_with_state_def control_or_return_def ks_check_def g_reject_def
        maybe_fire_trip_def reject_def put Let_def split: option.splits)
qed

section \<open>A session\<close>

text \<open>Everything a desk does with an authority: work the controls, feed results, evaluate.\<close>

datatype desk_event =
    KillTrip "pydatetime option"
  | KillReset
  | BreakerReset
  | GateReset
  | Resolved pynum "pydatetime option"
  | Evaluate engine_env risk_context trade_inputs

text \<open>The reason for which a control, and not a gate, rejects an evaluation.\<close>

definition halt_reason :: "authority \<Rightarrow> trade_inputs \<Rightarrow> string option" where
  "halt_reason ra ti =
     (case new_decision True ''OK'' (ti_proposed_cost ti) of
        Inl e \<Rightarrow> None
      | Inr d \<Rightarrow> (case first_rejection (control_verdicts ra (ti_current_time ti)) of
                   Inr (Some c) \<Rightarrow> Some c
                 | _ \<Rightarrow> None))"

text \<open>One event: the authority afterwards, and the calls of the callback it caused.\<close>

fun desk_step :: "desk_event \<Rightarrow> authority \<Rightarrow> authority \<times> risk_decision list" where
  "desk_step (KillTrip t) ra = (ra\<lparr>ra_kill_switch := map_option (ks_trip t) (ra_kill_switch ra)\<rparr>, [])"
| "desk_step KillReset ra = (ra\<lparr>ra_kill_switch := map_option ks_reset (ra_kill_switch ra)\<rparr>, [])"
| "desk_step BreakerReset ra = (ra\<lparr>ra_timed_breaker := map_option tb_reset (ra_timed_breaker ra)\<rparr>, [])"
| "desk_step GateReset ra = (ra\<lparr>ra_loss_gate := map_option lg_reset (ra_loss_gate ra)\<rparr>, [])"
| "desk_step (Resolved p t) ra = (record_resolved_trade p t ra, [])"
| "desk_step (Evaluate env ctx ti) ra =
     (sr_authority (evaluate_with_state env ra ctx ti []),
      sr_calls (evaluate_with_state env ra ctx ti []))"

fun run_desk :: "desk_event list \<Rightarrow> authority \<Rightarrow> authority \<times> risk_decision list" where
  "run_desk [] ra = (ra, [])"
| "run_desk (e # es) ra =
     (let (ra1, calls1) = desk_step e ra; (ra2, calls2) = run_desk es ra1
      in (ra2, calls1 @ calls2))"

fun halt_reasons :: "desk_event list \<Rightarrow> authority \<Rightarrow> string list" where
  "halt_reasons [] ra = []"
| "halt_reasons (e # es) ra =
     (case e of
        Evaluate env ctx ti \<Rightarrow>
          (case halt_reason ra ti of None \<Rightarrow> [] | Some c \<Rightarrow> [c]) @ halt_reasons es (fst (desk_step e ra))
      | _ \<Rightarrow> halt_reasons es (fst (desk_step e ra)))"

section \<open>When the callback fires\<close>

definition fired :: "string option res \<Rightarrow> string option \<Rightarrow> risk_decision \<Rightarrow> risk_decision list" where
  "fired v prev d =
     (case v of Inr (Some c) \<Rightarrow> if prev = Some c then [] else [reject c d] | _ \<Rightarrow> [])"

definition last_after :: "string option res \<Rightarrow> string option \<Rightarrow> string option" where
  "last_after v prev = (case v of Inr (Some c) \<Rightarrow> Some c | _ \<Rightarrow> prev)"

lemma fired_simps [simp]:
  "fired (Inl e) prev d = []" "fired (Inr None) prev d = []"
  "fired (Inr (Some c)) prev d = (if prev = Some c then [] else [reject c d])"
  "last_after (Inl e) prev = prev" "last_after (Inr None) prev = prev"
  "last_after (Inr (Some c)) prev = Some c"
  by (simp_all add: fired_def last_after_def)

text \<open>A continuation fires (and remembers) according to the first rejection of \<open>vs\<close>.\<close>

definition fires ::
    "callback \<Rightarrow> risk_decision \<Rightarrow> (risk_decision \<Rightarrow> authority \<Rightarrow> trace_log \<Rightarrow> stateful_result)
      \<Rightarrow> (authority \<Rightarrow> string option res list) \<Rightarrow> bool" where
  "fires cb d k vs \<longleftrightarrow> (\<forall>ra tr. ra_on_trip ra = Some cb \<longrightarrow>
     (let r = k d ra tr; v = first_rejection (vs ra); prev = ra_last_trip_reason ra in
      sr_calls r = fired v prev d \<and> ra_on_trip (sr_authority r) = Some cb
      \<and> ra_last_trip_reason (sr_authority r) = last_after v prev))"

context desk_control
begin

lemma control_fires:
  assumes "fires cb d k vs"
    and "\<And>c ra. vs (put c ra) = vs ra" and "\<And>c ra. ra_on_trip (put c ra) = ra_on_trip ra"
    and "\<And>c ra. ra_last_trip_reason (put c ra) = ra_last_trip_reason ra"
  shows "fires cb d (control_or_return check get put now k)
    (\<lambda>ra. control_verdict check (get ra) now # vs ra)"
  unfolding fires_def Let_def
proof (intro allI impI)
  fix ra :: authority and tr
  assume cb: "ra_on_trip ra = Some cb"
  let ?r = "control_or_return check get put now k d ra tr"
    and ?v = "first_rejection (control_verdict check (get ra) now # vs ra)"
  show "sr_calls ?r = fired ?v (ra_last_trip_reason ra) d \<and> ra_on_trip (sr_authority ?r) = Some cb
      \<and> ra_last_trip_reason (sr_authority ?r) = last_after ?v (ra_last_trip_reason ra)"
  proof (cases "get ra")
    case None
    then show ?thesis
      using assms(1) cb by (simp add: control_or_return_def control_verdict_def fires_def Let_def)
  next
    case (Some c)
    show ?thesis
      using Some assms cb
      by (cases rule: verdict_cases [where s = c and d = d and t = now])
        (simp_all add: control_or_return_def control_verdict_def fires_def maybe_fire_trip_def Let_def)
  qed
qed

end

lemma evaluate_with_state_fires:
  fixes env ctx tr
  assumes "ra_on_trip ra = Some cb" and "new_decision True ''OK'' (ti_proposed_cost ti) = Inr d"
  defines "v \<equiv> first_rejection (control_verdicts ra (ti_current_time ti))"
    and "r \<equiv> evaluate_with_state env ra ctx ti tr"
  shows "sr_calls r = fired v (ra_last_trip_reason ra) d" and "ra_on_trip (sr_authority r) = Some cb"
    and "ra_last_trip_reason (sr_authority r) = last_after v (ra_last_trip_reason ra)"
proof -
  let ?now = "ti_current_time ti"
  let ?gates = "\<lambda>d ra tr. case evaluate_stateless env ctx ti tr of (r, tr') \<Rightarrow>
        \<lparr>sr_decision = r, sr_log = tr', sr_authority = ra, sr_calls = []\<rparr>"
  have gates: "fires cb d ?gates (\<lambda>_. [])"
    by (simp add: fires_def case_prod_beta)
  have "fires cb d (control_or_return ks_check ra_kill_switch (\<lambda>k r. r\<lparr>ra_kill_switch := Some k\<rparr>) ?now
       (control_or_return tb_check ra_timed_breaker (\<lambda>b r. r\<lparr>ra_timed_breaker := Some b\<rparr>) ?now
       (control_or_return lg_check ra_loss_gate (\<lambda>g r. r\<lparr>ra_loss_gate := Some g\<rparr>) ?now ?gates)))
       (\<lambda>ra. control_verdicts ra ?now)"
    unfolding control_verdicts_def
    by (intro ks.control_fires tb.control_fires lg.control_fires gates) simp_all
  then show "sr_calls r = fired v (ra_last_trip_reason ra) d" "ra_on_trip (sr_authority r) = Some cb"
    "ra_last_trip_reason (sr_authority r) = last_after v (ra_last_trip_reason ra)"
    using assms(1,2) unfolding fires_def Let_def
    by (simp_all add: evaluate_with_state_def v_def r_def)
qed

text \<open>Reasons reported one after the other, given the last one reported before.\<close>

definition dedup :: "string option \<Rightarrow> string list \<Rightarrow> string list" where
  "dedup prev cs = (case prev of None \<Rightarrow> remdups_adj cs | Some c \<Rightarrow> tl (remdups_adj (c # cs)))"

lemma dedup_simps [simp]:
  "dedup prev [] = []"
  "dedup prev (c # cs) = (if prev = Some c then dedup prev cs else c # dedup (Some c) cs)"
  by (auto simp: dedup_def remdups_adj_Cons split: option.splits list.splits)

lemma desk_step_callback:
  assumes "ra_on_trip ra = Some cb"
  shows "ra_on_trip (fst (desk_step e ra)) = Some cb
    \<and> (case e of
         Evaluate env ctx ti \<Rightarrow>
           map reason_code (snd (desk_step e ra)) =
             (case halt_reason ra ti of
                None \<Rightarrow> [] | Some c \<Rightarrow> if ra_last_trip_reason ra = Some c then [] else [c])
           \<and> ra_last_trip_reason (fst (desk_step e ra)) =
             (case halt_reason ra ti of None \<Rightarrow> ra_last_trip_reason ra | Some c \<Rightarrow> Some c)
       | _ \<Rightarrow> snd (desk_step e ra) = []
           \<and> ra_last_trip_reason (fst (desk_step e ra)) = ra_last_trip_reason ra)"
proof (cases e)
  case (Evaluate env ctx ti)
  show ?thesis
  proof (cases "new_decision True ''OK'' (ti_proposed_cost ti)")
    case (Inl x)
    then show ?thesis
      using assms by (simp add: Evaluate evaluate_with_state_def halt_reason_def)
  next
    case (Inr d)
    show ?thesis
      using evaluate_with_state_fires [OF assms Inr, of env ctx "[]"]
      by (auto simp: Evaluate halt_reason_def Inr split: sum.splits option.splits)
  qed
qed (use assms in \<open>simp_all add: record_resolved_trade_def\<close>)

lemma run_desk_calls:
  "ra_on_trip ra = Some cb \<Longrightarrow>
     map reason_code (snd (run_desk es ra)) = dedup (ra_last_trip_reason ra) (halt_reasons es ra)"
proof (induction es arbitrary: ra)
  case (Cons e es)
  note step = desk_step_callback [OF Cons.prems, of e]
  have "map reason_code (snd (run_desk es (fst (desk_step e ra))))
      = dedup (ra_last_trip_reason (fst (desk_step e ra))) (halt_reasons es (fst (desk_step e ra)))"
    using Cons.IH step by blast
  then show ?case
    using step by (cases e) (auto simp: case_prod_beta Let_def split: option.splits)
qed simp

text \<open>C24. Over a whole session of a new authority the callback is called for exactly the halted
  evaluations whose reason differs from that of the halted evaluation before: the reasons of
  its calls are the reasons of the halts with adjacent repetitions dropped. So it fires again
  when a reason comes back after another one, and does not fire again when the same control
  trips anew after a reset.\<close>

theorem on_trip_fires_on_change:
  "map reason_code (snd (run_desk es (RiskAuthority_new ks tb lg (Some cb))))
     = remdups_adj (halt_reasons es (RiskAuthority_new ks tb lg (Some cb)))"
  using run_desk_calls [of "RiskAuthority_new ks tb lg (Some cb)" cb es]
  by (simp add: RiskAuthority_new_def dedup_def)

section \<open>The invariant of an authority in use\<close>

definition authority_inv :: "authority \<Rightarrow> bool" where
  "authority_inv ra \<longleftrightarrow> pred_option tb_inv (ra_timed_breaker ra) \<and> pred_option lg_inv (ra_loss_gate ra)"

text \<open>A continuation keeps a property of the authority.\<close>

definition keeps ::
    "(authority \<Rightarrow> bool) \<Rightarrow> (risk_decision \<Rightarrow> authority \<Rightarrow> trace_log \<Rightarrow> stateful_result) \<Rightarrow> bool" where
  "keeps P k \<longleftrightarrow> (\<forall>d ra tr. P ra \<longrightarrow> P (sr_authority (k d ra tr)))"

lemma keeps_control:
  assumes "keeps P k" and "\<And>ra d. P (fst (maybe_fire_trip ra d)) = P ra"
    and "\<And>c ra d. get ra = Some c \<Longrightarrow> P ra \<Longrightarrow> P (put (snd (check c d now)) ra)"
  shows "keeps P (control_or_return check get put now k)"
  unfolding keeps_def
proof (intro allI impI)
  fix d :: risk_decision and ra :: authority and tr
  assume inv: "P ra"
  show "P (sr_authority (control_or_return check get put now k d ra tr))"
  proof (cases "get ra")
    case (Some c)
    have put: "P (put (snd (check c d now)) ra)" by (rule assms(3) [OF Some inv])
    obtain res c' where chk: "check c d now = (res, c')" by (cases "check c d now")
    have "P (fst (maybe_fire_trip (put c' ra) d'))" for d' using put chk assms(2) by simp
    then show ?thesis
      using Some assms(1) put chk
      by (auto simp: control_or_return_def keeps_def case_prod_beta split: sum.splits bool.splits)
  qed (use assms(1) inv in \<open>simp add: control_or_return_def keeps_def\<close>)
qed

lemma evaluate_with_state_keeps:
  assumes "P ra" and "\<And>ra d. P (fst (maybe_fire_trip ra d)) = P ra"
    and "\<And>c ra d. ra_kill_switch ra = Some c \<Longrightarrow> P ra
      \<Longrightarrow> P (ra\<lparr>ra_kill_switch := Some (snd (ks_check c d (ti_current_time ti)))\<rparr>)"
    and "\<And>c ra d. ra_timed_breaker ra = Some c \<Longrightarrow> P ra
      \<Longrightarrow> P (ra\<lparr>ra_timed_breaker := Some (snd (tb_check c d (ti_current_time ti)))\<rparr>)"
    and "\<And>c ra d. ra_loss_gate ra = Some c \<Longrightarrow> P ra
      \<Longrightarrow> P (ra\<lparr>ra_loss_gate := Some (snd (lg_check c d (ti_current_time ti)))\<rparr>)"
  shows "P (sr_authority (evaluate_with_state env ra ctx ti tr))"
proof (cases "new_decision True ''OK'' (ti_proposed_cost ti)")
  case (Inr d)
  let ?now = "ti_current_time ti"
  have "keeps P (control_or_return ks_check ra_kill_switch (\<lambda>k r. r\<lparr>ra_kill_switch := Some k\<rparr>) ?now
       (control_or_return tb_check ra_timed_breaker (\<lambda>b r. r\<lparr>ra_timed_breaker := Some b\<rparr>) ?now
       (control_or_return lg_check ra_loss_gate (\<lambda>g r. r\<lparr>ra_loss_gate := Some g\<rparr>) ?now
       (\<lambda>d ra tr. case evaluate_stateless env ctx ti tr of (r, tr') \<Rightarrow>
        \<lparr>sr_decision = r, sr_log = tr', sr_authority = ra, sr_calls = []\<rparr>))))"
    by (intro keeps_control assms(2-5)) (simp_all add: keeps_def case_prod_beta)
  then show ?thesis using assms(1) by (simp add: evaluate_with_state_def Inr keeps_def)
qed (use assms in \<open>simp add: evaluate_with_state_def\<close>)

lemma maybe_fire_trip_inv [simp]: "authority_inv (fst (maybe_fire_trip ra d)) = authority_inv ra"
  by (auto simp: maybe_fire_trip_def authority_inv_def split: option.splits)

lemma tb_check_inv: "tb_inv b \<Longrightarrow> tb_inv (snd (tb_check b d now))"
  using tb_check_state [of b d now] tb_reset_inv by auto

lemma evaluate_with_state_inv:
  assumes "authority_inv ra"
  shows "authority_inv (sr_authority (evaluate_with_state env ra ctx ti tr))"
  by (rule evaluate_with_state_keeps [OF assms maybe_fire_trip_inv])
    (auto simp: authority_inv_def tb_check_inv)

lemma desk_step_inv: "authority_inv ra \<Longrightarrow> authority_inv (fst (desk_step e ra))"
  by (cases e)
    (auto simp: evaluate_with_state_inv, auto simp: authority_inv_def record_resolved_trade_def
      tb_reset_inv lg_reset_inv tb_record_inv lg_record_inv option.pred_map
      elim: option.pred_mono_strong)

lemma run_desk_inv: "authority_inv ra \<Longrightarrow> authority_inv (fst (run_desk es ra))"
  by (induction es arbitrary: ra) (auto simp: case_prod_beta Let_def desk_step_inv)

lemma halted_desk_inv: "authority_inv halted_desk" "hands_off halted_desk"
  "pred_option tb_inv (ra_timed_breaker halted_desk)" "pred_option lg_inv (ra_loss_gate halted_desk)"
proof -
  have "tb_inv \<lparr>tb_threshold = 1, tb_cooldown_hours = lit 24 1, tb_loss_streak = 0,
      tb_tripped_at = None, tb_tripped = False\<rparr>" by code_simp
  then show tb: "pred_option tb_inv (ra_timed_breaker halted_desk)"
    by (simp add: halted_desk_def RiskAuthority_new_def)
  show lg: "pred_option lg_inv (ra_loss_gate halted_desk)"
    by (simp add: halted_desk_def RiskAuthority_new_def lg_inv_def)
  show "authority_inv halted_desk" using tb lg by (simp add: authority_inv_def)
  show "hands_off halted_desk" by (simp add: halted_desk_def hands_off_def RiskAuthority_new_def)
qed

text \<open>C30. The invariants of the breaker and of the loss gate hold throughout any session of an
  authority that starts with them.\<close>

theorem session_keeps_invariant:
  assumes "pred_option tb_inv tb" and "pred_option lg_inv lg"
  shows "authority_inv (fst (run_desk es (RiskAuthority_new ks tb lg cb)))"
  using assms by (intro run_desk_inv) (simp add: authority_inv_def RiskAuthority_new_def)

theorem session_keeps_invariant_witness:
  "authority_inv (fst (run_desk [Resolved (PyFloat (lit (-1) 1)) None,
     Evaluate sample_env default_context sample_inputs] (RiskAuthority_new None
       (ra_timed_breaker halted_desk) (ra_loss_gate halted_desk) None)))"
  by (rule session_keeps_invariant) (fact halted_desk_inv)+

section \<open>Snapshots\<close>

lemma snapshot_restores:
  assumes "authority_inv ra"
  shows "\<exists>st. snapshot_state ra ctx = Inr st \<and> context_of st = ctx
    \<and> authority_from_state st cb = Inr (ra\<lparr>ra_on_trip := cb, ra_last_trip_reason := None\<rparr>)"
proof -
  obtain ks where ks: "map_opt_res (\<lambda>k. Inr (ks_to_state k)) (ra_kill_switch ra) = Inr ks"
    "map_opt_res (\<lambda>k. Inr (ks_from_state k)) ks = Inr (ra_kill_switch ra)"
    using ks_snap.opt_roundtrip [of "ra_kill_switch ra"] by (cases "ra_kill_switch ra") auto
  obtain tb where tb: "map_opt_res tb_to_state (ra_timed_breaker ra) = Inr tb"
    "map_opt_res tb_from_state tb = Inr (ra_timed_breaker ra)"
    using tb_snap.opt_roundtrip assms by (auto simp: authority_inv_def)
  obtain lg where lg: "map_opt_res lg_to_state (ra_loss_gate ra) = Inr lg"
    "map_opt_res lg_from_state lg = Inr (ra_loss_gate ra)"
    using lg_snap.opt_roundtrip assms by (auto simp: authority_inv_def)
  show ?thesis
    by (simp add: snapshot_state_def ks tb lg RiskState_new_def authority_from_state_def
        RiskAuthority_new_def)
qed

text \<open>C23. At any point of a session the state of the authority can be captured, and restoring it
  gives the same authority except for the callback (which the caller supplies) and the memory
  of the last reason it was called for, which is not part of a snapshot.\<close>

theorem snapshot_round_trip:
  assumes "pred_option tb_inv tb" and "pred_option lg_inv lg"
  shows "let ra = fst (run_desk es (RiskAuthority_new ks tb lg cb))
    in \<exists>st. snapshot_state ra ctx = Inr st \<and> context_of st = ctx
     \<and> authority_from_state st cb' = Inr (ra\<lparr>ra_on_trip := cb', ra_last_trip_reason := None\<rparr>)"
  unfolding Let_def using assms
  by (intro snapshot_restores run_desk_inv) (simp add: authority_inv_def RiskAuthority_new_def)

theorem snapshot_round_trip_witness:
  "let ra = fst (run_desk [Resolved (PyFloat (lit (-1) 1)) None] (RiskAuthority_new None
       (ra_timed_breaker halted_desk) (ra_loss_gate halted_desk) None))
   in \<exists>st. snapshot_state ra default_context = Inr st \<and> context_of st = default_context
     \<and> authority_from_state st None = Inr (ra\<lparr>ra_on_trip := None, ra_last_trip_reason := None\<rparr>)"
  by (rule snapshot_round_trip) (fact halted_desk_inv)+

lemma control_verdicts_restored [simp]:
  "control_verdicts (ra\<lparr>ra_on_trip := cb, ra_last_trip_reason := c\<rparr>) now = control_verdicts ra now"
  by (simp add: control_verdicts_def)

text \<open>A restart is transparent: the restored authority decides every trade as the original
  would have, provided neither callback edits decisions.\<close>

lemma restart_transparent:
  assumes "authority_inv ra" and "hands_off ra" and "\<forall>f d. cb = Some f \<longrightarrow> fst (f d) = d"
  shows "\<exists>st ra'. snapshot_state ra policy = Inr st \<and> authority_from_state st cb = Inr ra'
    \<and> (\<forall>env ctx ti tr. sr_decision (evaluate_with_state env ra' ctx ti tr)
         = sr_decision (evaluate_with_state env ra ctx ti tr))"
proof -
  obtain st where st: "snapshot_state ra policy = Inr st"
    "authority_from_state st cb = Inr (ra\<lparr>ra_on_trip := cb, ra_last_trip_reason := None\<rparr>)"
    using snapshot_restores [OF assms(1)] by blast
  have "hands_off (ra\<lparr>ra_on_trip := cb, ra_last_trip_reason := None\<rparr>)"
    using assms(3) by (simp add: hands_off_def)
  then show ?thesis
    using st assms(2) by (intro exI [of _ st] exI conjI) (auto simp: evaluate_with_state_chain)
qed

section \<open>Results that are integers\<close>

text \<open>Results given as Python integers are never counted: any sequence of them, however many
  and however large the losses, leaves every control of the authority as it was.\<close>

lemma integer_results_ignored:
  "fold (\<lambda>(n, t). record_resolved_trade (PyInt n) t) rs ra = ra"
proof (induction rs arbitrary: ra)
  case (Cons r rs)
  have "record_resolved_trade (PyInt n) t ra = ra" for n t
    by (cases "ra_timed_breaker ra"; cases "ra_loss_gate ra")
      (simp_all add: record_resolved_trade_def tb_record_def lg_record_def)
  then show ?case using Cons.IH by (simp add: case_prod_beta)
qed simp

end
