(* ===== verification/Rounding.thy ===== *)
theory Rounding
  imports PyNum
begin

text \<open>
  How far a rounded result is from the exact one: half a unit in the last place, which is a
  relative error of at most \<open>2^-53\<close> plus, for results below the normal range, an absolute one
  of at most \<open>2^-1075\<close>. Sums of floats and conversions of integers have no absolute part.
\<close>

definition uround :: real where
  "uround = 2 powi (-53)"

definition tiny :: real where
  "tiny = 2 powi (-1075)"

lemma uround_bounds: "0 < uround" "uround \<le> 1 / 2 ^ 53" "uround < 1"
  by (simp_all add: uround_def power_int_def power_divide)

lemma tiny_bounds: "0 < tiny" "tiny \<le> 2 powi (-1000) * uround"
  using power_int_increasing [of "-1075" "-1053" "2 :: real"]
  by (simp_all add: tiny_def uround_def flip: two_powi_add)

lemma half_grid:
  assumes "0 < v"
  shows "2 powi grid v / 2 \<le> uround * v + tiny"
    and "grid v \<noteq> -1074 \<Longrightarrow> 2 powi grid v / 2 \<le> uround * v"
proof -
  have half: "2 powi k / 2 = (2 powi (k - 1) :: real)" for k by (simp add: two_powi_diff)
  have v: "2 powi ilog2 v \<le> v" using ilog2_bounds(1) [OF assms] .
  have "2 powi (ilog2 v - 52 - 1) = uround * 2 powi ilog2 v"
    using two_powi_add [of "-53" "ilog2 v"] by (simp add: uround_def)
  also have "\<dots> \<le> uround * v" using v uround_bounds(1) by (intro mult_left_mono) simp_all
  finally have normal: "2 powi (ilog2 v - 52 - 1) \<le> uround * v" .
  have pos: "0 < uround * v" using assms uround_bounds(1) by simp
  show "2 powi grid v / 2 \<le> uround * v + tiny"
    unfolding half grid_def
    using normal pos tiny_bounds(1) by (cases "-1074 \<le> ilog2 v - 52") (simp_all add: max_def tiny_def)
  show "2 powi grid v / 2 \<le> uround * v" if "grid v \<noteq> -1074"
    using that normal unfolding half grid_def by (simp add: max_def split: if_splits)
qed

lemma mag_error:
  assumes "0 < v"
  shows "\<bar>mag v - v\<bar> \<le> 2 powi grid v / 2"
proof -
  let ?g = "2 powi grid v :: real"
  have "mag v - v = (of_int (rne_real (v / ?g)) - v / ?g) * ?g"
    using assms by (simp add: mag_def left_diff_distrib)
  then have "\<bar>mag v - v\<bar> = \<bar>of_int (rne_real (v / ?g)) - v / ?g\<bar> * ?g"
    by (simp add: abs_mult)
  also have "\<dots> \<le> 1 / 2 * ?g" by (intro mult_right_mono rne_real_error) simp
  finally show ?thesis by simp
qed

text \<open>A whole number of the smallest subnormal is not rounded on the subnormal grid.\<close>

lemma mag_exact:
  assumes "0 < v" and "v = of_int k * 2 powi (-1074)" and "grid v = -1074"
  shows "mag v = v"
  using assms by (simp add: mag_def)

lemma approx_finite:
  assumes "approx x v" and "is_finite x"
  shows "fval x = sgn v * mag \<bar>v\<bar>"
  using assms by (cases x) (auto simp: approx_def simp del: fval.simps)

lemma signed_error: "\<bar>sgn v * mag \<bar>v\<bar> - v\<bar> = (if v = 0 then 0 else \<bar>mag \<bar>v\<bar> - \<bar>v\<bar>\<bar>)"
  by (auto simp: sgn_if abs_if)

lemma approx_error:
  assumes "approx x v" and "is_finite x"
  shows "\<bar>fval x - v\<bar> \<le> uround * \<bar>v\<bar> + tiny"
proof (cases "v = 0")
  case False
  then show ?thesis
    using mag_error [of "\<bar>v\<bar>"] half_grid(1) [of "\<bar>v\<bar>"] approx_finite [OF assms] signed_error [of v]
    by simp
qed (use approx_finite [OF assms] tiny_bounds in simp)

lemma approx_error_whole:
  assumes "approx x v" and "is_finite x" and "v = of_int k * 2 powi (-1074)"
  shows "\<bar>fval x - v\<bar> \<le> uround * \<bar>v\<bar>"
proof (cases "v = 0")
  case False
  have whole: "\<bar>v\<bar> = of_int \<bar>k\<bar> * 2 powi (-1074)" using assms(3) by (simp add: abs_mult)
  have "\<bar>mag \<bar>v\<bar> - \<bar>v\<bar>\<bar> \<le> uround * \<bar>v\<bar>"
  proof (cases "grid \<bar>v\<bar> = -1074")
    case True
    then show ?thesis using mag_exact [OF _ whole] False uround_bounds(1) by simp
  next
    case sub: False
    then show ?thesis using mag_error [of "\<bar>v\<bar>"] half_grid(2) [of "\<bar>v\<bar>"] False by simp
  qed
  then show ?thesis using approx_finite [OF assms(1,2)] signed_error [of v] False by simp
qed (use approx_finite [OF assms(1,2)] in simp)

lemma fval_whole:
  assumes "canonical x" and "is_finite x"
  obtains k where "fval x = of_int k * 2 powi (-1074)"
proof -
  obtain s m e where x: "x = Fin s m e" and e: "-1074 \<le> e"
    using assms by (cases x) (auto simp: canonical_def)
  have "0 \<le> e + 1074" using e by simp
  then have "(2::real) ^ nat (e + 1074) = 2 powi (e + 1074)" by (rule two_powi_nat)
  then have "(2::real) powi e = 2 ^ nat (e + 1074) * 2 powi (-1074)"
    using two_powi_add [of "e + 1074" "-1074"] by (simp only: add.assoc add.right_inverse add_0_right)
  then have "fval x = of_int (sgn_int s m * 2 ^ nat (e + 1074)) * 2 powi (-1074)"
    by (simp add: x)
  then show thesis using that by blast
qed

lemma fadd_error:
  assumes "canonical x" "canonical y" "is_finite x" "is_finite y" "is_finite (fadd x y)"
  shows "\<bar>fval (fadd x y) - (fval x + fval y)\<bar> \<le> uround * \<bar>fval x + fval y\<bar>"
proof -
  obtain j k where "fval x = of_int j * 2 powi (-1074)" "fval y = of_int k * 2 powi (-1074)"
    using fval_whole assms by metis
  then have "fval x + fval y = of_int (j + k) * 2 powi (-1074)" by (simp add: algebra_simps)
  then show ?thesis using approx_error_whole [OF fadd_approx] assms by blast
qed

lemma to_float_error:
  assumes "num_ok a" and "to_float a = Inr x" and "is_finite x"
  shows "\<bar>fval x - num_value a\<bar> \<le> uround * \<bar>num_value a\<bar>"
proof (cases a)
  case (PyInt n)
  have "(2::real) ^ 1074 * 2 powi (-1074) = 1"
    using two_powi_nat [of 1074] two_powi_add [of 1074 "-1074"]
    by (simp only: nat_numeral add.right_inverse power_int_0_right zero_le_numeral)
  then have "num_value a = of_int (n * 2 ^ 1074) * 2 powi (-1074)"
    by (simp only: PyInt num_value.simps of_int_mult of_int_power of_int_numeral mult.assoc
        mult_1_right)
  then show ?thesis using approx_error_whole to_float_approx assms by blast
next
  case (PyFloat y)
  then show ?thesis using assms uround_bounds(1) by simp
qed

text \<open>For non-negative values: the result is at least the exact one less its share.\<close>

lemma error_lower: "\<bar>a - v\<bar> \<le> uround * \<bar>v\<bar> \<Longrightarrow> 0 \<le> v \<Longrightarrow> (1 - uround) * v \<le> a"
  by (simp add: algebra_simps abs_le_iff)

end
