(* ===== verification/ExposureLaws.thy ===== *)
theory ExposureLaws
  imports GateLaws Rounding
begin

text \<open>
  What the concentration gate guarantees about the exact exposure. The gate sums the cost bases
  as floats, in the order of the list; an approval bounds the exact sum, up to the rounding of
  each conversion and addition.
\<close>

lemma f64_zero_value: "fval f64_zero = 0"
  by (simp add: f64_zero_def)

section \<open>Rounded sums of non-negative floats\<close>

lemma foldl_fadd_inf: "\<forall>x \<in> set xs. is_finite x \<Longrightarrow> foldl fadd (Inf False) xs = Inf False"
proof (induction xs)
  case (Cons x xs)
  then show ?case by (cases x) simp_all
qed simp

lemma one_minus_uround: "0 < 1 - uround" "1 - uround < 1"
  using uround_bounds by simp_all

lemma fadd_nonneg:
  assumes "canonical S" "canonical x" "is_finite S" "is_finite x" "0 \<le> fval S" "0 \<le> fval x"
  shows "fadd S x = Inf False
    \<or> is_finite (fadd S x) \<and> 0 \<le> fval (fadd S x) \<and> (1 - uround) * (fval S + fval x) \<le> fval (fadd S x)"
proof (cases "is_finite (fadd S x)")
  case True
  then have low: "(1 - uround) * (fval S + fval x) \<le> fval (fadd S x)"
    using error_lower [OF fadd_error] assms by simp
  have "0 \<le> (1 - uround) * (fval S + fval x)" using assms(5,6) one_minus_uround(1) by simp
  then show ?thesis using True low by linarith
next
  case False
  have "fle S (fadd S x)" using assms by (intro approx_ge_float [OF fadd_approx]) simp_all
  then show ?thesis using False assms(3) by (cases S; cases "fadd S x") auto
qed

text \<open>A sum overflows or is at least the exact sum, less one rounding for each addition.\<close>

lemma foldl_fadd_lower:
  assumes "canonical S" "is_finite S" "0 \<le> fval S"
    and "\<forall>x \<in> set xs. canonical x \<and> is_finite x \<and> 0 \<le> fval x"
  shows "foldl fadd S xs = Inf False
    \<or> is_finite (foldl fadd S xs) \<and> 0 \<le> fval (foldl fadd S xs)
      \<and> (1 - uround) ^ length xs * (fval S + sum_list (map fval xs)) \<le> fval (foldl fadd S xs)"
  using assms
proof (induction xs arbitrary: S)
  case (Cons x xs)
  let ?q = "1 - uround" and ?s = "sum_list (map fval xs)"
  have x: "canonical x" "is_finite x" "0 \<le> fval x" and xs: "\<forall>x \<in> set xs. is_finite x"
    using Cons.prems(4) by auto
  show ?case
  proof (cases "fadd S x = Inf False")
    case True
    then show ?thesis using foldl_fadd_inf [OF xs] by simp
  next
    case False
    then have new: "is_finite (fadd S x)" "0 \<le> fval (fadd S x)" "?q * (fval S + fval x) \<le> fval (fadd S x)"
      using fadd_nonneg [of S x] Cons.prems(1-3) x by blast+
    have s: "0 \<le> ?s" using Cons.prems(4) by (intro sum_list_nonneg) auto
    have "?q * ?s \<le> ?s"
      using mult_right_mono [of ?q 1, OF _ s] uround_bounds(1) by simp
    then have "?q * (fval S + (fval x + ?s)) \<le> fval (fadd S x) + ?s"
      using new(3) by (simp add: distrib_left)
    then have "?q ^ length xs * (?q * (fval S + (fval x + ?s)))
        \<le> ?q ^ length xs * (fval (fadd S x) + ?s)"
      using one_minus_uround(1) by (intro mult_left_mono) simp_all
    moreover have "?q ^ length (x # xs) * (fval S + sum_list (map fval (x # xs)))
        = ?q ^ length xs * (?q * (fval S + (fval x + ?s)))"
      by (simp add: algebra_simps)
    moreover have "foldl fadd (fadd S x) xs = Inf False
      \<or> is_finite (foldl fadd (fadd S x) xs) \<and> 0 \<le> fval (foldl fadd (fadd S x) xs)
      \<and> ?q ^ length xs * (fval (fadd S x) + ?s) \<le> fval (foldl fadd (fadd S x) xs)"
      using Cons.prems new x by (intro Cons.IH) auto
    ultimately show ?thesis
      unfolding foldl_Cons by (metis order_trans)
  qed
qed simp

section \<open>The exact exposure behind an approval\<close>

text \<open>What the open positions of a family cost, exactly.\<close>

definition exact_exposure :: "string \<Rightarrow> position list \<Rightarrow> real" where
  "exact_exposure fam ps =
     sum_list (map (\<lambda>pos. num_value (cost_basis pos)) (filter (in_family fam) ps))"

lemma cost_float_lower:
  assumes "num_ok (cost_basis pos)" "num_finite (cost_basis pos)" "0 \<le> num_value (cost_basis pos)"
  shows "(1 - uround) * num_value (cost_basis pos) \<le> fval (cost_float pos)"
proof -
  obtain x where "to_float (cost_basis pos) = Inr x" "is_finite x"
    using assms(2) by (elim num_finiteD)
  then show ?thesis
    using error_lower [OF to_float_error] assms(1,3) by (simp add: cost_float_def)
qed

lemma sum_cost_lower:
  assumes "\<forall>pos \<in> set ps. num_ok (cost_basis pos) \<and> num_finite (cost_basis pos)
    \<and> 0 \<le> num_value (cost_basis pos)"
  shows "(1 - uround) * sum_list (map (\<lambda>pos. num_value (cost_basis pos)) ps)
    \<le> sum_list (map (\<lambda>pos. fval (cost_float pos)) ps)"
  using assms by (induction ps) (auto simp: distrib_left intro!: add_mono cost_float_lower)

text \<open>One rounding per cost, one per addition of the sum, and one for the final addition.\<close>

lemma roundings_compose:
  fixes E T S c v :: real
  defines "q \<equiv> 1 - uround"
  assumes "q * E \<le> T" and "q ^ n * T \<le> S" and "q * v \<le> c" and "0 \<le> c"
  shows "q ^ (n + 2) * (E + v) \<le> q * (S + c)"
proof -
  have q: "0 \<le> q" "q \<le> 1" using one_minus_uround by (simp_all add: q_def)
  have "q ^ n * (q * E) \<le> q ^ n * T" using assms(2) q by (intro mult_left_mono) simp_all
  then have sum: "q * (q ^ n * (q * E)) \<le> q * S" using assms(3) q by (intro mult_left_mono) simp_all
  have "q ^ Suc n * (q * v) \<le> q ^ Suc n * c" using assms(4) q by (intro mult_left_mono) simp_all
  also have "\<dots> \<le> q * c"
    using assms(5) q power_decreasing [of 0 n q] by (intro mult_right_mono) (simp_all add: mult_left_le)
  finally have "q ^ Suc n * (q * v) \<le> q * c" .
  then show ?thesis using sum by (simp add: algebra_simps power_add power2_eq_square)
qed

lemma concentration_pass_bound:
  assumes "\<forall>pos \<in> set ps. num_ok (cost_basis pos) \<and> num_finite (cost_basis pos)
      \<and> 0 \<le> num_value (cost_basis pos)"
    and "num_ok cost" "num_finite cost" "0 \<le> num_value cost"
    and "num_finite (max_correlated_exposure ctx)"
    and "evaluate_concentration ctx fam cost ps d = Inr (True, d)"
  shows "(1 - uround) ^ (length (filter (in_family fam) ps) + 2)
      * (exact_exposure fam ps + num_value cost) \<le> num_value (max_correlated_exposure ctx)"
proof -
  let ?q = "1 - uround" and ?fs = "map cost_float (filter (in_family fam) ps)"
  let ?n = "length (filter (in_family fam) ps)" and ?L = "max_correlated_exposure ctx"
  define S where "S = foldl fadd f64_zero ?fs"
  obtain c where c: "to_float cost = Inr c" "is_finite c" using assms(3) by (elim num_finiteD)
  have pass: "\<not> num_lt ?L (PyFloat (fadd S c))"
    using assms(6) concentration_finite [OF _ c assms(5), of ps fam d] assms(1)
    by (auto simp: S_def gate_end_iff split: if_splits)
  have L: "is_finite (num_key ?L)" using assms(5) by (cases ?L) simp_all
  have fs: "\<forall>x \<in> set ?fs. canonical x \<and> is_finite x \<and> 0 \<le> fval x"
  proof
    fix x assume "x \<in> set ?fs"
    then obtain pos where pos: "pos \<in> set ps" "x = cost_float pos" by auto
    have "0 \<le> ?q * num_value (cost_basis pos)" using assms(1) pos(1) one_minus_uround(1) by simp
    then show "canonical x \<and> is_finite x \<and> 0 \<le> fval x"
      using assms(1) pos cost_float_canonical cost_float_finite cost_float_lower [of pos] by force
  qed
  have cc: "canonical c" using canonical_to_float assms(2) c by blast
  have clow: "?q * num_value cost \<le> fval c" using error_lower [OF to_float_error] assms(2,4) c by simp
  then have c0: "0 \<le> fval c"
    using assms(4) one_minus_uround(1) by (meson less_imp_le mult_nonneg_nonneg order_trans)
  have "fadd S c \<noteq> Inf False" using pass L by (cases "num_key ?L") (auto simp: num_lt_def)
  moreover have "S = Inf False \<Longrightarrow> fadd S c = Inf False" using c(2) by (cases c) simp_all
  moreover have "canonical S" using fs by (auto simp: S_def intro!: canonical_foldl_fadd)
  moreover have S: "S = Inf False \<or> is_finite S \<and> 0 \<le> fval S
      \<and> ?q ^ ?n * sum_list (map fval ?fs) \<le> fval S"
    using foldl_fadd_lower [of f64_zero ?fs] fs by (auto simp: S_def f64_zero_value comp_def)
  ultimately have T: "is_finite (fadd S c)" "?q * (fval S + fval c) \<le> fval (fadd S c)"
    and S': "?q ^ ?n * sum_list (map fval ?fs) \<le> fval S"
    using fadd_nonneg [of S c] cc c(2) c0 by blast+
  have "?q * exact_exposure fam ps \<le> sum_list (map fval ?fs)"
    using sum_cost_lower [of "filter (in_family fam) ps"] assms(1)
    by (simp add: exact_exposure_def comp_def)
  then have "?q ^ (?n + 2) * (exact_exposure fam ps + num_value cost) \<le> ?q * (fval S + fval c)"
    by (rule roundings_compose [OF _ S' clow c0])
  also have "\<dots> \<le> fval (fadd S c)" by (rule T(2))
  also have "\<dots> \<le> num_value ?L"
    using pass T(1) assms(5) num_lt_value [of ?L "PyFloat (fadd S c)"] by (simp add: num_finite_def)
  finally show ?thesis .
qed

text \<open>C16. An approved trade keeps the exact exposure within the limit: with non-negative costs, the
  exact sum of the family's open cost bases and the proposed cost, less one part in \<open>2^53\<close> for
  each rounding (one per counted position and two more), does not exceed the limit.\<close>

theorem concentration_exact_bound:
  assumes "\<forall>pos \<in> set ps. num_ok (cost_basis pos) \<and> num_finite (cost_basis pos)
      \<and> 0 \<le> num_value (cost_basis pos)"
    and "num_ok cost" "num_finite cost" "0 \<le> num_value cost"
    and "num_finite (max_correlated_exposure ctx)"
    and "evaluate_concentration ctx fam cost ps d = Inr (True, d)"
  shows "(1 - 2 powi (-53)) ^ (length (filter (in_family fam) ps) + 2)
      * (exact_exposure fam ps + num_value cost) \<le> num_value (max_correlated_exposure ctx)"
  using concentration_pass_bound [OF assms] by (simp add: uround_def)

theorem concentration_exact_bound_witness:
  "(1 - 2 powi (-53)) ^ 2 * (exact_exposure ''FED'' [] + 100)
     \<le> num_value (max_correlated_exposure default_context)"
proof -
  have fin: "num_finite (PyFloat (lit 100 1))" "num_finite (max_correlated_exposure default_context)"
    by code_simp+
  have pass: "evaluate_concentration default_context ''FED'' (PyFloat (lit 100 1)) [] blank_decision
      = Inr (True, blank_decision)"
    by (simp add: sample_concentration default_exposure g_pass_def)
  have "lit 100 1 = Fin False 7036874417766400 (-46)" by code_simp
  then have cost: "num_value (PyFloat (lit 100 1)) = 100" "num_ok (PyFloat (lit 100 1))"
    by (simp_all add: power_int_def power_divide canonical_def)
  have nonneg: "0 \<le> num_value (PyFloat (lit 100 1))" unfolding cost(1) by simp
  have none: "\<forall>pos \<in> set []. num_ok (cost_basis pos) \<and> num_finite (cost_basis pos)
      \<and> 0 \<le> num_value (cost_basis pos)" by simp
  show ?thesis
    using concentration_exact_bound [OF none cost(2) fin(1) nonneg fin(2) pass]
    by (simp only: cost(1) filter.simps list.size add_0)
qed

end
