(* ===== verification/GateBounds.thy ===== *)
theory GateBounds
  imports ExposureLaws LossWindow
begin

text \<open>
  What a pass of each stateless gate says of the exact values of its inputs, for inputs of any
  number type: a pass implies that everything the gate compares is finite, and bounds the exact
  quantity up to the roundings on the way.
\<close>

section \<open>Passing implies finite\<close>

lemma check_finite:
  "math_isnan a = Inr False \<Longrightarrow> math_isinf a = Inr False \<Longrightarrow> num_finite a"
  by (auto simp: math_isnan_def math_isinf_def num_finite_def rbind_eq_Inr)

lemma expected_value_pass:
  assumes "evaluate_expected_value ctx ev d = g_pass d"
  shows "num_finite ev" and "num_finite (min_expected_value ctx)"
    and "num_value (min_expected_value ctx) \<le> num_value ev"
proof -
  from assms show fin: "num_finite ev" "num_finite (min_expected_value ctx)"
    by (auto simp: evaluate_expected_value_def Let_def g_pass_def g_reject_def rbind_eq_Inr
        any_res_Inr_False intro!: check_finite split: if_splits)
  show "num_value (min_expected_value ctx) \<le> num_value ev"
    using assms expected_value_finite [OF fin, of d]
    by (auto simp: g_pass_def g_reject_def num_lt_value [OF fin] split: if_splits)
qed

section \<open>Drawdown\<close>

text \<open>A quotient of two finite numbers rounds the quotient of their float values, which are
  within one rounding of the numbers.\<close>

lemma num_div_rounds:
  assumes "num_div a b = Inr r" and "num_ok a" "num_ok b" "num_finite a" "num_finite b"
    and "0 < num_value b"
  obtains y \<alpha> \<beta> where "r = PyFloat y" "approx y (\<alpha> / \<beta>)" "0 < \<beta>"
    "\<bar>\<alpha> - num_value a\<bar> \<le> uround * \<bar>num_value a\<bar>" "\<bar>\<beta> - num_value b\<bar> \<le> uround * \<bar>num_value b\<bar>"
proof (cases "\<exists>m n. a = PyInt m \<and> b = PyInt n")
  case True
  then obtain m n where mn: "a = PyInt m" "b = PyInt n" by blast
  then have n: "0 < n" using assms(6) by simp
  obtain y where y: "int_truediv m n = Inr y" "r = PyFloat y"
    using assms(1) by (auto simp: mn rbind_eq_Inr)
  have "y = round_f64 ((m < 0) \<noteq> (n < 0)) \<bar>m\<bar> \<bar>n\<bar> 0"
    using y(1) n by (auto simp: int_truediv_def split: f64.splits)
  moreover have "approx (round_f64 (m < 0) \<bar>m\<bar> n 0) (real_of_int (sgn_int (m < 0) \<bar>m\<bar>) / real_of_int n * 2 powi 0)"
    using n by (intro round_f64_approx) simp_all
  ultimately have "approx y (of_int m / of_int n)" using n by (cases "m < 0") simp_all
  then show thesis using that [of y "of_int m" "of_int n"] y(2) n uround_bounds(1) by (simp add: mn)
next
  case False
  obtain x where x: "to_float a = Inr x" "is_finite x" using assms(4) by (elim num_finiteD)
  obtain z where z: "to_float b = Inr z" "is_finite z" using assms(5) by (elim num_finiteD)
  have ea: "\<bar>fval x - num_value a\<bar> \<le> uround * \<bar>num_value a\<bar>" and eb: "\<bar>fval z - num_value b\<bar> \<le> uround * \<bar>num_value b\<bar>"
    using to_float_error assms(2,3) x z by blast+
  have "0 < (1 - uround) * num_value b" using assms(6) uround_bounds(3) by simp
  also have "\<dots> \<le> fval z" using error_lower [OF eb] assms(6) by simp
  finally have pos: "0 < fval z" .
  have "r = PyFloat (fdiv x z)"
    using assms(1) x z False by (cases "(a, b)" rule: num_div.cases) (auto split: if_splits)
  moreover have "approx (fdiv x z) (fval x / fval z)"
    using x z pos canonical_to_float assms(2,3) by (intro fdiv_approx) auto
  ultimately show thesis using that pos ea eb by blast
qed

lemma quotient_share:
  fixes a b v w :: real
  assumes "0 < v" "0 < w" "\<bar>a - v\<bar> \<le> uround * v" "\<bar>b - w\<bar> \<le> uround * w" "0 < b"
  shows "(1 - uround) ^ 2 * (v / w) \<le> a / b"
proof -
  have u: "0 < uround" "uround < 1" using uround_bounds by simp_all
  have b: "b \<le> (1 + uround) * w" using assms(4) by (simp add: algebra_simps abs_le_iff)
  have a: "(1 - uround) * v \<le> a" using assms(3) by (simp add: algebra_simps abs_le_iff)
  have "(1 - uround) * b \<le> (1 - uround) * ((1 + uround) * w)" using b u by (intro mult_left_mono) simp_all
  also have "\<dots> = w - uround * uround * w" by (simp add: algebra_simps)
  also have "\<dots> \<le> w" using u assms(2) by simp
  finally have bw: "(1 - uround) * b \<le> w" .
  have "((1 - uround) * v) * ((1 - uround) * b) \<le> a * w"
    using a bw u assms by (intro mult_mono) (auto intro: order_trans [rotated])
  then show ?thesis using assms by (simp add: field_simps power2_eq_square)
qed

text \<open>Three roundings: of each operand and of the quotient.\<close>

lemma drawdown_pass:
  assumes "evaluate_drawdown ctx p q d = g_pass d" and "num_ok p" "num_ok q"
  shows "0 < num_value q"
    and "num_value p < 0 \<Longrightarrow> (1 - uround) ^ 3 * - num_value p
      \<le> (num_value (max_daily_drawdown_pct ctx) + tiny) * num_value q"
proof -
  let ?L = "max_daily_drawdown_pct ctx"
  have fin: "num_finite p" "num_finite q" "num_finite ?L"
    using assms(1)
    by (auto simp: evaluate_drawdown_def Let_def g_pass_def g_reject_def rbind_eq_Inr
        any_res_Inr_False intro!: check_finite split: if_splits)
  have run: "\<not> num_le q (PyInt 0)" "\<exists>r. num_div p q = Inr r \<and> \<not> num_lt r (num_neg ?L)"
    using assms(1) fin
    by (auto simp: evaluate_drawdown_def Let_def g_pass_def g_reject_def rbind_eq_Inr split: if_splits)
  have zero: "num_finite (PyInt 0)" by code_simp
  show q: "0 < num_value q" using run(1) by (simp add: num_le_value [OF fin(2) zero])
  assume p: "num_value p < 0"
  obtain r where r: "num_div p q = Inr r" "\<not> num_lt r (num_neg ?L)" using run(2) by blast
  obtain y \<alpha> \<beta> where y: "r = PyFloat y" "approx y (\<alpha> / \<beta>)" "0 < \<beta>"
    and e: "\<bar>\<alpha> - num_value p\<bar> \<le> uround * \<bar>num_value p\<bar>" "\<bar>\<beta> - num_value q\<bar> \<le> uround * \<bar>num_value q\<bar>"
    using num_div_rounds [OF r(1) assms(2,3) fin(1,2) q] by blast
  define w where "w = - (\<alpha> / \<beta>)"
  have share: "(1 - uround) ^ 2 * (- num_value p / num_value q) \<le> w"
    unfolding w_def minus_divide_left using e p q y(3) by (intro quotient_share) simp_all
  moreover have "0 < (1 - uround) ^ 2 * (- num_value p / num_value q)"
    using p q uround_bounds(3) by (intro mult_pos_pos divide_pos_pos zero_less_power) simp_all
  ultimately have w: "0 < w" by simp
  then have v: "\<alpha> / \<beta> < 0" by (simp add: w_def)
  have "fle y f64_zero" using v by (intro approx_le_float [OF y(2)]) (simp_all add: f64_zero_value canonical_zero)
  then have "y \<noteq> Inf False" by (auto simp: f64_zero_def)
  moreover have key: "is_finite (num_key (num_neg ?L))" using fin(3) by (cases ?L) simp_all
  have "y \<noteq> Inf True"
    using r(2) key by (cases "num_key (num_neg ?L)") (auto simp: y(1) num_lt_def)
  moreover note this
  ultimately have fy: "is_finite y" using approx_not_NaN [OF y(2)] by (cases y) auto
  have L: "- num_value ?L \<le> fval y"
    using r(2) fin(3) fy num_lt_value [of "PyFloat y" "num_neg ?L"] by (simp add: y(1))
  have "\<bar>fval y - (- w)\<bar> \<le> uround * \<bar>- w\<bar> + tiny"
    using approx_error [OF y(2) fy] by (simp only: w_def minus_minus)
  then have "(1 - uround) * w \<le> num_value ?L + tiny"
    using L w by (simp add: left_diff_distrib abs_le_iff)
  moreover have "(1 - uround) * ((1 - uround) ^ 2 * (- num_value p / num_value q)) \<le> (1 - uround) * w"
    using share uround_bounds(3) by (intro mult_left_mono) simp_all
  moreover have "(1 - uround) ^ 3 * z = (1 - uround) * ((1 - uround) ^ 2 * z)" for z
    by (simp add: power3_eq_cube power2_eq_square)
  ultimately have "(1 - uround) ^ 3 * (- num_value p / num_value q) \<le> num_value ?L + tiny"
    by (metis order_trans)
  then show "(1 - uround) ^ 3 * - num_value p \<le> (num_value ?L + tiny) * num_value q"
    using q by (simp add: field_simps)
qed

section \<open>Concentration\<close>

lemma family_exposure_pass:
  assumes "family_exposure fam acc ps = Inr (Some x)"
  shows "\<forall>pos \<in> set (filter (in_family fam) ps). num_finite (cost_basis pos)"
  using assms
proof (induction ps arbitrary: acc)
  case (Cons pos ps)
  show ?case
  proof (cases "in_family fam pos")
    case True
    then have "any_res [math_isnan (cost_basis pos), math_isinf (cost_basis pos)] = Inr False"
      and rest: "\<exists>acc'. family_exposure fam acc' ps = Inr (Some x)"
      using Cons.prems by (auto simp: in_family_def rbind_eq_Inr simp del: any_res.simps split: if_splits)
    then have "num_finite (cost_basis pos)"
      unfolding any_res_Inr_False by (auto intro: check_finite)
    then show ?thesis using Cons.IH rest by auto
  qed (use Cons in \<open>auto simp: in_family_def\<close>)
qed simp

lemma concentration_pass:
  assumes "evaluate_concentration ctx fam cost ps d = g_pass d" and "num_ok cost" and "0 \<le> num_value cost"
    and "\<forall>pos \<in> set ps. in_family fam pos \<longrightarrow> num_ok (cost_basis pos) \<and> 0 \<le> num_value (cost_basis pos)"
  shows "(1 - uround) ^ (length (filter (in_family fam) ps) + 2)
      * (exact_exposure fam ps + num_value cost) \<le> num_value (max_correlated_exposure ctx)"
proof -
  let ?fs = "filter (in_family fam) ps"
  obtain x where x: "family_exposure fam (PyFloat f64_zero) ps = Inr (Some x)"
    and fin: "num_finite cost" "num_finite (max_correlated_exposure ctx)"
    using assms(1)
    by (auto simp: evaluate_concentration_def Let_def g_pass_def g_reject_def rbind_eq_Inr
        any_res_Inr_False intro!: check_finite split: if_splits option.splits)
  have costs: "\<forall>pos \<in> set ?fs. num_ok (cost_basis pos) \<and> num_finite (cost_basis pos) \<and> 0 \<le> num_value (cost_basis pos)"
    using family_exposure_pass [OF x] assms(4) by auto
  have "evaluate_concentration ctx fam cost ?fs d = Inr (True, d)"
    using assms(1) concentration_ignores_others [of ctx fam cost ps d] by (simp add: g_pass_def)
  from concentration_pass_bound [OF costs assms(2) fin(1) assms(3) fin(2) this]
  show ?thesis by (simp add: exact_exposure_def)
qed

section \<open>Cluster cap\<close>

lemma num_add_lower:
  assumes "num_add a b = Inr t" and "num_ok a" "num_ok b" "num_finite a" "num_finite b"
    and "0 \<le> num_value a" "0 \<le> num_value b"
  shows "t = PyFloat (Inf False) \<or> num_finite t \<and> (1 - uround) ^ 2 * (num_value a + num_value b) \<le> num_value t
    \<or> (\<exists>m n. a = PyInt m \<and> b = PyInt n \<and> t = PyInt (m + n))"
proof (cases "\<exists>m n. a = PyInt m \<and> b = PyInt n")
  case False
  obtain x where x: "to_float a = Inr x" "is_finite x" using assms(4) by (elim num_finiteD)
  obtain z where z: "to_float b = Inr z" "is_finite z" using assms(5) by (elim num_finiteD)
  have t: "t = PyFloat (fadd x z)"
    using assms(1) x z False by (cases "(a, b)" rule: num_add.cases) (auto split: if_splits)
  have low: "(1 - uround) * num_value a \<le> fval x" "(1 - uround) * num_value b \<le> fval z"
    using error_lower [OF to_float_error] assms x z by blast+
  have q: "0 \<le> 1 - uround" using uround_bounds(3) by simp
  have pos: "0 \<le> fval x" "0 \<le> fval z"
    using low mult_nonneg_nonneg [OF q assms(6)] mult_nonneg_nonneg [OF q assms(7)] by linarith+
  have can: "canonical x" "canonical z" using canonical_to_float assms(2,3) x z by blast+
  have "(1 - uround) * ((1 - uround) * num_value a + (1 - uround) * num_value b) \<le> (1 - uround) * (fval x + fval z)"
    using low q by (intro mult_left_mono add_mono)
  then have "(1 - uround) ^ 2 * (num_value a + num_value b) \<le> (1 - uround) * (fval x + fval z)"
    by (simp add: power2_eq_square algebra_simps)
  then show ?thesis
    using fadd_nonneg [OF can x(2) z(2) pos] by (auto simp: t num_finite_def intro: order_trans)
qed (use assms(1) in auto)

lemma cluster_cap_pass:
  assumes "evaluate_cluster_cap c = Inr cd" and "approved cd" and "cluster_id c \<noteq> ''unknown''"
    and "num_ok (cluster_open_usd c)" "num_ok (cluster_proposed_cost c)"
    and "num_finite (cluster_open_usd c)" "num_finite (max_cluster_usd c)"
    and "0 \<le> num_value (cluster_open_usd c)" and "0 < num_value (cluster_proposed_cost c)"
  shows "(1 - uround) ^ 2 * (num_value (cluster_open_usd c) + num_value (cluster_proposed_cost c))
    \<le> num_value (max_cluster_usd c)"
proof -
  let ?o = "cluster_open_usd c" and ?p = "cluster_proposed_cost c" and ?m = "max_cluster_usd c"
  have fp: "num_finite ?p"
    using assms(1,2) by (auto simp: evaluate_cluster_cap_def new_decision_Inr rbind_eq_Inr split: if_splits)
  have zero: "num_finite (PyInt 0)" by code_simp
  have "\<not> num_le ?p (PyInt 0)" using assms(9) by (simp add: num_le_value [OF fp zero])
  then obtain t where t: "num_add ?o ?p = Inr t" "\<not> num_lt ?m t"
    using assms(1-3) by (auto simp: evaluate_cluster_cap_def new_decision_Inr rbind_eq_Inr split: if_splits)
  have m: "is_finite (num_key ?m)" using assms(7) by (cases ?m) simp_all
  have sq: "(1 - uround) ^ 2 \<le> 1" using uround_bounds by (intro power_le_one) simp_all
  consider (inf) "t = PyFloat (Inf False)"
    | (float) "num_finite t" "(1 - uround) ^ 2 * (num_value ?o + num_value ?p) \<le> num_value t"
    | (int) i j where "?o = PyInt i" "?p = PyInt j" "t = PyInt (i + j)"
    using num_add_lower [OF t(1) assms(4,5,6) fp assms(8)] assms(9) by auto
  then show ?thesis
  proof cases
    case inf
    then show ?thesis using t(2) m by (cases "num_key ?m") (auto simp: num_lt_def)
  next
    case float
    then show ?thesis using t(2) by (simp add: num_lt_value [OF assms(7) float(1)])
  next
    case int
    have "num_value ?o + num_value ?p \<le> num_value ?m"
      using t(2) m by (cases ?m) (auto simp: int num_lt_def flt_fval)
    moreover have "(1 - uround) ^ 2 * (num_value ?o + num_value ?p) \<le> 1 * (num_value ?o + num_value ?p)"
      using sq assms(8,9) by (intro mult_right_mono) simp_all
    ultimately show ?thesis by simp
  qed
qed

section \<open>Loss window\<close>

lemma consecutive_losses_pass:
  assumes "evaluate_consecutive_losses ctx (Some ocs) (Some now) d = g_pass d"
    and "0 < consecutive_loss_limit ctx" and "outcomes_before now ocs"
    and "num_mul (consecutive_loss_window_minutes ctx) (PyFloat (lit 60 1)) = Inr secs"
  shows "int (length (filter (in_window secs now) (takeWhile is_loss (rev (by_time ocs)))))
    < consecutive_loss_limit ctx"
proof (cases "ocs = []")
  case True
  then show ?thesis using assms(2) by (simp add: by_time_def)
next
  case False
  have "\<not> num_lt (consecutive_loss_window_minutes ctx) (PyInt 0)"
    using assms(1,2) by (auto simp: evaluate_consecutive_losses_def g_pass_def g_reject_def split: if_splits)
  moreover have "\<forall>oc \<in> set ocs. num_finite (pnl oc)"
  proof
    fix oc assume "oc \<in> set ocs"
    moreover have "any_res (map (\<lambda>oc. rbind (math_isfinite (pnl oc)) (\<lambda>b. Inr (\<not> b))) ocs) = Inr False"
      using assms(1,2) False
      by (auto simp: evaluate_consecutive_losses_def g_pass_def g_reject_def Let_def rbind_eq_Inr
          simp del: any_res.simps split: if_splits list.splits)
    ultimately show "num_finite (pnl oc)"
      by (auto simp: any_res_Inr_False rbind_eq_Inr math_isfinite_iff)
  qed
  ultimately show ?thesis
    using consecutive_losses_window [OF assms(2) _ assms(4) False _ assms(3), of d] assms(1)
    by (auto simp: g_pass_def)
qed

end
