(* ===== verification/ApprovalSafety.thy ===== *)
theory ApprovalSafety
  imports AuthorityLaws GateBounds
begin

text \<open>
  What an approval means: the headline guarantee of the engine, over all its parts. Each limit is
  stated on the exact values of the numbers, with the roundings of the float arithmetic accounted
  for (\<open>uround\<close> is one part in \<open>2^53\<close>, \<open>tiny\<close> half the smallest float).
\<close>

section \<open>The desk\<close>

text \<open>A tripped breaker whose cooldown has passed.\<close>

definition cooled_down :: "timed_breaker \<Rightarrow> pydatetime option \<Rightarrow> bool" where
  "cooled_down tb now =
     (case (tb_tripped_at tb, now) of
        (Some t0, Some t) \<Rightarrow> timezone_mode t = timezone_mode t0
          \<and> (case (timedelta_hours (tb_cooldown_hours tb), dt_sub t t0) of
               (Inr cool, Inr age) \<Rightarrow> cool \<le> age | _ \<Rightarrow> False)
      | _ \<Rightarrow> False)"

definition desk_clear :: "authority \<Rightarrow> pydatetime option \<Rightarrow> bool" where
  "desk_clear ra now \<longleftrightarrow>
     pred_option (\<lambda>ks. \<not> ks_tripped ks) (ra_kill_switch ra)
   \<and> pred_option (\<lambda>tb. tb_tripped tb \<longrightarrow> cooled_down tb now) (ra_timed_breaker ra)
   \<and> pred_option (\<lambda>lg. int (length (lg_history lg)) < lg_window_trades lg
        \<or> count_true (lg_history lg) \<le> lg_max_losses lg) (ra_loss_gate ra)"

lemma breaker_passes:
  assumes "control_verdict tb_check (Some tb) now = Inr None" and "tb_tripped tb"
  shows "cooled_down tb now"
  using assms same_mode_sub
  by (auto simp: control_verdict_def verdict_of_def tb_check_def tb_still_def g_reject_def cooled_down_def
      rbind_def split: option.splits if_splits sum.splits bool.splits)

lemma controls_pass:
  assumes "\<forall>v \<in> set (control_verdicts ra now). v = Inr None"
  shows "desk_clear ra now"
proof -
  have "pred_option (\<lambda>ks. \<not> ks_tripped ks) (ra_kill_switch ra)"
    using assms by (cases "ra_kill_switch ra")
      (auto simp: control_verdicts_def control_verdict_def ks_check_def split: if_splits)
  moreover have "pred_option (\<lambda>tb. tb_tripped tb \<longrightarrow> cooled_down tb now) (ra_timed_breaker ra)"
    using assms breaker_passes by (cases "ra_timed_breaker ra") (auto simp: control_verdicts_def)
  moreover have "pred_option (\<lambda>lg. int (length (lg_history lg)) < lg_window_trades lg
        \<or> count_true (lg_history lg) \<le> lg_max_losses lg) (ra_loss_gate ra)"
    using assms by (cases "ra_loss_gate ra")
      (auto simp: control_verdicts_def control_verdict_def lg_check_def Let_def verdict_of_def g_reject_def
        split: if_splits)
  ultimately show ?thesis by (simp add: desk_clear_def)
qed

section \<open>The limits\<close>

text \<open>The inputs are numbers the interpreter can hold, and what is spent is not negative.\<close>

definition cluster_ok :: "cluster_cap_context \<Rightarrow> bool" where
  "cluster_ok c \<longleftrightarrow> num_ok (cluster_open_usd c) \<and> num_ok (cluster_proposed_cost c)
     \<and> 0 \<le> num_value (cluster_open_usd c)"

definition inputs_ok :: "trade_inputs \<Rightarrow> bool" where
  "inputs_ok ti \<longleftrightarrow> num_ok (ti_daily_realized_pnl ti) \<and> num_ok (ti_equity ti)
     \<and> num_ok (ti_proposed_cost ti) \<and> 0 \<le> num_value (ti_proposed_cost ti)
     \<and> (\<forall>pos \<in> set (ti_open_positions ti). num_ok (cost_basis pos) \<and> 0 \<le> num_value (cost_basis pos))
     \<and> pred_option cluster_ok (ti_cluster_cap ti)"

definition within_drawdown :: "risk_context \<Rightarrow> trade_inputs \<Rightarrow> bool" where
  "within_drawdown ctx ti \<longleftrightarrow> 0 < num_value (ti_equity ti)
     \<and> (num_value (ti_daily_realized_pnl ti) < 0 \<longrightarrow>
          (1 - uround) ^ 3 * - num_value (ti_daily_realized_pnl ti)
            \<le> (num_value (max_daily_drawdown_pct ctx) + tiny) * num_value (ti_equity ti))"

definition within_exposure :: "risk_context \<Rightarrow> trade_inputs \<Rightarrow> bool" where
  "within_exposure ctx ti \<longleftrightarrow>
     (1 - uround) ^ (length (filter (in_family (ti_target_family ti)) (ti_open_positions ti)) + 2)
       * (exact_exposure (ti_target_family ti) (ti_open_positions ti) + num_value (ti_proposed_cost ti))
       \<le> num_value (max_correlated_exposure ctx)"

text \<open>The cap limits known clusters and positive costs; it is off when its numbers are not finite.\<close>

definition within_cluster_cap :: "cluster_cap_context \<Rightarrow> bool" where
  "within_cluster_cap c \<longleftrightarrow>
     cluster_id c = ''unknown'' \<or> num_value (cluster_proposed_cost c) \<le> 0
   \<or> \<not> num_finite (cluster_open_usd c) \<or> \<not> num_finite (max_cluster_usd c)
   \<or> (1 - uround) ^ 2 * (num_value (cluster_open_usd c) + num_value (cluster_proposed_cost c))
       \<le> num_value (max_cluster_usd c)"

text \<open>The current losing streak has fewer losses in the window than the limit (if there is one).\<close>

definition within_loss_streak :: "risk_context \<Rightarrow> trade_inputs \<Rightarrow> bool" where
  "within_loss_streak ctx ti \<longleftrightarrow>
     (case (ti_trade_outcomes ti, ti_current_time ti,
            num_mul (consecutive_loss_window_minutes ctx) (PyFloat (lit 60 1))) of
        (Some ocs, Some now, Inr secs) \<Rightarrow>
          0 < consecutive_loss_limit ctx \<and> outcomes_before now ocs \<longrightarrow>
          int (length (filter (in_window secs now) (takeWhile is_loss (rev (by_time ocs)))))
            < consecutive_loss_limit ctx
      | _ \<Rightarrow> True)"

definition within_limits :: "engine_env \<Rightarrow> risk_context \<Rightarrow> trade_inputs \<Rightarrow> bool" where
  "within_limits env ctx ti \<longleftrightarrow>
     num_value (min_expected_value ctx) \<le> num_value (ti_expected_value ti)
   \<and> within_drawdown ctx ti \<and> within_loss_streak ctx ti \<and> within_exposure ctx ti
   \<and> pred_option within_cluster_cap (ti_cluster_cap ti)
   \<and> elapsed_us env \<le> latency_budget_us ctx"

lemma cluster_passes:
  assumes "cluster_verdict cap = Inr None" and "pred_option cluster_ok cap"
  shows "pred_option within_cluster_cap cap"
proof (cases cap)
  case (Some c)
  then obtain cd where cd: "evaluate_cluster_cap c = Inr cd" "approved cd"
    using assms(1) by (auto simp: cluster_verdict_def rbind_eq_Inr split: if_splits)
  then show ?thesis
    using cluster_cap_pass [OF cd] assms(2) leI
    by (auto simp: Some within_cluster_cap_def cluster_ok_def)
qed simp

lemma gates_pass:
  assumes "inputs_ok ti" and "\<forall>v \<in> set (gate_verdicts env ctx ti). v = Inr None"
  shows "within_limits env ctx ti"
proof -
  note gates = ev_gate.passes_iff [of "(ctx, ti_expected_value ti)" blank_decision, simplified]
    drawdown_gate.passes_iff [of "(ctx, ti_daily_realized_pnl ti, ti_equity ti)" blank_decision, simplified]
    loss_gate.passes_iff [of "(ctx, ti_trade_outcomes ti, ti_current_time ti)" blank_decision, simplified]
    concentration_gate.passes_iff
      [of "(ctx, ti_target_family ti, ti_proposed_cost ti, ti_open_positions ti)" blank_decision, simplified]
  have pass: "evaluate_expected_value ctx (ti_expected_value ti) blank_decision = g_pass blank_decision"
    "evaluate_drawdown ctx (ti_daily_realized_pnl ti) (ti_equity ti) blank_decision = g_pass blank_decision"
    "evaluate_consecutive_losses ctx (ti_trade_outcomes ti) (ti_current_time ti) blank_decision = g_pass blank_decision"
    "evaluate_concentration ctx (ti_target_family ti) (ti_proposed_cost ti) (ti_open_positions ti) blank_decision
       = g_pass blank_decision"
    and rest: "cluster_verdict (ti_cluster_cap ti) = Inr None" "latency_verdict ctx (elapsed_us env) = Inr None"
    using assms(2) unfolding gates by (simp_all add: gate_verdicts_def)
  have "within_drawdown ctx ti"
    using drawdown_pass [OF pass(2)] assms(1) by (simp add: within_drawdown_def inputs_ok_def)
  moreover have "within_exposure ctx ti"
    using concentration_pass [OF pass(4)] assms(1) by (simp add: within_exposure_def inputs_ok_def)
  moreover have "within_loss_streak ctx ti"
    using consecutive_losses_pass [of ctx _ _ blank_decision] pass(3)
    by (auto simp: within_loss_streak_def split: option.splits sum.splits)
  moreover have "pred_option within_cluster_cap (ti_cluster_cap ti)"
    using assms(1) by (intro cluster_passes [OF rest(1)]) (simp add: inputs_ok_def)
  moreover have "elapsed_us env \<le> latency_budget_us ctx"
    using rest(2) by (simp add: latency_verdict_def split: if_splits)
  ultimately show ?thesis using expected_value_pass(3) [OF pass(1)] by (simp add: within_limits_def)
qed

section \<open>Approvals\<close>

lemma chain_approves:
  assumes "rbind (new_decision True r c) (conclude (first_rejection vs)) = Inr d" and "approved d"
  shows "\<forall>v \<in> set vs. v = Inr None" and "d = \<lparr>approved = True, reason_code = r, suggested_size = c\<rparr>"
proof -
  obtain v where v: "first_rejection vs = Inr v"
    and d: "d = (case v of None \<Rightarrow> id | Some c' \<Rightarrow> reject c') \<lparr>approved = True, reason_code = r, suggested_size = c\<rparr>"
    using assms(1) by (auto simp: conclude_def rbind_eq_Inr new_decision_Inr split: option.splits)
  have "v = None" using assms(2) d by (cases v) simp_all
  then show "\<forall>v \<in> set vs. v = Inr None" "d = \<lparr>approved = True, reason_code = r, suggested_size = c\<rparr>"
    using v d by (simp_all add: first_rejection_None)
qed

lemma approval_safe:
  assumes "hands_off ra" and "inputs_ok ti"
    and "sr_decision (evaluate_with_state env ra ctx ti tr) = Inr d" and "approved d"
  shows "desk_clear ra (ti_current_time ti)" and "within_limits env ctx ti"
    and "suggested_size d = ti_proposed_cost ti" and "reason_code d = ''OK''"
    and "\<forall>v \<in> set (gate_verdicts env ctx ti). v = Inr None"
proof -
  note chain = chain_approves [OF assms(3) [unfolded evaluate_with_state_chain [OF assms(1)]] assms(4)]
  have "\<forall>v \<in> set (control_verdicts ra (ti_current_time ti)). v = Inr None"
    and gates: "\<forall>v \<in> set (gate_verdicts env ctx ti). v = Inr None"
    using chain(1) by auto
  then show "desk_clear ra (ti_current_time ti)" "within_limits env ctx ti"
    "suggested_size d = ti_proposed_cost ti" "reason_code d = ''OK''"
    using controls_pass gates_pass [OF assms(2)] chain(2) by simp_all
  show "\<forall>v \<in> set (gate_verdicts env ctx ti). v = Inr None" by (rule gates)
qed


definition sample_desk :: authority where
  "sample_desk = RiskAuthority_new (Some (KillSwitch_new ''ERR_KILL_SWITCH''))
     (Some \<lparr>tb_threshold = 3, tb_cooldown_hours = lit 24 1, tb_loss_streak = 2, tb_tripped_at = None, tb_tripped = False\<rparr>)
     (Some \<lparr>lg_max_losses = 2, lg_window_trades = 3, lg_history = [True, False, True]\<rparr>) None"

lemma sample_desk_passes:
  "hands_off sample_desk" "control_verdicts sample_desk None = [Inr None, Inr None, Inr None]"
  by (simp_all add: sample_desk_def RiskAuthority_new_def hands_off_def control_verdicts_def control_verdict_def
      verdict_of_def KillSwitch_new_def ks_check_def tb_check_def tb_still_def lg_check_def count_true_def
      g_pass_def Let_def)

lemma sample_inputs_ok: "inputs_ok sample_inputs"
proof -
  have "lit 100 1 = Fin False 7036874417766400 (-46)" by code_simp
  then have "0 \<le> num_value (PyFloat (lit 100 1))" by simp
  then show ?thesis by (simp add: inputs_ok_def sample_inputs_def f64_zero_value canonical_zero)
qed


end
