(* ===== verification/Digest.thy ===== *)
theory Digest
  imports RiskTypes "HOL-Library.Word"
begin

unbundle bit_operations_syntax

text \<open>
  \<open>hashlib.sha256(...).hexdigest()\<close>, on 32-bit words, and \<open>json.dumps\<close> with sorted keys,
  compact separators and \<open>default=str\<close>: the two library functions the receipt hash is made of.
\<close>

section \<open>SHA-256\<close>

definition sha_k :: "32 word list" where
  "sha_k = [
    1116352408, 1899447441, 3049323471, 3921009573, 961987163, 1508970993,
    2453635748, 2870763221, 3624381080, 310598401, 607225278, 1426881987,
    1925078388, 2162078206, 2614888103, 3248222580, 3835390401, 4022224774,
    264347078, 604807628, 770255983, 1249150122, 1555081692, 1996064986,
    2554220882, 2821834349, 2952996808, 3210313671, 3336571891, 3584528711,
    113926993, 338241895, 666307205, 773529912, 1294757372, 1396182291,
    1695183700, 1986661051, 2177026350, 2456956037, 2730485921, 2820302411,
    3259730800, 3345764771, 3516065817, 3600352804, 4094571909, 275423344,
    430227734, 506948616, 659060556, 883997877, 958139571, 1322822218,
    1537002063, 1747873779, 1955562222, 2024104815, 2227730452, 2361852424,
    2428436474, 2756734187, 3204031479, 3329325298]"

record sha_state =
  sa :: "32 word"
  sb :: "32 word"
  sc :: "32 word"
  sd :: "32 word"
  se :: "32 word"
  sf :: "32 word"
  sg :: "32 word"
  sh :: "32 word"

definition sha_init :: sha_state where
  "sha_init = \<lparr>sa = 1779033703, sb = 3144134277, sc = 1013904242, sd = 2773480762,
     se = 1359893119, sf = 2600822924, sg = 528734635, sh = 1541459225\<rparr>"

definition sha_round :: "32 word \<times> 32 word \<Rightarrow> sha_state \<Rightarrow> sha_state" where
  "sha_round kw s =
     (let s1 = xor (xor (word_rotr 6 (se s)) (word_rotr 11 (se s))) (word_rotr 25 (se s));
          ch = xor (and (se s) (sf s)) (and (not (se s)) (sg s));
          t1 = sh s + s1 + ch + fst kw + snd kw;
          s0 = xor (xor (word_rotr 2 (sa s)) (word_rotr 13 (sa s))) (word_rotr 22 (sa s));
          maj = xor (xor (and (sa s) (sb s)) (and (sa s) (sc s))) (and (sb s) (sc s));
          t2 = s0 + maj
      in \<lparr>sa = t1 + t2, sb = sa s, sc = sb s, sd = sc s, se = sd s + t1, sf = se s, sg = sf s,
          sh = sg s\<rparr>)"

text \<open>The message schedule, newest word first: \<open>n\<close> more words.\<close>

fun sha_expand :: "nat \<Rightarrow> 32 word list \<Rightarrow> 32 word list" where
  "sha_expand 0 ws = ws"
| "sha_expand (Suc n) ws =
     (let w15 = ws ! 14; w2 = ws ! 1;
          s0 = xor (xor (word_rotr 7 w15) (word_rotr 18 w15)) (drop_bit 3 w15);
          s1 = xor (xor (word_rotr 17 w2) (word_rotr 19 w2)) (drop_bit 10 w2)
      in sha_expand n ((ws ! 15 + s0 + ws ! 6 + s1) # ws))"

definition sha_block :: "32 word list \<Rightarrow> sha_state \<Rightarrow> sha_state" where
  "sha_block ws s =
     (let r = fold sha_round (zip sha_k (rev (sha_expand 48 (rev ws)))) s
      in \<lparr>sa = sa s + sa r, sb = sb s + sb r, sc = sc s + sc r, sd = sd s + sd r,
          se = se s + se r, sf = sf s + sf r, sg = sg s + sg r, sh = sh s + sh r\<rparr>)"

text \<open>Padding to a multiple of 64 bytes, ending in the length in bits.\<close>

definition sha_pad :: "int list \<Rightarrow> int list" where
  "sha_pad bs =
     (let n = length bs; bits = 8 * int n
      in bs @ [128] @ replicate ((119 - n mod 64) mod 64) 0
         @ map (\<lambda>i. bits div 2 ^ (8 * (7 - i)) mod 256) [0..<8])"

fun sha_words :: "int list \<Rightarrow> 32 word list" where
  "sha_words (a # b # c # d # bs) =
     word_of_int (a * 2 ^ 24 + b * 2 ^ 16 + c * 2 ^ 8 + d) # sha_words bs"
| "sha_words _ = []"

fun sha_blocks :: "nat \<Rightarrow> 32 word list \<Rightarrow> sha_state \<Rightarrow> sha_state" where
  "sha_blocks 0 ws s = s"
| "sha_blocks (Suc n) ws s = sha_blocks n (drop 16 ws) (sha_block (take 16 ws) s)"

fun hex_digits :: "nat \<Rightarrow> int \<Rightarrow> string" where
  "hex_digits 0 n = []"
| "hex_digits (Suc k) n = hex_digits k (n div 16) @ [hex_digit (n mod 16)]"

definition sha256_hex :: "string \<Rightarrow> string" where
  "sha256_hex s =
     (let ws = sha_words (sha_pad (map of_char s));
          r = sha_blocks (length ws div 16) ws sha_init
      in concat (map (\<lambda>w. hex_digits 8 (uint w)) [sa r, sb r, sc r, sd r, se r, sf r, sg r, sh r]))"

section \<open>json.dumps\<close>

definition u_escape :: "int \<Rightarrow> string" where
  "u_escape n = [char_of (92::int), CHR ''u''] @ hex_digits 4 n"

definition json_char :: "char \<Rightarrow> string" where
  "json_char c =
     (let n = of_char c :: int; bs = char_of (92::int)
      in if n = 34 \<or> n = 92 then [bs, c]
         else if n = 10 then [bs, CHR ''n'']
         else if n = 13 then [bs, CHR ''r'']
         else if n = 9 then [bs, CHR ''t'']
         else if n = 12 then [bs, CHR ''f'']
         else if n = 8 then [bs, CHR ''b'']
         else if n < 32 \<or> 126 < n then u_escape n
         else [c])"

definition json_str :: "string \<Rightarrow> string" where
  "json_str s = [char_of (34::int)] @ concat (map json_char s) @ [char_of (34::int)]"

fun json_float :: "f64 \<Rightarrow> string" where
  "json_float NaN = ''NaN''"
| "json_float (Inf s) = (if s then ''-Infinity'' else ''Infinity'')"
| "json_float x = repr_f64 x"

text \<open>The text of a dictionary key.\<close>

fun json_key :: "pyval \<Rightarrow> string res" where
  "json_key (VStr s) = Inr s"
| "json_key (VInt n) = Inr (str_int n)"
| "json_key (VFloat x) = Inr (json_float x)"
| "json_key (VBool b) = Inr (if b then ''true'' else ''false'')"
| "json_key VNone = Inr ''null''"
| "json_key v = Inl (TypeError (''keys must be str, int, float, bool or None, not '' @ type_name v))"

text \<open>
  Sorting the items: strings among strings, numbers among numbers; a mixture (or a key of
  another type, which is refused anyway) cannot be ordered. The dictionary's keys are
  distinct, so the values are never compared.
\<close>

fun num_of_key :: "pyval \<Rightarrow> pynum option" where
  "num_of_key (VInt n) = Some (PyInt n)"
| "num_of_key (VFloat x) = Some (PyFloat x)"
| "num_of_key (VBool b) = Some (PyInt (if b then 1 else 0))"
| "num_of_key _ = None"

fun is_vstr :: "pyval \<Rightarrow> bool" where
  "is_vstr (VStr s) = True"
| "is_vstr _ = False"

fun key_lt :: "pyval \<Rightarrow> pyval \<Rightarrow> bool" where
  "key_lt (VStr s) (VStr t) = str_lt s t"
| "key_lt a b = (case (num_of_key a, num_of_key b) of (Some x, Some y) \<Rightarrow> num_lt x y | _ \<Rightarrow> False)"

definition sorted_items :: "(pyval \<times> 'a) list \<Rightarrow> (pyval \<times> 'a) list res" where
  "sorted_items kvs =
     (if length kvs \<le> 1 \<or> (\<forall>kv \<in> set kvs. is_vstr (fst kv))
         \<or> (\<forall>kv \<in> set kvs. num_of_key (fst kv) \<noteq> None)
      then Inr (stable_sort (\<lambda>a b. key_lt (fst a) (fst b)) kvs)
      else Inl (TypeError ''keys of different types cannot be ordered''))"

fun join_res :: "string \<Rightarrow> string res list \<Rightarrow> string res" where
  "join_res sep [] = Inr []"
| "join_res sep [r] = r"
| "join_res sep (r # rs) = rbind r (\<lambda>s. rbind (join_res sep rs) (\<lambda>t. Inr (s @ sep @ t)))"

abbreviation comma_join :: "string res list \<Rightarrow> string res" where
  "comma_join \<equiv> join_res '',''"

text \<open>\<open>str_obj\<close> gives \<open>str(o)\<close> for the values only \<open>default=str\<close> can encode.\<close>

fun dumps :: "(pyval \<Rightarrow> string) \<Rightarrow> pyval \<Rightarrow> string res" where
  "dumps str_obj VNone = Inr ''null''"
| "dumps str_obj (VBool b) = Inr (if b then ''true'' else ''false'')"
| "dumps str_obj (VInt n) = Inr (str_int n)"
| "dumps str_obj (VFloat x) = Inr (json_float x)"
| "dumps str_obj (VStr s) = Inr (json_str s)"
| "dumps str_obj (VList vs) =
     rbind (comma_join (map (dumps str_obj) vs)) (\<lambda>s. Inr (''['' @ s @ '']''))"
| "dumps str_obj (VTuple vs) =
     rbind (comma_join (map (dumps str_obj) vs)) (\<lambda>s. Inr (''['' @ s @ '']''))"
| "dumps str_obj (VDict kvs) =
     rbind (sorted_items (map (\<lambda>kv. (fst kv, dumps str_obj (snd kv))) kvs)) (\<lambda>items.
     rbind (comma_join (map (\<lambda>it. rbind (json_key (fst it)) (\<lambda>k.
              rbind (snd it) (\<lambda>s. Inr (json_str k @ '':'' @ s)))) items)) (\<lambda>s.
       Inr (''{'' @ s @ ''}'')))"
| "dumps str_obj v = Inr (json_str (str_obj v))"

text \<open>
  With \<open>indent=2\<close>: every item on a line of its own, two blanks deeper than what holds it, and
  \<open>": "\<close> after a key. Without \<open>default\<close> a value of another type is refused.
\<close>

definition line_at :: "nat \<Rightarrow> string" where
  "line_at depth = char_of (10::int) # replicate (2 * depth) CHR '' ''"

fun dumps_indent :: "nat \<Rightarrow> pyval \<Rightarrow> string res" where
  "dumps_indent n VNone = Inr ''null''"
| "dumps_indent n (VBool b) = Inr (if b then ''true'' else ''false'')"
| "dumps_indent n (VInt i) = Inr (str_int i)"
| "dumps_indent n (VFloat x) = Inr (json_float x)"
| "dumps_indent n (VStr s) = Inr (json_str s)"
| "dumps_indent n (VList vs) =
     (if vs = [] then Inr ''[]''
      else rbind (join_res ('','' @ line_at (Suc n)) (map (dumps_indent (Suc n)) vs)) (\<lambda>s.
        Inr (''['' @ line_at (Suc n) @ s @ line_at n @ '']'')))"
| "dumps_indent n (VTuple vs) =
     (if vs = [] then Inr ''[]''
      else rbind (join_res ('','' @ line_at (Suc n)) (map (dumps_indent (Suc n)) vs)) (\<lambda>s.
        Inr (''['' @ line_at (Suc n) @ s @ line_at n @ '']'')))"
| "dumps_indent n (VDict kvs) =
     (if kvs = [] then Inr ''{}''
      else rbind (sorted_items (map (\<lambda>kv. (fst kv, dumps_indent (Suc n) (snd kv))) kvs)) (\<lambda>items.
        rbind (join_res ('','' @ line_at (Suc n)) (map (\<lambda>it. rbind (json_key (fst it)) (\<lambda>k.
                 rbind (snd it) (\<lambda>s. Inr (json_str k @ '': '' @ s)))) items)) (\<lambda>s.
          Inr (''{'' @ line_at (Suc n) @ s @ line_at n @ ''}''))))"
| "dumps_indent n v = Inl (TypeError (''Object of type '' @ type_name v @ '' is not JSON serializable''))"

section \<open>The order of the keys does not matter\<close>

text \<open>Strings in code point order are linearly ordered.\<close>

lemma str_lt_irrefl [simp]: "\<not> str_lt s s"
  by (induction s) simp_all

lemma str_lt_trans: "str_lt s t \<Longrightarrow> str_lt t u \<Longrightarrow> str_lt s u"
proof (induction s t arbitrary: u rule: str_lt.induct)
  case (2 b t)
  then show ?case by (cases u) simp_all
next
  case (4 a s b t)
  then show ?case by (cases u) (auto dest: order_less_trans)
qed simp_all

lemma str_lt_total: "s \<noteq> t \<Longrightarrow> str_lt s t \<or> str_lt t s"
proof (induction s t rule: str_lt.induct)
  case (4 a s b t)
  then show ?case using of_char_eq_iff [of a b, where 'a = int] by (auto simp del: of_char_eq_iff)
qed simp_all

text \<open>Stable sorting by a strict total order gives the one ascending arrangement.\<close>

definition strict_total :: "('a \<Rightarrow> 'a \<Rightarrow> bool) \<Rightarrow> 'a set \<Rightarrow> bool" where
  "strict_total lt A \<longleftrightarrow> (\<forall>a \<in> A. \<not> lt a a)
     \<and> (\<forall>a \<in> A. \<forall>b \<in> A. a \<noteq> b \<longrightarrow> lt a b \<or> lt b a)
     \<and> (\<forall>a \<in> A. \<forall>b \<in> A. \<forall>c \<in> A. lt a b \<longrightarrow> lt b c \<longrightarrow> lt a c)"

lemma strict_totalD:
  assumes "strict_total lt A"
  shows "a \<in> A \<Longrightarrow> \<not> lt a a"
    and "a \<in> A \<Longrightarrow> b \<in> A \<Longrightarrow> a \<noteq> b \<Longrightarrow> \<not> lt a b \<Longrightarrow> lt b a"
    and "a \<in> A \<Longrightarrow> b \<in> A \<Longrightarrow> c \<in> A \<Longrightarrow> lt a b \<Longrightarrow> lt b c \<Longrightarrow> lt a c"
  using assms unfolding strict_total_def by blast+

lemma strict_total_subset: "strict_total lt A \<Longrightarrow> B \<subseteq> A \<Longrightarrow> strict_total lt B"
  unfolding strict_total_def by blast

lemma insert_stable_ascending:
  assumes "strict_total lt (insert x (set xs))" and "sorted_wrt lt xs" and "x \<notin> set xs"
  shows "sorted_wrt lt (insert_stable lt x xs)"
  using assms
proof (induction xs)
  case (Cons y ys)
  note d = strict_totalD [OF Cons.prems(1)]
  show ?case
  proof (cases "lt x y")
    case True
    have "lt x z" if "z \<in> set ys" for z
      by (rule d(3) [of x y z]) (use that True Cons.prems(2) in simp_all)
    then show ?thesis using True Cons.prems(2) by simp
  next
    case False
    then have yx: "lt y x" using Cons.prems(3) by (intro d(2) [of x y]) simp_all
    have "sorted_wrt lt (insert_stable lt x ys)"
      using Cons.prems strict_total_subset [OF Cons.prems(1)] by (intro Cons.IH) auto
    then show ?thesis using False yx Cons.prems(2) by simp
  qed
qed simp

lemma distinct_insert_stable:
  "distinct xs \<Longrightarrow> x \<notin> set xs \<Longrightarrow> distinct (insert_stable lt x xs)"
  by (induction xs) auto

lemma foldl_insert_ascending:
  assumes "strict_total lt (set acc \<union> set xs)" and "sorted_wrt lt acc" and "distinct (acc @ xs)"
  shows "sorted_wrt lt (foldl (\<lambda>acc x. insert_stable lt x acc) acc xs)"
  using assms
proof (induction xs arbitrary: acc)
  case (Cons x xs)
  have "sorted_wrt lt (insert_stable lt x acc)"
    using Cons.prems(2,3) strict_total_subset [OF Cons.prems(1), of "insert x (set acc)"]
    by (intro insert_stable_ascending) auto
  moreover have "distinct (insert_stable lt x acc @ xs)"
    using Cons.prems(3) distinct_insert_stable [of acc x lt] by auto
  moreover have "strict_total lt (set (insert_stable lt x acc) \<union> set xs)"
    using Cons.prems(1) by simp
  ultimately show ?case using Cons.IH by simp
qed simp

lemma ascending_unique:
  assumes "strict_total lt (set xs)" and "sorted_wrt lt xs" and "sorted_wrt lt ys"
    and "set xs = set ys"
  shows "xs = ys"
  using assms
proof (induction xs arbitrary: ys)
  case (Cons x xs)
  note d = strict_totalD [OF Cons.prems(1)]
  obtain y zs where ys: "ys = y # zs" using Cons.prems(4) by (cases ys) simp_all
  have x: "\<forall>a \<in> set xs. lt x a" and y: "\<forall>a \<in> set zs. lt y a" using Cons.prems(2,3) ys by simp_all
  have eq: "x = y"
  proof (rule ccontr)
    assume ne: "x \<noteq> y"
    have "x \<in> set ys" "y \<in> set (x # xs)" using Cons.prems(4) ys by (metis list.set_intros(1))+
    then have "lt y x" "lt x y" using x y ys ne by simp_all
    then have "lt x x" using \<open>y \<in> set (x # xs)\<close> by (intro d(3) [of x y x]) simp_all
    then show False using d(1) by simp
  qed
  have "x \<notin> set xs" "x \<notin> set zs" using x y eq d(1) [of x] by auto
  then have "set xs = set zs" using Cons.prems(4) ys eq by (simp add: insert_ident)
  moreover have "strict_total lt (set xs)"
    using Cons.prems(1) by (rule strict_total_subset) auto
  ultimately have "xs = zs" using Cons.prems(2,3) ys by (intro Cons.IH) simp_all
  then show ?case using ys eq by simp
qed simp

lemma stable_sort_unique:
  assumes "strict_total lt (set xs)" and "set xs = set ys" and "distinct xs" and "distinct ys"
  shows "stable_sort lt xs = stable_sort lt ys"
proof (rule ascending_unique [of lt])
  show "sorted_wrt lt (stable_sort lt xs)" "sorted_wrt lt (stable_sort lt ys)"
    unfolding stable_sort_def using assms by (simp_all add: foldl_insert_ascending)
qed (simp_all add: assms(1) flip: assms(2))

lemma distinct_fst: "distinct (map fst kvs) \<Longrightarrow> a \<in> set kvs \<Longrightarrow> b \<in> set kvs \<Longrightarrow> a \<noteq> b \<Longrightarrow> fst a \<noteq> fst b"
  by (metis eq_key_imp_eq_value prod.collapse)

lemma sorted_items_order:
  assumes "set kvs = set kvs'" and "distinct (map fst kvs)" and "distinct (map fst kvs')"
    and "\<forall>kv \<in> set kvs. is_vstr (fst kv)"
  shows "sorted_items kvs = sorted_items kvs'"
proof -
  have s: "\<exists>s. fst kv = VStr s" if "kv \<in> set kvs" for kv
    using bspec [OF assms(4) that] by (cases "fst kv") simp_all
  have "strict_total (\<lambda>a b. key_lt (fst a) (fst b)) (set kvs)"
    unfolding strict_total_def
  proof (intro conjI ballI impI)
    fix a b c assume a: "a \<in> set kvs"
    obtain t where t: "fst a = VStr t" using s [OF a] by blast
    show "\<not> key_lt (fst a) (fst a)" by (simp add: t)
    assume b: "b \<in> set kvs"
    obtain u where u: "fst b = VStr u" using s [OF b] by blast
    show "key_lt (fst a) (fst b) \<or> key_lt (fst b) (fst a)" if "a \<noteq> b"
      using distinct_fst [OF assms(2) a b that] str_lt_total [of t u] by (simp add: t u)
    assume c: "c \<in> set kvs"
    obtain v where v: "fst c = VStr v" using s [OF c] by blast
    show "key_lt (fst a) (fst c)" if "key_lt (fst a) (fst b)" "key_lt (fst b) (fst c)"
      using that str_lt_trans [of t u v] by (simp add: t u v)
  qed
  then have "stable_sort (\<lambda>a b. key_lt (fst a) (fst b)) kvs = stable_sort (\<lambda>a b. key_lt (fst a) (fst b)) kvs'"
    using assms(2,3) by (intro stable_sort_unique [OF _ assms(1)]) (simp_all add: distinct_map)
  moreover have "length kvs = length kvs'"
    using assms(1-3) by (metis distinct_card distinct_map)
  ultimately show ?thesis using assms(1) by (simp add: sorted_items_def)
qed

lemma dumps_order:
  assumes "set kvs = set kvs'" and "distinct (map fst kvs)" and "distinct (map fst kvs')"
    and "\<forall>kv \<in> set kvs. is_vstr (fst kv)"
  shows "dumps str_obj (VDict kvs) = dumps str_obj (VDict kvs')"
proof -
  let ?f = "\<lambda>kv. (fst kv, dumps str_obj (snd kv))"
  have "sorted_items (map ?f kvs) = sorted_items (map ?f kvs')"
    by (rule sorted_items_order) (use assms in \<open>simp_all add: comp_def\<close>)
  then show ?thesis by simp
qed

end
