(* ===== verification/Receipts.thy ===== *)
theory Receipts
  imports Digest
begin

text \<open>
  \<open>provider_receipts.py\<close>: the deterministic receipt of a risk evaluation and the refusal of
  secret-bearing fields. A mapping argument is its list of items. \<open>str_obj\<close> is \<open>str(o)\<close> for
  objects of types the model does not describe.
\<close>

section \<open>Hashing\<close>

definition RECEIPT_SCHEMA_VERSION :: string where
  "RECEIPT_SCHEMA_VERSION = ''1''"

definition receipt_hash :: "(pyval \<Rightarrow> string) \<Rightarrow> pyval \<Rightarrow> string res" where
  "receipt_hash str_obj v = rbind (dumps str_obj v) (\<lambda>payload. Inr (''sha256:'' @ sha256_hex payload))"

section \<open>Sensitive fields\<close>

text \<open>\<open>str(key)\<close>\<close>

fun str_key :: "(pyval \<Rightarrow> string) \<Rightarrow> pyval \<Rightarrow> string" where
  "str_key str_obj VNone = ''None''"
| "str_key str_obj (VBool b) = (if b then ''True'' else ''False'')"
| "str_key str_obj (VInt n) = str_int n"
| "str_key str_obj (VFloat x) = repr_f64 x"
| "str_key str_obj (VStr s) = s"
| "str_key str_obj v = str_obj v"

definition sensitive_names :: "string list" where
  "sensitive_names = [''api_key'', ''authorization'', ''password'', ''secret'', ''token'']"

definition is_sensitive :: "(pyval \<Rightarrow> string) \<Rightarrow> pyval \<Rightarrow> bool" where
  "is_sensitive str_obj key \<longleftrightarrow> dash_to_underscore (lower (str_key str_obj key)) \<in> set sensitive_names"

fun in_order :: "unit res list \<Rightarrow> unit res" where
  "in_order [] = Inr ()"
| "in_order (r # rs) = rbind r (\<lambda>_. in_order rs)"

fun reject_sensitive :: "(pyval \<Rightarrow> string) \<Rightarrow> pyval \<Rightarrow> unit res" where
  "reject_sensitive str_obj (VDict kvs) =
     in_order (map (\<lambda>kv. if is_sensitive str_obj (fst kv)
        then Inl (ValueError (''sensitive receipt field rejected: '' @ str_key str_obj (fst kv)))
        else reject_sensitive str_obj (snd kv)) kvs)"
| "reject_sensitive str_obj (VList vs) = in_order (map (reject_sensitive str_obj) vs)"
| "reject_sensitive str_obj (VTuple vs) = in_order (map (reject_sensitive str_obj) vs)"
| "reject_sensitive str_obj _ = Inr ()"

section \<open>The receipt\<close>

record receipt =
  rc_schema_version :: string
  rc_run_id :: string
  rc_provider :: string
  rc_provider_version :: string
  rc_inputs_hash :: string
  rc_config_hash :: string
  rc_outcome :: string
  rc_provenance :: "(pyval \<times> pyval) list"
  rc_evidence_refs :: "string list"
  rc_details :: "(pyval \<times> pyval) list"

type_synonym mapping_arg = "(pyval \<times> pyval) list option"

definition items_or_empty :: "mapping_arg \<Rightarrow> (pyval \<times> pyval) list" where
  "items_or_empty m = (case m of None \<Rightarrow> [] | Some kvs \<Rightarrow> kvs)"

definition build_risk_receipt ::
    "(pyval \<Rightarrow> string) \<Rightarrow> string \<Rightarrow> pyval \<Rightarrow> pyval \<Rightarrow> string \<Rightarrow> string list \<Rightarrow> mapping_arg
      \<Rightarrow> mapping_arg \<Rightarrow> receipt res" where
  "build_risk_receipt str_obj run_id inputs config outcome evidence_refs provenance details =
     rguard (strip run_id = [] \<or> strip outcome = [])
       (ValueError ''run_id and outcome must be non-empty'')
    (rbind (reject_sensitive str_obj (VDict (items_or_empty provenance))) (\<lambda>_.
     rbind (reject_sensitive str_obj (VDict (items_or_empty details))) (\<lambda>_.
     rbind (receipt_hash str_obj inputs) (\<lambda>ih.
     rbind (receipt_hash str_obj config) (\<lambda>ch.
       Inr \<lparr>rc_schema_version = RECEIPT_SCHEMA_VERSION, rc_run_id = run_id,
            rc_provider = ''verdict-risk'', rc_provider_version = ''0.1.0'',
            rc_inputs_hash = ih, rc_config_hash = ch, rc_outcome = outcome,
            rc_provenance = items_or_empty provenance, rc_evidence_refs = evidence_refs,
            rc_details = items_or_empty details\<rparr>)))))"

section \<open>Laws\<close>

text \<open>Every key of a mapping at any depth, through lists and tuples.\<close>

fun keys_within :: "pyval \<Rightarrow> pyval list" where
  "keys_within (VDict kvs) = concat (map (\<lambda>kv. fst kv # keys_within (snd kv)) kvs)"
| "keys_within (VList vs) = concat (map keys_within vs)"
| "keys_within (VTuple vs) = concat (map keys_within vs)"
| "keys_within _ = []"

lemma in_order_ok: "in_order rs = Inr () \<longleftrightarrow> (\<forall>r \<in> set rs. r = Inr ())"
  by (induction rs) (auto simp: rbind_eq_Inr)

lemma reject_sensitive_ok:
  "reject_sensitive str_obj v = Inr () \<longleftrightarrow> (\<forall>k \<in> set (keys_within v). \<not> is_sensitive str_obj k)"
proof (induction str_obj v rule: reject_sensitive.induct)
  case (1 str_obj kvs)
  have "reject_sensitive str_obj (VDict kvs) = Inr ()
      \<longleftrightarrow> (\<forall>kv \<in> set kvs. \<not> is_sensitive str_obj (fst kv) \<and> reject_sensitive str_obj (snd kv) = Inr ())"
    unfolding reject_sensitive.simps in_order_ok set_map ball_simps by (intro ball_cong) simp_all
  also have "\<dots> \<longleftrightarrow> (\<forall>kv \<in> set kvs. \<not> is_sensitive str_obj (fst kv)
        \<and> (\<forall>k \<in> set (keys_within (snd kv)). \<not> is_sensitive str_obj k))"
    using 1 by blast
  also have "\<dots> \<longleftrightarrow> (\<forall>k \<in> set (keys_within (VDict kvs)). \<not> is_sensitive str_obj k)"
    by simp
  finally show ?case .
next
  case (2 str_obj vs)
  then show ?case unfolding reject_sensitive.simps in_order_ok set_map ball_simps by simp
next
  case (3 str_obj vs)
  then show ?case unfolding reject_sensitive.simps in_order_ok set_map ball_simps by simp
qed simp_all

lemma build_risk_receipt_iff:
  "(\<exists>r. build_risk_receipt str_obj run_id inputs config outcome refs provenance details = Inr r)
     \<longleftrightarrow> strip run_id \<noteq> [] \<and> strip outcome \<noteq> []
       \<and> (\<forall>k \<in> set (keys_within (VDict (items_or_empty provenance))
              @ keys_within (VDict (items_or_empty details))). \<not> is_sensitive str_obj k)
       \<and> is_ok (dumps str_obj inputs) \<and> is_ok (dumps str_obj config)"
proof -
  have hash: "(\<exists>h. receipt_hash str_obj v = Inr h) \<longleftrightarrow> is_ok (dumps str_obj v)" for v
    by (auto simp: receipt_hash_def rbind_eq_Inr is_ok_iff)
  have unit: "(\<exists>u. r = Inr u) \<longleftrightarrow> r = Inr ()" for r :: "unit res" by (cases r) auto
  show ?thesis
    unfolding build_risk_receipt_def rguard_eq_Inr rbind_eq_Inr hash [symmetric]
      set_append ball_Un reject_sensitive_ok [symmetric]
    by (auto simp del: reject_sensitive.simps keys_within.simps)
qed

text \<open>C33. A receipt is built exactly when the run and the outcome are named, no key at any depth of
  its provenance and details is the name of a secret (in any case, with dashes or underscores),
  and both hashed values can be serialised: nothing secret-bearing is ever recorded and nothing
  else is refused.\<close>

theorem receipt_refuses_secrets:
  "(\<exists>r. build_risk_receipt str_obj run_id inputs config outcome refs provenance details = Inr r)
     \<longleftrightarrow> strip run_id \<noteq> [] \<and> strip outcome \<noteq> []
       \<and> (\<forall>k \<in> set (keys_within (VDict (items_or_empty provenance))
              @ keys_within (VDict (items_or_empty details))).
            dash_to_underscore (lower (str_key str_obj k)) \<notin> set sensitive_names)
       \<and> is_ok (dumps str_obj inputs) \<and> is_ok (dumps str_obj config)"
  using build_risk_receipt_iff [of str_obj] by (simp only: is_sensitive_def)

theorem receipt_refuses_secrets_witness:
  "\<not> (\<exists>r. build_risk_receipt (\<lambda>_. []) ''run-1'' VNone VNone ''approved'' [] None
     (Some [(VStr ''broker'', VList [VDict [(VStr ''API-Key'', VStr ''k'')]])]) = Inr r)"
  unfolding receipt_refuses_secrets by code_simp

text \<open>The hash of a mapping with string keys depends on its items only, not on their order.\<close>

lemma receipt_hash_ignores_key_order:
  assumes "set kvs = set kvs'" and "distinct (map fst kvs)" and "distinct (map fst kvs')"
    and "\<forall>kv \<in> set kvs. is_vstr (fst kv)"
  shows "receipt_hash str_obj (VDict kvs) = receipt_hash str_obj (VDict kvs')"
  unfolding receipt_hash_def dumps_order [OF assms, of str_obj] ..

end
