(* ===== verification/IsoFormat.thy ===== *)
theory IsoFormat
  imports PyTime
begin

text \<open>
  \<open>datetime.isoformat()\<close>: the calendar date of a wall clock in the proleptic Gregorian
  calendar, and the offset of an aware value.
\<close>

fun dec_digits :: "nat \<Rightarrow> int \<Rightarrow> string" where
  "dec_digits 0 n = []"
| "dec_digits (Suc k) n = dec_digits k (n div 10) @ [digit_char (n mod 10)]"

definition is_leap :: "int \<Rightarrow> bool" where
  "is_leap y \<longleftrightarrow> y mod 4 = 0 \<and> (y mod 100 \<noteq> 0 \<or> y mod 400 = 0)"

definition days_in_month :: "int \<Rightarrow> nat \<Rightarrow> int" where
  "days_in_month y m =
     (if m = 2 then (if is_leap y then 29 else 28) else if m \<in> {4, 6, 9, 11} then 30 else 31)"

text \<open>The year, and the day in it (from 0), of the day number \<open>n\<close> since 0001-01-01.\<close>

definition year_of_day :: "int \<Rightarrow> int \<times> int" where
  "year_of_day n =
     (let n400 = n div 146097; r = n mod 146097;
          n100 = r div 36524; r1 = r mod 36524;
          n4 = r1 div 1461; r2 = r1 mod 1461;
          n1 = r2 div 365; r3 = r2 mod 365;
          y = n400 * 400 + n100 * 100 + n4 * 4 + n1 + 1
      in if n1 = 4 \<or> n100 = 4 then (y - 1, 365) else (y, r3))"

text \<open>The month and the day of the month, from month \<open>m\<close> on: at most twelve steps.\<close>

fun month_of_day :: "nat \<Rightarrow> int \<Rightarrow> nat \<Rightarrow> int \<Rightarrow> nat \<times> int" where
  "month_of_day 0 y m d = (m, d)"
| "month_of_day (Suc k) y m d =
     (if d < days_in_month y m then (m, d) else month_of_day k y (m + 1) (d - days_in_month y m))"

definition iso_date :: "int \<Rightarrow> string" where
  "iso_date day =
     (case year_of_day day of (y, n) \<Rightarrow>
      case month_of_day 11 y 1 n of (m, d) \<Rightarrow>
        dec_digits 4 y @ ''-'' @ dec_digits 2 (int m) @ ''-'' @ dec_digits 2 (d + 1))"

definition iso_clock :: "int \<Rightarrow> string" where
  "iso_clock us =
     (let s = us div 1000000; frac = us mod 1000000
      in dec_digits 2 (s div 3600) @ '':'' @ dec_digits 2 (s div 60 mod 60) @ '':''
         @ dec_digits 2 (s mod 60)
         @ (if frac = 0 then [] else ''.'' @ dec_digits 6 frac))"

definition iso_offset :: "int \<Rightarrow> string" where
  "iso_offset off =
     (let a = \<bar>off\<bar>; s = a div 1000000; frac = a mod 1000000
      in (if off < 0 then ''-'' else ''+'') @ dec_digits 2 (s div 3600) @ '':''
         @ dec_digits 2 (s div 60 mod 60)
         @ (if s mod 60 = 0 \<and> frac = 0 then []
            else '':'' @ dec_digits 2 (s mod 60)
                 @ (if frac = 0 then [] else ''.'' @ dec_digits 6 frac)))"

definition isoformat :: "pydatetime \<Rightarrow> string" where
  "isoformat t =
     (let day_us = 24 * us_per_hour
      in iso_date (dt_wall t div day_us) @ ''T'' @ iso_clock (dt_wall t mod day_us)
         @ (case dt_offset t of None \<Rightarrow> [] | Some off \<Rightarrow> iso_offset off))"

end
