(* ===== verification/Provider.thy ===== *)
theory Provider
  imports AuthorityLaws Receipts IsoFormat
begin

text \<open>
  \<open>provider.py\<close>: the validated request, the independent report of the four gates, and the
  adapter that evaluates a request on an authority and issues the receipt.
\<close>

definition PROVIDER_API_VERSION :: int where
  "PROVIDER_API_VERSION = 1"

section \<open>Boundary validation\<close>

text \<open>\<open>RiskProviderError\<close> keeps the field name and puts it in front of its message; the text of an
  exception of the standard library is its message.\<close>

fun exn_text :: "exn \<Rightarrow> string" where
  "exn_text (RiskProviderError field_name msg) = field_name @ '': '' @ msg"
| "exn_text (ValueError msg) = msg"
| "exn_text (TypeError msg) = msg"
| "exn_text (OverflowError msg) = msg"
| "exn_text (ZeroDivisionError msg) = msg"
| "exn_text (RuntimeError msg) = msg"
| "exn_text (FileNotFoundError msg) = msg"
| "exn_text (YAMLError msg) = msg"
| "exn_text (IndexError msg) = msg"

text \<open>\<open>_require_finite\<close>, \<open>_require_identifier\<close> and \<open>_require_tuple_of\<close>.\<close>

fun finite_or_error :: "string \<Rightarrow> f64 \<Rightarrow> f64 res" where
  "finite_or_error name x =
     (if \<not> is_finite x then Inl (RiskProviderError name (''must be finite, got '' @ repr_f64 x))
      else Inr x)"

fun require_finite :: "string \<Rightarrow> pyval \<Rightarrow> f64 res" where
  "require_finite name (VInt n) = rbind (to_float (PyInt n)) (finite_or_error name)"
| "require_finite name (VFloat x) = rbind (to_float (PyFloat x)) (finite_or_error name)"
| "require_finite name v =
     Inl (RiskProviderError name (''expected a real number, got '' @ type_name v))"

fun require_identifier :: "string \<Rightarrow> pyval \<Rightarrow> string res" where
  "require_identifier name (VStr s) =
     (if strip s = [] then Inl (RiskProviderError name ''expected a non-empty string'') else Inr s)"
| "require_identifier name v = Inl (RiskProviderError name ''expected a non-empty string'')"

fun as_position :: "pyval \<Rightarrow> position option" where
  "as_position (VPosition p) = Some p"
| "as_position _ = None"

fun as_outcome :: "pyval \<Rightarrow> trade_outcome option" where
  "as_outcome (VOutcome oc) = Some oc"
| "as_outcome _ = None"

fun items_of :: "(pyval \<Rightarrow> 'a option) \<Rightarrow> string \<Rightarrow> string \<Rightarrow> int \<Rightarrow> pyval list \<Rightarrow> 'a list res" where
  "items_of cast name item_type index [] = Inr []"
| "items_of cast name item_type index (v # vs) =
     (case cast v of
        None \<Rightarrow> Inl (RiskProviderError name (''item '' @ str_int index @ '' is '' @ type_name v
                  @ '', expected '' @ item_type))
      | Some x \<Rightarrow> rbind (items_of cast name item_type (index + 1) vs) (\<lambda>xs. Inr (x # xs)))"

fun require_tuple_of :: "(pyval \<Rightarrow> 'a option) \<Rightarrow> string \<Rightarrow> string \<Rightarrow> pyval \<Rightarrow> 'a list res" where
  "require_tuple_of cast name item_type (VList vs) = items_of cast name item_type 0 vs"
| "require_tuple_of cast name item_type (VTuple vs) = items_of cast name item_type 0 vs"
| "require_tuple_of cast name item_type v =
     Inl (RiskProviderError name (''expected a sequence of '' @ item_type))"

section \<open>RiskProviderRequest\<close>

record provider_request =
  pr_run_id :: string
  pr_daily_realized_pnl :: f64
  pr_equity :: f64
  pr_target_family :: string
  pr_proposed_cost :: f64
  pr_expected_value :: f64
  pr_open_positions :: "position list"
  pr_trade_outcomes :: "trade_outcome list"
  pr_current_time :: "pydatetime option"
  pr_advisory :: mapping_arg

fun require_time :: "pyval \<Rightarrow> pydatetime option res" where
  "require_time VNone = Inr None"
| "require_time (VDatetime t) = Inr (Some t)"
| "require_time _ = Inl (RiskProviderError ''current_time'' ''expected a datetime or None'')"

fun require_advisory :: "pyval \<Rightarrow> mapping_arg res" where
  "require_advisory VNone = Inr None"
| "require_advisory (VDict kvs) = Inr (Some kvs)"
| "require_advisory _ = Inl (RiskProviderError ''advisory'' ''expected a mapping or None'')"

definition RiskProviderRequest_new ::
    "pyval \<Rightarrow> pyval \<Rightarrow> pyval \<Rightarrow> pyval \<Rightarrow> pyval \<Rightarrow> pyval \<Rightarrow> pyval \<Rightarrow> pyval \<Rightarrow> pyval \<Rightarrow> pyval
      \<Rightarrow> provider_request res" where
  "RiskProviderRequest_new run_id pl equity fam cost ev positions outcomes time advisory =
     rbind (require_identifier ''run_id'' run_id) (\<lambda>rid.
     rbind (require_identifier ''target_family'' fam) (\<lambda>tf.
     rbind (require_finite ''daily_realized_pnl'' pl) (\<lambda>p.
     rbind (require_finite ''equity'' equity) (\<lambda>q.
     rbind (require_finite ''proposed_cost'' cost) (\<lambda>c.
     rbind (require_finite ''expected_value'' ev) (\<lambda>e.
     rbind (require_tuple_of as_position ''open_positions'' ''Position'' positions) (\<lambda>ps.
     rbind (require_tuple_of as_outcome ''trade_outcomes'' ''TradeOutcome'' outcomes) (\<lambda>ocs.
     rbind (require_time time) (\<lambda>t.
     rbind (require_advisory advisory) (\<lambda>adv.
       Inr \<lparr>pr_run_id = rid, pr_daily_realized_pnl = p, pr_equity = q, pr_target_family = tf,
            pr_proposed_cost = c, pr_expected_value = e, pr_open_positions = ps,
            pr_trade_outcomes = ocs, pr_current_time = t, pr_advisory = adv\<rparr>))))))))))"

section \<open>The gate report\<close>

record gate_outcome =
  go_gate :: string
  go_approved :: bool
  go_reason :: string

definition gate_outcome_of ::
    "string \<Rightarrow> pynum \<Rightarrow> (risk_decision \<Rightarrow> gate_result) \<Rightarrow> gate_outcome res" where
  "gate_outcome_of name cost gate =
     rbind (new_decision True ''OK'' cost) (\<lambda>scratch.
     rbind (gate scratch) (\<lambda>r.
       Inr \<lparr>go_gate = name, go_approved = approved (snd r), go_reason = reason_code (snd r)\<rparr>))"

fun all_ok :: "'a res list \<Rightarrow> 'a list res" where
  "all_ok [] = Inr []"
| "all_ok (r # rs) = rbind r (\<lambda>x. rbind (all_ok rs) (\<lambda>xs. Inr (x # xs)))"

definition STATELESS_GATES :: "string list" where
  "STATELESS_GATES = [''evaluate_expected_value'', ''evaluate_drawdown'',
     ''evaluate_consecutive_losses'', ''evaluate_concentration'']"

definition run_named_gate :: "risk_context \<Rightarrow> provider_request \<Rightarrow> string \<Rightarrow> risk_decision \<Rightarrow> gate_result" where
  "run_named_gate ctx req name =
     (if name = ''evaluate_expected_value'' then
        evaluate_expected_value ctx (PyFloat (pr_expected_value req))
      else if name = ''evaluate_drawdown'' then
        evaluate_drawdown ctx (PyFloat (pr_daily_realized_pnl req)) (PyFloat (pr_equity req))
      else if name = ''evaluate_consecutive_losses'' then
        evaluate_consecutive_losses ctx (Some (pr_trade_outcomes req)) (pr_current_time req)
      else evaluate_concentration ctx (pr_target_family req) (PyFloat (pr_proposed_cost req))
        (pr_open_positions req))"

definition gate_report :: "risk_context \<Rightarrow> provider_request \<Rightarrow> gate_outcome list res" where
  "gate_report ctx req =
     all_ok (map (\<lambda>name. gate_outcome_of name (PyFloat (pr_proposed_cost req)) (run_named_gate ctx req name))
       STATELESS_GATES)"

lemma gate_report_gates:
  "gate_report ctx req = (let cost = PyFloat (pr_proposed_cost req) in all_ok
     [gate_outcome_of ''evaluate_expected_value'' cost
        (evaluate_expected_value ctx (PyFloat (pr_expected_value req))),
      gate_outcome_of ''evaluate_drawdown'' cost
        (evaluate_drawdown ctx (PyFloat (pr_daily_realized_pnl req)) (PyFloat (pr_equity req))),
      gate_outcome_of ''evaluate_consecutive_losses'' cost
        (evaluate_consecutive_losses ctx (Some (pr_trade_outcomes req)) (pr_current_time req)),
      gate_outcome_of ''evaluate_concentration'' cost
        (evaluate_concentration ctx (pr_target_family req) cost (pr_open_positions req))])"
  by (simp add: gate_report_def run_named_gate_def STATELESS_GATES_def Let_def)

section \<open>RiskProvider\<close>

record risk_provider =
  rp_ctx :: risk_context
  rp_authority :: authority

definition RiskProvider_new :: "risk_context option \<Rightarrow> authority option \<Rightarrow> risk_provider" where
  "RiskProvider_new ctx ra =
     \<lparr>rp_ctx = (case ctx of None \<Rightarrow> default_context | Some c \<Rightarrow> c),
      rp_authority = (case ra of None \<Rightarrow> RiskAuthority_new None None None None | Some a \<Rightarrow> a)\<rparr>"

record provider_result =
  pv_approved :: bool
  pv_reason_code :: string
  pv_suggested_size :: pynum
  pv_gate_outcomes :: "gate_outcome list"
  pv_state_schema_version :: int
  pv_elapsed_us :: int
  pv_receipt :: receipt
  pv_api_version :: int

definition dict :: "(string \<times> pyval) list \<Rightarrow> pyval" where
  "dict kvs = VDict (map (\<lambda>(k, v). (VStr k, v)) kvs)"

definition advisory_value :: "provider_request \<Rightarrow> pyval" where
  "advisory_value req =
     (case pr_advisory req of None \<Rightarrow> VNone | Some kvs \<Rightarrow> if kvs = [] then VNone else VDict kvs)"

definition receipt_inputs :: "provider_request \<Rightarrow> pyval" where
  "receipt_inputs req = dict
     [(''daily_realized_pnl'', VFloat (pr_daily_realized_pnl req)),
      (''equity'', VFloat (pr_equity req)),
      (''target_family'', VStr (pr_target_family req)),
      (''proposed_cost'', VFloat (pr_proposed_cost req)),
      (''expected_value'', VFloat (pr_expected_value req)),
      (''open_positions'', VList (map (\<lambda>p. dict
         [(''ticker'', VStr (ticker p)), (''family'', VStr (family p)),
          (''cost_basis'', val_of_num (cost_basis p)),
          (''current_value'', val_of_num (current_value p)),
          (''is_resolved'', VBool (is_resolved p))]) (pr_open_positions req))),
      (''trade_outcomes'', VList (map (\<lambda>oc. dict
         [(''timestamp'', VStr (isoformat (timestamp oc))), (''pnl'', val_of_num (pnl oc))])
         (pr_trade_outcomes req))),
      (''current_time'', (case pr_current_time req of None \<Rightarrow> VNone | Some t \<Rightarrow> VStr (isoformat t))),
      (''advisory'', advisory_value req)]"

definition receipt_config :: "risk_context \<Rightarrow> pyval" where
  "receipt_config ctx = dict
     [(''max_daily_drawdown_pct'', val_of_num (max_daily_drawdown_pct ctx)),
      (''max_weekly_drawdown_pct'', val_of_num (max_weekly_drawdown_pct ctx)),
      (''max_correlated_exposure'', val_of_num (max_correlated_exposure ctx)),
      (''min_expected_value'', val_of_num (min_expected_value ctx)),
      (''latency_budget_us'', VInt (latency_budget_us ctx)),
      (''consecutive_loss_limit'', VInt (consecutive_loss_limit ctx)),
      (''consecutive_loss_window_minutes'', val_of_num (consecutive_loss_window_minutes ctx)),
      (''state_schema_version'', VInt RISK_STATE_SCHEMA_VERSION)]"

definition receipt_details :: "provider_request \<Rightarrow> string \<Rightarrow> gate_outcome list \<Rightarrow> (pyval \<times> pyval) list" where
  "receipt_details req reason outs =
     [(VStr ''advisory'', advisory_value req),
      (VStr ''reason_code'', VStr reason),
      (VStr ''gate_outcomes'', VList (map (\<lambda>g. dict
         [(''gate'', VStr (go_gate g)), (''approved'', VBool (go_approved g)),
          (''reason_code'', VStr (go_reason g))]) outs)),
      (VStr ''api_version'', VInt PROVIDER_API_VERSION)]"

definition request_inputs :: "provider_request \<Rightarrow> trade_inputs" where
  "request_inputs req =
     \<lparr>ti_daily_realized_pnl = PyFloat (pr_daily_realized_pnl req),
      ti_equity = PyFloat (pr_equity req), ti_target_family = pr_target_family req,
      ti_proposed_cost = PyFloat (pr_proposed_cost req),
      ti_open_positions = pr_open_positions req,
      ti_expected_value = PyFloat (pr_expected_value req),
      ti_trade_outcomes = (if pr_trade_outcomes req = [] then None else Some (pr_trade_outcomes req)),
      ti_current_time = pr_current_time req, ti_cluster_cap = None\<rparr>"

text \<open>
  \<open>evaluate\<close>: the result or the exception, with the trace, the authority and the callback's
  calls, which are those of the evaluation whatever happens after it. \<open>elapsed_us\<close> comes from
  the provider's own two clock readings.
\<close>

definition provider_evaluate ::
    "(pyval \<Rightarrow> string) \<Rightarrow> engine_env \<Rightarrow> int \<times> int \<Rightarrow> risk_provider \<Rightarrow> provider_request \<Rightarrow> trace_log
      \<Rightarrow> provider_result res \<times> stateful_result" where
  "provider_evaluate str_obj env clock rp req tr =
     (let ctx = rp_ctx rp; sr = evaluate_with_state env (rp_authority rp) ctx (request_inputs req) tr
      in (rbind (sr_decision sr) (\<lambda>d.
          rbind (gate_report ctx req) (\<lambda>outs.
          rbind (build_risk_receipt str_obj (pr_run_id req) (receipt_inputs req) (receipt_config ctx)
                  (if approved d then ''approved'' else ''rejected'') [] None
                  (Some (receipt_details req (reason_code d) outs))) (\<lambda>rc.
            Inr \<lparr>pv_approved = approved d, pv_reason_code = reason_code d,
                 pv_suggested_size = suggested_size d, pv_gate_outcomes = outs,
                 pv_state_schema_version = RISK_STATE_SCHEMA_VERSION,
                 pv_elapsed_us = (snd clock - fst clock) div 1000, pv_receipt = rc,
                 pv_api_version = PROVIDER_API_VERSION\<rparr>))), sr))"

text \<open>
  The same on any argument: an object of another type is refused before anything runs.
\<close>

datatype request_arg = ARequest provider_request | ANother pyval

definition provider_evaluate_arg ::
    "(pyval \<Rightarrow> string) \<Rightarrow> engine_env \<Rightarrow> int \<times> int \<Rightarrow> risk_provider \<Rightarrow> request_arg \<Rightarrow> trace_log
      \<Rightarrow> provider_result res \<times> stateful_result" where
  "provider_evaluate_arg str_obj env clock rp arg tr =
     (case arg of
        ARequest req \<Rightarrow> provider_evaluate str_obj env clock rp req tr
      | ANother _ \<Rightarrow>
          (let e = RiskProviderError ''request'' ''expected a RiskProviderRequest''
           in (Inl e, \<lparr>sr_decision = Inl e, sr_log = tr, sr_authority = rp_authority rp, sr_calls = []\<rparr>)))"

section \<open>Laws of the boundary\<close>

text \<open>A request the engine can evaluate: named, and every number a finite float.\<close>

definition request_ok :: "provider_request \<Rightarrow> bool" where
  "request_ok req \<longleftrightarrow> strip (pr_run_id req) \<noteq> [] \<and> strip (pr_target_family req) \<noteq> []
     \<and> is_finite (pr_daily_realized_pnl req) \<and> is_finite (pr_equity req)
     \<and> is_finite (pr_proposed_cost req) \<and> is_finite (pr_expected_value req)"

text \<open>What refusing the field \<open>name\<close> raises.\<close>

fun refuses :: "string \<Rightarrow> exn \<Rightarrow> bool" where
  "refuses name (RiskProviderError f msg) = (f = name)"
| "refuses name e = is_overflow e"

text \<open>The fields, in the order in which they are validated.\<close>

definition request_fields :: "string list" where
  "request_fields = [''run_id'', ''target_family'', ''daily_realized_pnl'', ''equity'', ''proposed_cost'',
     ''expected_value'', ''open_positions'', ''trade_outcomes'', ''current_time'', ''advisory'']"

lemma refuses_overflow: "is_overflow e \<Longrightarrow> refuses name e"
  by (cases e) simp_all

lemma refuses_text: "refuses name e \<Longrightarrow> is_overflow e \<or> startswith (name @ '': '') (exn_text e)"
  using startswith_append [of "name @ '': ''"] by (cases e) simp_all

lemma require_finite_Inr: "require_finite name v = Inr x \<Longrightarrow> is_finite x"
  by (cases "(name, v)" rule: require_finite.cases)
    (auto simp: rbind_eq_Inr simp del: to_float.simps split: if_splits)

lemma require_finite_Inl: "require_finite name v = Inl e \<Longrightarrow> refuses name e"
  by (cases "(name, v)" rule: require_finite.cases)
    (auto simp: rbind_eq_Inl simp del: to_float.simps split: if_splits
      dest: to_float_Inl refuses_overflow)

lemma require_identifier_Inr: "require_identifier name v = Inr s \<Longrightarrow> strip s \<noteq> []"
  by (cases v) (auto split: if_splits)

lemma require_identifier_Inl: "require_identifier name v = Inl e \<Longrightarrow> refuses name e"
  by (cases v) (auto split: if_splits)

lemma items_of_Inl: "items_of cast name item_type index vs = Inl e \<Longrightarrow> refuses name e"
  by (induction vs arbitrary: index) (auto simp: rbind_eq_Inl split: option.splits)

lemma require_tuple_of_Inl: "require_tuple_of cast name item_type v = Inl e \<Longrightarrow> refuses name e"
  by (cases v) (auto dest: items_of_Inl)

lemma require_time_Inl: "require_time v = Inl e \<Longrightarrow> refuses ''current_time'' e"
  by (cases v) auto

lemma require_advisory_Inl: "require_advisory v = Inl e \<Longrightarrow> refuses ''advisory'' e"
  by (cases v) auto

text \<open>C32. Construction is the validation boundary: a request that exists has non-blank
  identifiers and only finite floats, and whatever Python values the arguments are, refusing
  them raises a \<open>RiskProviderError\<close> whose text starts with the name of a field of the request, or
  the \<open>OverflowError\<close> of an integer that no float holds.\<close>

theorem request_validated:
  "case RiskProviderRequest_new run_id pl equity fam cost ev positions outcomes time advisory of
     Inr req \<Rightarrow> request_ok req
   | Inl e \<Rightarrow> is_overflow e
       \<or> list_ex (\<lambda>name. refuses name e \<and> startswith (name @ '': '') (exn_text e)) request_fields"
proof (cases "RiskProviderRequest_new run_id pl equity fam cost ev positions outcomes time advisory")
  case (Inl e)
  then have "list_ex (\<lambda>name. refuses name e) request_fields"
    unfolding RiskProviderRequest_new_def rbind_eq_Inl
    by (auto simp: request_fields_def dest: require_identifier_Inl require_finite_Inl require_tuple_of_Inl
        require_time_Inl require_advisory_Inl)
  then show ?thesis using Inl refuses_text by (auto simp: list_ex_iff)
next
  case (Inr req)
  then have "request_ok req"
    unfolding RiskProviderRequest_new_def rbind_eq_Inr
    by (auto simp: request_ok_def dest: require_identifier_Inr require_finite_Inr)
  then show ?thesis using Inr by simp
qed

section \<open>The report and the decision\<close>

text \<open>An outcome of the report is the verdict of its gate.\<close>

lemma all_ok_Inr: "all_ok rs = Inr xs \<longleftrightarrow> rs = map Inr xs"
  by (induction rs arbitrary: xs) (auto simp: rbind_eq_Inr)

context risk_gate
begin

lemma outcome_verdict:
  assumes "gate_outcome_of name cost (gate i) = Inr g"
  shows "verdict_of (gate i) = Inr (if go_approved g then None else Some (go_reason g))"
proof -
  obtain d b d' where d: "new_decision True ''OK'' cost = Inr d" "gate i d = Inr (b, d')"
      "g = \<lparr>go_gate = name, go_approved = approved d', go_reason = reason_code d'\<rparr>"
    using assms by (auto simp: gate_outcome_of_def rbind_eq_Inr)
  then have "approved d" by (simp add: new_decision_Inr)
  then show ?thesis
    using d by (auto simp: verdict_iff split: sum.splits option.splits)
qed

end

lemmas outcome_verdicts = ev_gate.outcome_verdict [of _ _ "(ctx, ev)" for ctx ev, simplified]
  drawdown_gate.outcome_verdict [of _ _ "(ctx, p, q)" for ctx p q, simplified]
  loss_gate.outcome_verdict [of _ _ "(ctx, ocs, now)" for ctx ocs now, simplified]
  concentration_gate.outcome_verdict [of _ _ "(ctx, fam, cost, ps)" for ctx fam cost ps, simplified]

text \<open>\<open>list(...) or None\<close> makes no difference to the gate.\<close>

lemma consecutive_losses_none: "evaluate_consecutive_losses ctx None now = evaluate_consecutive_losses ctx (Some []) now"
  by (rule ext) (simp add: evaluate_consecutive_losses_def)

lemma request_outcomes_gate:
  "evaluate_consecutive_losses ctx (ti_trade_outcomes (request_inputs req)) now
     = evaluate_consecutive_losses ctx (Some (pr_trade_outcomes req)) now"
  by (simp add: request_inputs_def consecutive_losses_none)

definition outcome_verdict :: "gate_outcome \<Rightarrow> string option res" where
  "outcome_verdict g = Inr (if go_approved g then None else Some (go_reason g))"

lemma gate_report_verdicts:
  assumes "gate_report ctx req = Inr outs"
  shows "gate_verdicts env ctx (request_inputs req)
    = map outcome_verdict outs @ [Inr None, latency_verdict ctx (elapsed_us env)]"
proof -
  obtain g1 g2 g3 g4 where outs: "outs = [g1, g2, g3, g4]"
    and g: "gate_outcome_of ''evaluate_expected_value'' (PyFloat (pr_proposed_cost req))
          (evaluate_expected_value ctx (PyFloat (pr_expected_value req))) = Inr g1"
      "gate_outcome_of ''evaluate_drawdown'' (PyFloat (pr_proposed_cost req))
          (evaluate_drawdown ctx (PyFloat (pr_daily_realized_pnl req)) (PyFloat (pr_equity req))) = Inr g2"
      "gate_outcome_of ''evaluate_consecutive_losses'' (PyFloat (pr_proposed_cost req))
          (evaluate_consecutive_losses ctx (Some (pr_trade_outcomes req)) (pr_current_time req)) = Inr g3"
      "gate_outcome_of ''evaluate_concentration'' (PyFloat (pr_proposed_cost req))
          (evaluate_concentration ctx (pr_target_family req) (PyFloat (pr_proposed_cost req))
             (pr_open_positions req)) = Inr g4"
    using assms unfolding gate_report_gates Let_def all_ok_Inr by auto
  show ?thesis
    using outcome_verdicts(1) [OF g(1)] outcome_verdicts(2) [OF g(2)] outcome_verdicts(3) [OF g(3)]
      outcome_verdicts(4) [OF g(4)]
    unfolding gate_verdicts_def outs list.map outcome_verdict_def request_outcomes_gate
    by (simp add: request_inputs_def cluster_verdict_def)
qed

lemma first_rejection_outcomes:
  "first_rejection (map outcome_verdict outs @ vs) =
     (case filter (\<lambda>g. \<not> go_approved g) outs of
        [] \<Rightarrow> first_rejection vs
      | g # _ \<Rightarrow> Inr (Some (go_reason g)))"
  by (induction outs) (auto simp: outcome_verdict_def)

section \<open>A sample evaluation\<close>

definition sample_request :: provider_request where
  "sample_request = \<lparr>pr_run_id = ''run-1'', pr_daily_realized_pnl = f64_zero,
     pr_equity = lit 10000 1, pr_target_family = ''FED'', pr_proposed_cost = lit 100 1,
     pr_expected_value = lit 5 100, pr_open_positions = [], pr_trade_outcomes = [],
     pr_current_time = None, pr_advisory = Some [(VStr ''note'', VStr ''ok'')]\<rparr>"

definition sample_provider :: risk_provider where
  "sample_provider = RiskProvider_new None None"

lemma sample_request_inputs: "request_inputs (sample_request\<lparr>pr_advisory := a\<rparr>) = sample_inputs"
  by (simp add: request_inputs_def sample_request_def sample_inputs_def)

lemma sample_provider_simps: "rp_ctx sample_provider = default_context"
  "hands_off (rp_authority sample_provider)"
  "first_rejection (control_verdicts (rp_authority sample_provider) now) = Inr None"
  "sr_decision (evaluate_with_state sample_env (rp_authority sample_provider) default_context
     sample_inputs tr) = decide sample_env default_context sample_inputs"
proof -
  show ho: "hands_off (rp_authority sample_provider)"
    by (simp add: sample_provider_def RiskProvider_new_def RiskAuthority_new_def hands_off_def)
  show none: "first_rejection (control_verdicts (rp_authority sample_provider) now) = Inr None" for now
    by (simp add: sample_provider_def RiskProvider_new_def RiskAuthority_new_def
        control_verdicts_def control_verdict_def)
  show "sr_decision (evaluate_with_state sample_env (rp_authority sample_provider) default_context
     sample_inputs tr) = decide sample_env default_context sample_inputs"
    by (simp add: evaluate_with_state_chain [OF ho] first_rejection_append none decide_def)
qed (simp add: sample_provider_def RiskProvider_new_def)

lemma sample_gate_outcome:
  "gate_outcome_of name (PyFloat (lit 100 1)) g_pass
     = Inr \<lparr>go_gate = name, go_approved = True, go_reason = ''OK''\<rparr>"
  by (simp add: gate_outcome_of_def sample_cost g_pass_def)

lemma sample_report:
  "gate_report default_context (sample_request\<lparr>pr_advisory := a\<rparr>) = Inr
     (map (\<lambda>name. \<lparr>go_gate = name, go_approved = True, go_reason = ''OK''\<rparr>)
       [''evaluate_expected_value'', ''evaluate_drawdown'', ''evaluate_consecutive_losses'',
        ''evaluate_concentration''])"
  by (simp add: gate_report_gates sample_request_def sample_gates sample_losses sample_concentration
      default_exposure sample_gate_outcome)

lemma sample_evaluates:
  assumes "a \<in> {None, Some [], Some [(VStr ''note'', VStr ''ok'')]}"
  shows "\<exists>res. fst (provider_evaluate (\<lambda>_. []) sample_env (0, 0) sample_provider
    (sample_request\<lparr>pr_advisory := a\<rparr>) []) = Inr res"
proof -
  let ?outs = "map (\<lambda>name. \<lparr>go_gate = name, go_approved = True, go_reason = ''OK''\<rparr>)
       [''evaluate_expected_value'', ''evaluate_drawdown'', ''evaluate_consecutive_losses'',
        ''evaluate_concentration'']"
  let ?r = "sample_request\<lparr>pr_advisory := a\<rparr>"
  have "\<exists>rc. build_risk_receipt (\<lambda>_. []) (pr_run_id ?r) (receipt_inputs ?r)
      (receipt_config default_context) ''approved'' [] None (Some (receipt_details ?r ''OK'' ?outs)) = Inr rc"
    unfolding build_risk_receipt_iff using assms by (elim insertE emptyE; simp only:) code_simp+
  then show ?thesis
    by (auto simp: provider_evaluate_def sample_provider_simps sample_request_inputs sample_approved
        sample_report rbind_eq_Inr simp del: list.map)
qed

section \<open>What a result says\<close>

text \<open>C17. The report agrees with the decision: when no desk control stops the trade, the decision
  is rejected with the reason of the first gate the report shows as rejecting, and if the report
  shows none it is approved or rejected by the latency budget only.\<close>

theorem report_agrees_with_decision:
  assumes "hands_off (rp_authority rp)"
    and "first_rejection (control_verdicts (rp_authority rp) (pr_current_time req)) = Inr None"
    and "fst (provider_evaluate str_obj env clock rp req tr) = Inr res"
  shows "case filter (\<lambda>g. \<not> go_approved g) (pv_gate_outcomes res) of
      [] \<Rightarrow> pv_approved res = (elapsed_us env \<le> latency_budget_us (rp_ctx rp))
    | g # _ \<Rightarrow> \<not> pv_approved res \<and> pv_reason_code res = go_reason g"
proof -
  obtain d outs where d: "sr_decision (evaluate_with_state env (rp_authority rp) (rp_ctx rp)
        (request_inputs req) tr) = Inr d"
    and outs: "gate_report (rp_ctx rp) req = Inr outs"
    and res: "pv_approved res = approved d" "pv_reason_code res = reason_code d"
      "pv_gate_outcomes res = outs"
    using assms(3) by (auto simp: provider_evaluate_def Let_def rbind_eq_Inr)
  have now: "ti_current_time (request_inputs req) = pr_current_time req"
    by (simp add: request_inputs_def)
  obtain d0 where d0: "new_decision True ''OK'' (ti_proposed_cost (request_inputs req)) = Inr d0"
    and concl: "conclude (first_rejection (map outcome_verdict outs
        @ [Inr None, latency_verdict (rp_ctx rp) (elapsed_us env)])) d0 = Inr d"
    using d assms(2)
    unfolding evaluate_with_state_chain [OF assms(1)] gate_report_verdicts [OF outs] now
      first_rejection_append [of "control_verdicts _ _"]
    by (auto simp: rbind_eq_Inr)
  have "approved d0" using d0 by (simp add: new_decision_Inr)
  then show ?thesis
    using concl unfolding first_rejection_outcomes res
    by (auto simp: latency_verdict_def split: list.splits if_splits)
qed

theorem report_agrees_with_decision_witness:
  "\<exists>res. fst (provider_evaluate (\<lambda>_. []) sample_env (0, 0) sample_provider sample_request []) = Inr res
     \<and> (case filter (\<lambda>g. \<not> go_approved g) (pv_gate_outcomes res) of
      [] \<Rightarrow> pv_approved res = (elapsed_us sample_env \<le> latency_budget_us default_context)
    | g # _ \<Rightarrow> \<not> pv_approved res \<and> pv_reason_code res = go_reason g)"
proof -
  have "sample_request\<lparr>pr_advisory := Some [(VStr ''note'', VStr ''ok'')]\<rparr> = sample_request"
    by (simp add: sample_request_def)
  then obtain res where res: "fst (provider_evaluate (\<lambda>_. []) sample_env (0, 0) sample_provider
      sample_request []) = Inr res"
    using sample_evaluates [of "Some [(VStr ''note'', VStr ''ok'')]"] by auto
  show ?thesis
    using report_agrees_with_decision [OF sample_provider_simps(2,3) res] res
    unfolding sample_provider_simps(1) by blast
qed

section \<open>The receipt of a result\<close>

lemma result_receipt:
  assumes "fst (provider_evaluate str_obj env clock rp req tr) = Inr r"
  shows "\<exists>outs. gate_report (rp_ctx rp) req = Inr outs
    \<and> build_risk_receipt str_obj (pr_run_id req) (receipt_inputs req) (receipt_config (rp_ctx rp))
        (if pv_approved r then ''approved'' else ''rejected'') [] None
        (Some (receipt_details req (pv_reason_code r) outs)) = Inr (pv_receipt r)"
  using assms by (auto simp: provider_evaluate_def Let_def rbind_eq_Inr)

lemma receipt_hashes:
  assumes "build_risk_receipt str_obj run_id inputs config outcome refs provenance details = Inr rc"
  shows "receipt_hash str_obj inputs = Inr (rc_inputs_hash rc)"
    and "receipt_hash str_obj config = Inr (rc_config_hash rc)" and "rc_outcome rc = outcome"
  using assms by (auto simp: build_risk_receipt_def rguard_eq_Inr rbind_eq_Inr simp del: reject_sensitive.simps)



section \<open>Advisory data\<close>

text \<open>C18. Advisory data cannot influence the decision: replacing it by any other changes neither the
  verdict, the reason, the size and the gate outcomes of a result, nor the trace, the authority
  and the calls of the callback, whether or not a receipt can be issued for it.\<close>

theorem advisory_has_no_influence:
  "let r = provider_evaluate str_obj env clock rp req tr;
       r' = provider_evaluate str_obj env clock rp (req\<lparr>pr_advisory := a\<rparr>) tr
   in snd r' = snd r
    \<and> (\<forall>x y. fst r = Inr x \<longrightarrow> fst r' = Inr y \<longrightarrow>
         pv_approved y = pv_approved x \<and> pv_reason_code y = pv_reason_code x
       \<and> pv_suggested_size y = pv_suggested_size x \<and> pv_gate_outcomes y = pv_gate_outcomes x)"
proof -
  have "request_inputs (req\<lparr>pr_advisory := a\<rparr>) = request_inputs req"
    "gate_report ctx (req\<lparr>pr_advisory := a\<rparr>) = gate_report ctx req" for ctx
    by (simp_all add: request_inputs_def gate_report_gates)
  then show ?thesis
    by (auto simp: provider_evaluate_def Let_def rbind_eq_Inr)
qed

theorem advisory_has_no_influence_witness:
  "\<exists>x y. fst (provider_evaluate (\<lambda>_. []) sample_env (0, 0) sample_provider
        (sample_request\<lparr>pr_advisory := None\<rparr>) []) = Inr x
    \<and> fst (provider_evaluate (\<lambda>_. []) sample_env (0, 0) sample_provider
        (sample_request\<lparr>pr_advisory := Some [(VStr ''note'', VStr ''ok'')]\<rparr>) []) = Inr y
    \<and> pv_approved y = pv_approved x \<and> pv_gate_outcomes y = pv_gate_outcomes x"
proof -
  obtain x y where xy: "fst (provider_evaluate (\<lambda>_. []) sample_env (0, 0) sample_provider
        (sample_request\<lparr>pr_advisory := None\<rparr>) []) = Inr x"
    "fst (provider_evaluate (\<lambda>_. []) sample_env (0, 0) sample_provider
        (sample_request\<lparr>pr_advisory := Some [(VStr ''note'', VStr ''ok'')]\<rparr>) []) = Inr y"
    using sample_evaluates by blast
  have upd: "sample_request\<lparr>pr_advisory := None, pr_advisory := Some [(VStr ''note'', VStr ''ok'')]\<rparr>
      = sample_request\<lparr>pr_advisory := Some [(VStr ''note'', VStr ''ok'')]\<rparr>" by simp
  show ?thesis
    using advisory_has_no_influence [of "\<lambda>_. []" sample_env "(0, 0)" sample_provider
        "sample_request\<lparr>pr_advisory := None\<rparr>" "[]" "Some [(VStr ''note'', VStr ''ok'')]"] xy
    unfolding Let_def upd by blast
qed

end
