(* ===== verification/DeskGuarantee.thy ===== *)
theory DeskGuarantee
  imports ConfigUse ApprovalSafety Provider
begin

text \<open>
  The components put together the way a desk runs them: a policy file is loaded (\<open>config.py\<close>), its
  parameters build a \<open>RiskContext\<close> (\<open>state.py\<close>), a request is validated at the boundary and
  evaluated by a \<open>RiskProvider\<close> (\<open>provider.py\<close>) on an authority with its controls and gates
  (\<open>engine.py\<close>, \<open>gates.py\<close>), and the result carries its receipt (\<open>provider_receipts.py\<close>).
\<close>

section \<open>From the file to the receipt\<close>

text \<open>What the provider's result is made of.\<close>

lemma provider_result_parts:
  assumes "fst (provider_evaluate str_obj env clock rp req tr) = Inr r"
  shows "\<exists>d. sr_decision (evaluate_with_state env (rp_authority rp) (rp_ctx rp) (request_inputs req) tr) = Inr d
    \<and> pv_approved r = approved d \<and> pv_reason_code r = reason_code d
    \<and> pv_suggested_size r = suggested_size d \<and> gate_report (rp_ctx rp) req = Inr (pv_gate_outcomes r)"
  using assms by (auto simp: provider_evaluate_def Let_def rbind_eq_Inr)

text \<open>When every verdict of the chain passes, so does every outcome of the report.\<close>

lemma report_all_approved:
  assumes "gate_report ctx req = Inr outs"
    and "\<forall>v \<in> set (gate_verdicts env ctx (request_inputs req)). v = Inr None"
  shows "list_all go_approved outs"
proof -
  have "\<forall>g \<in> set outs. outcome_verdict g = Inr None"
    using assms(2) unfolding gate_report_verdicts [OF assms(1)] by simp
  then show ?thesis by (auto simp: outcome_verdict_def list_all_iff split: if_splits)
qed

text \<open>A drawdown limit of at most one keeps the day's loss within the equity.\<close>

lemma loss_within_equity:
  assumes "within_drawdown ctx ti" and "documented_ranges ctx"
  shows "(1 - uround) ^ 3 * - num_value (ti_daily_realized_pnl ti) \<le> (1 + tiny) * num_value (ti_equity ti)"
proof (cases "num_value (ti_daily_realized_pnl ti) < 0")
  case True
  have eq: "0 < num_value (ti_equity ti)" using assms(1) by (simp add: within_drawdown_def)
  have le: "(num_value (max_daily_drawdown_pct ctx) + tiny) * num_value (ti_equity ti)
      \<le> (1 + tiny) * num_value (ti_equity ti)"
    using eq assms(2) by (intro mult_right_mono) (simp_all add: documented_ranges_def)
  have "(1 - uround) ^ 3 * - num_value (ti_daily_realized_pnl ti)
      \<le> (num_value (max_daily_drawdown_pct ctx) + tiny) * num_value (ti_equity ti)"
    using assms(1) True unfolding within_drawdown_def by blast
  then show ?thesis using le by (rule order_trans)
next
  case False
  have "0 \<le> (1 - uround) ^ 3" by (simp add: uround_def)
  then have "(1 - uround) ^ 3 * - num_value (ti_daily_realized_pnl ti) \<le> 0"
    using False by (simp add: zero_le_mult_iff)
  moreover have "0 \<le> (1 + tiny) * num_value (ti_equity ti)"
    using assms(1) by (simp add: within_drawdown_def tiny_def)
  ultimately show ?thesis by linarith
qed


section \<open>A sample desk\<close>

definition half_context :: risk_context where
  "half_context = default_context\<lparr>max_daily_drawdown_pct := PyFloat (lit 1 2)\<rparr>"

lemma sample_file_loads:
  "fst (load_config_file id (\<lambda>p. True) (\<lambda>p. Inr sample_yaml) (Some ''risk.yaml'')) = Inr
     [(''max_daily_drawdown_pct'', PyFloat (lit 1 2)), (''kelly_conservative_fraction'', PyFloat (lit 1 4))]"
  by (simp add: load_config_file_def sample_yaml_loads)

lemma half_from_config:
  "context_from_config [(''max_daily_drawdown_pct'', PyFloat (lit 1 2)),
     (''kelly_conservative_fraction'', PyFloat (lit 1 4))] = Inr half_context"
  by code_simp

lemma half_gates:
  "evaluate_expected_value half_context (PyFloat (lit 5 100)) = g_pass"
  "evaluate_drawdown half_context (PyFloat f64_zero) (PyFloat (lit 10000 1)) = g_pass"
  by (rule ext, code_simp)+

lemma half_losses: "evaluate_consecutive_losses half_context ocs t = g_pass"
  by (rule loss_limit_off) code_simp+

lemma half_concentration: "evaluate_concentration half_context fam (PyFloat (lit 100 1)) [] = g_pass"
  by (rule sample_concentration) (simp add: half_context_def default_context_def)

lemma half_latency: "latency_verdict half_context (elapsed_us sample_env) = Inr None"
  by (simp add: latency_verdict_def elapsed_us_def sample_env_def half_context_def default_context_def)

abbreviation plain_request :: provider_request where
  "plain_request \<equiv> sample_request\<lparr>pr_advisory := None\<rparr>"

lemma plain_request_accepted:
  "RiskProviderRequest_new (VStr ''run-1'') (VFloat f64_zero) (VFloat (lit 10000 1)) (VStr ''FED'')
     (VFloat (lit 100 1)) (VFloat (lit 5 100)) (VList []) (VTuple []) VNone VNone = Inr plain_request"
  by code_simp

lemma half_report:
  "gate_report half_context plain_request = Inr
     (map (\<lambda>name. \<lparr>go_gate = name, go_approved = True, go_reason = ''OK''\<rparr>)
       [''evaluate_expected_value'', ''evaluate_drawdown'', ''evaluate_consecutive_losses'',
        ''evaluate_concentration''])"
  by (simp add: gate_report_gates sample_request_def half_gates half_losses half_concentration sample_gate_outcome)

lemma half_decision:
  "sr_decision (evaluate_with_state sample_env sample_desk half_context (request_inputs plain_request) [])
    = Inr \<lparr>approved = True, reason_code = ''OK'', suggested_size = PyFloat (lit 100 1)\<rparr>"
proof -
  have "ti_current_time sample_inputs = None" by (simp add: sample_inputs_def)
  then show ?thesis
    unfolding evaluate_with_state_chain [OF sample_desk_passes(1)] sample_request_inputs
    by (simp add: sample_desk_passes(2), simp add: gate_verdicts_def sample_inputs_def half_gates sample_cost
        half_concentration half_losses half_latency cluster_verdict_def conclude_def)
qed

lemma half_receipt:
  "\<exists>rc. build_risk_receipt (\<lambda>_. []) (pr_run_id sample_request) (receipt_inputs plain_request)
    (receipt_config half_context) ''approved'' [] None (Some (receipt_details plain_request ''OK''
      (map (\<lambda>name. \<lparr>go_gate = name, go_approved = True, go_reason = ''OK''\<rparr>)
       [''evaluate_expected_value'', ''evaluate_drawdown'', ''evaluate_consecutive_losses'',
        ''evaluate_concentration'']))) = Inr rc"
  unfolding build_risk_receipt_iff by code_simp

lemma half_evaluates:
  "\<exists>r. fst (provider_evaluate (\<lambda>_. []) sample_env (0, 0) (RiskProvider_new (Some half_context) (Some sample_desk))
      plain_request []) = Inr r \<and> pv_approved r"
proof -
  have rp: "rp_ctx (RiskProvider_new (Some half_context) (Some sample_desk)) = half_context"
    "rp_authority (RiskProvider_new (Some half_context) (Some sample_desk)) = sample_desk"
    by (simp_all add: RiskProvider_new_def)
  obtain rc where rc: "build_risk_receipt (\<lambda>_. []) (pr_run_id sample_request) (receipt_inputs plain_request)
    (receipt_config half_context) ''approved'' [] None (Some (receipt_details plain_request ''OK''
      (map (\<lambda>name. \<lparr>go_gate = name, go_approved = True, go_reason = ''OK''\<rparr>)
       [''evaluate_expected_value'', ''evaluate_drawdown'', ''evaluate_consecutive_losses'',
        ''evaluate_concentration'']))) = Inr rc"
    using half_receipt by blast
  show ?thesis
    by (simp add: provider_evaluate_def Let_def rp half_decision half_report rc del: list.map)
qed


end
