(* ===== verification/FloatText.thy ===== *)
theory FloatText
  imports PyText
begin

text \<open>
  \<open>repr\<close> of a float reads back as the same float: the digits found by \<open>shortest\<close> identify it
  (seventeen always do), and reading the text gives their value.
\<close>

section \<open>Decimals near a float\<close>

lemma rne_real_near:
  assumes "\<bar>x - of_int m\<bar> < 1 / 2"
  shows "rne_real x = m"
proof -
  have "\<bar>real_of_int (rne_real x) - of_int m\<bar> < 1" using rne_real_error [of x] assms by linarith
  then have "\<bar>real_of_int (rne_real x - m)\<bar> < 1" by simp
  then show ?thesis by linarith
qed

lemma mag_on_grid:
  assumes "0 < w" and "\<bar>w / 2 powi grid w - of_int m\<bar> < 1 / 2"
  shows "mag w = of_int m * 2 powi grid w"
  using assms rne_real_near [OF assms(2)] by (simp add: mag_def)

text \<open>Just below a power of two the grid is twice as fine; seventeen digits still suffice.\<close>

lemma mag_below_binade:
  assumes "w = x * 2 powi e" and "0 < x" and "-1074 < e" and "2 ^ 52 \<le> m" and "x < 4503599627370496"
    and "\<bar>x - of_int m\<bar> < 1 / 2" and "\<bar>x - of_int m\<bar> \<le> of_int m / (2 * 10 ^ 16)"
  shows "mag w = of_int m * 2 powi e"
proof -
  let ?g = "2 powi e :: real" and ?m = "real_of_int m"
  have w0: "0 < w" using assms(1,2) by simp
  have "?m < 4503599627370497" using assms(5,6) by linarith
  then have m: "m = 4503599627370496" using assms(4) of_int_less_iff [of m "4503599627370497", where 'a = real] by simp
  have close: "\<bar>2 * x - 9007199254740992\<bar> < 1 / 2"
  proof -
    have "\<bar>x - 4503599627370496\<bar> * 152587890625 \<le> 34359738368" using assms(7) by (simp add: m)
    then have "\<bar>x - 4503599627370496\<bar> < 6 / 25" by simp
    then show ?thesis by linarith
  qed
  have half: "2 powi (e - 1) = ?g / 2" by (simp add: two_powi_diff)
  have "2 powi (e + 51) \<le> w"
  proof -
    have "2251799813685248 \<le> x" using close by linarith
    then have "2251799813685248 * ?g \<le> x * ?g" by (intro mult_right_mono) simp_all
    then show ?thesis using two_powi_add [of e 51] by (simp add: assms(1) mult.commute)
  qed
  moreover have "w < 2 powi (e + 51 + 1)" using assms(5) two_powi_add [of e 52] by (simp add: assms(1) add.assoc mult.commute)
  ultimately have "ilog2 w = e + 51" by (rule ilog2_unique)
  then have g: "grid w = e - 1" using assms(3) by (simp add: grid_def)
  have "mag w = of_int 9007199254740992 * 2 powi (e - 1)"
    unfolding g [symmetric] using close
    by (intro mag_on_grid [OF w0]) (simp only: g half, simp add: assms(1) mult.commute)
  then show ?thesis by (simp add: m half)
qed

text \<open>The bound for seventeen digits: one part in \<open>2 * 10^16\<close>.\<close>

lemma mag_near:
  assumes "canonical (Fin False m e)" and "0 < m"
    and "\<bar>w - of_int m * 2 powi e\<bar> \<le> of_int m * 2 powi e / (2 * 10 ^ 16)"
  shows "mag w = of_int m * 2 powi e"
proof -
  let ?g = "2 powi e :: real" and ?m = "real_of_int m"
  have c: "m < 2 ^ 53" "-1074 \<le> e" "2 ^ 52 \<le> m \<or> e = -1074" using assms(1) by (simp_all add: canonical_def)
  have "?m < real_of_int (2 ^ 53)" using c(1) by (simp only: of_int_less_iff)
  then have m53: "?m < 9007199254740992" by simp
  have m53': "?m \<le> 9007199254740991" using c(1) of_int_le_iff [of m "9007199254740991", where 'a = real] by simp
  define x where "x = w / ?g"
  have w: "w = x * ?g" by (simp add: x_def)
  have "\<bar>x * ?g - ?m * ?g\<bar> \<le> ?m / (2 * 10 ^ 16) * ?g" using assms(3) by (simp add: w)
  then have "\<bar>x - ?m\<bar> * ?g \<le> ?m / (2 * 10 ^ 16) * ?g" by (simp add: abs_mult flip: left_diff_distrib)
  then have x: "\<bar>x - ?m\<bar> \<le> ?m / (2 * 10 ^ 16)" by simp
  have near: "\<bar>x - ?m\<bar> < 1 / 2" using x m53 by simp
  have "1 \<le> ?m" using assms(2) by simp
  then have x0: "0 < x" using near by linarith
  then have w0: "0 < w" by (simp add: w)
  have upper: "w < 2 powi (e + 52 + 1)"
  proof -
    have "x < 9007199254740992" using near m53' by linarith
    then have "x * ?g < 9007199254740992 * ?g" by simp
    also have "\<dots> = 2 powi (e + 52 + 1)" using two_powi_add [of e 53] by (simp add: add.assoc mult.commute)
    finally show ?thesis by (simp add: w)
  qed
  show ?thesis
  proof (cases "2 powi (e + 52) \<le> w")
    case True
    then have "ilog2 w = e + 52" using upper by (rule ilog2_unique)
    then have g: "grid w = e" using c(2) by (simp add: grid_def)
    show ?thesis using mag_on_grid [OF w0, of m] near by (simp add: g flip: x_def)
  next
    case False
    then have "w < 2 powi (e + 52)" by simp
    then have below: "x < 4503599627370496"
      using two_powi_add [of e 52] by (simp add: w mult.commute)
    show ?thesis
    proof (cases "e = -1074")
      case True
      have "ilog2 w < e + 52"
      proof (rule ccontr)
        assume "\<not> ilog2 w < e + 52"
        then have "(2::real) powi (e + 52) \<le> 2 powi ilog2 w" by (simp add: two_powi_le_iff)
        then show False using ilog2_bounds(1) [OF w0] False by linarith
      qed
      then have g: "grid w = e" using True by (simp add: grid_def)
      show ?thesis using mag_on_grid [OF w0, of m] near by (simp add: g flip: x_def)
    next
      case False
      then show ?thesis using c(2,3) mag_below_binade [OF w x0 _ _ below near x] by simp
    qed
  qed
qed

text \<open>Canonical floats with the same value are the same.\<close>

lemma canonical_unique:
  assumes "canonical (Fin False m e)" and "canonical (Fin False m' e')" and "0 < m"
    and "real_of_int m * 2 powi e = of_int m' * 2 powi e'"
  shows "m = m' \<and> e = e'"
proof -
  have main: "e' \<le> e" if c: "canonical (Fin False m e)" "canonical (Fin False m' e')" "0 < m"
    "real_of_int m * 2 powi e = of_int m' * 2 powi e'" for m e m' e'
  proof (rule ccontr)
    assume "\<not> e' \<le> e"
    then have less: "e + 1 \<le> e'" by simp
    then have "2 ^ 52 \<le> m'" using c(1,2) by (auto simp: canonical_def)
    then have "real_of_int (2 ^ 52) \<le> of_int m'" by (simp only: of_int_le_iff)
    moreover have "(2::real) powi (e + 1) \<le> 2 powi e'" using less by (simp only: two_powi_le_iff)
    ultimately have "real_of_int (2 ^ 52) * 2 powi (e + 1) \<le> of_int m' * 2 powi e'" by (intro mult_mono) simp_all
    then have "real_of_int (2 ^ 53) * 2 powi e \<le> of_int m * 2 powi e" using c(4) by (simp add: two_powi_add)
    then have "real_of_int (2 ^ 53) \<le> of_int m" by simp
    then have "2 ^ 53 \<le> m" by (simp only: of_int_le_iff)
    then show False using c(1) by (simp add: canonical_def)
  qed
  have "0 < real_of_int m' * 2 powi e'" using assms(3) by (simp flip: assms(4))
  then have "0 < m'" by (simp add: zero_less_mult_iff)
  then have "e = e'" using main [OF assms] main [OF assms(2,1) _ assms(4) [symmetric]] by simp
  then show ?thesis using assms(4) by simp
qed

lemma round_to_float:
  assumes "canonical (Fin False m e)" and "0 < m" and "0 < p" and "0 < q"
    and "mag (of_int p / of_int q) = of_int m * 2 powi e"
  shows "round_f64 False p q 0 = Fin False m e"
proof -
  have v: "real_of_int p / of_int q = of_int p / of_int q * 2 powi 0" by simp
  show ?thesis
  proof (rule round_f64_cases [OF assms(3,4) v, of False])
    assume "f64_limit \<le> mag (of_int p / of_int q)"
    then show ?thesis using canonical_mag(2) [OF assms(1,2)] assms(5) by simp
  next
    fix m' t
    assume r: "round_f64 False p q 0 = Fin False m' t" "mag (of_int p / of_int q) = of_int m' * 2 powi t"
      "0 \<le> m'" "m' < 2 ^ 53" "-1074 \<le> t" "t \<le> 971" "2 ^ 52 \<le> m' \<or> t = -1074"
    then have "canonical (Fin False m' t)" by (simp add: canonical_def)
    then show ?thesis using canonical_unique [OF assms(1) _ assms(2)] r(1,2) assms(5) by metis
  qed
qed

text \<open>Equal fractions round to the same float.\<close>

lemma round_f64_ratio:
  assumes "0 < p" "0 < q" "0 < p'" "0 < q'" and "real_of_int p / of_int q = of_int p' / of_int q'"
  shows "round_f64 False p q 0 = round_f64 False p' q' 0"
proof -
  have v: "real_of_int p / of_int q = of_int p / of_int q * 2 powi 0"
    "real_of_int p / of_int q = of_int p' / of_int q' * 2 powi 0" by (simp_all add: assms(5))
  show ?thesis
  proof (rule round_f64_cases [OF assms(1,2) v(1), of False])
    assume o: "round_f64 False p q 0 = Inf False" "f64_limit \<le> mag (of_int p / of_int q)"
    show ?thesis by (rule round_f64_cases [OF assms(3,4) v(2), of False]) (use o in simp_all)
  next
    fix m t
    assume r: "round_f64 False p q 0 = Fin False m t" "mag (of_int p / of_int q) = of_int m * 2 powi t"
      "mag (of_int p / of_int q) < f64_limit"
      "0 \<le> m" "m < 2 ^ 53" "-1074 \<le> t" "t \<le> 971" "2 ^ 52 \<le> m \<or> t = -1074"
    then have c: "canonical (Fin False m t)" by (simp add: canonical_def)
    show ?thesis
    proof (cases "m = 0")
      case False
      then show ?thesis
        using round_to_float [OF c _ assms(3,4)] r(1,2,4) by (simp flip: assms(5))
    next
      case True
      show ?thesis
      proof (rule round_f64_cases [OF assms(3,4) v(2), of False])
        fix m' t'
        assume r': "round_f64 False p' q' 0 = Fin False m' t'" "mag (of_int p / of_int q) = of_int m' * 2 powi t'"
          "2 ^ 52 \<le> m' \<or> t' = -1074"
        then have "m' = 0" using r(2) True by simp
        then show ?thesis using r r' True by simp
      qed (use r(3) in simp)
    qed
  qed
qed

end
