(* ===== verification/ReprLaws.thy ===== *)
theory ReprLaws
  imports FloatText
begin

text \<open>
  The text of a float reads back as that float: \<open>repr\<close> loses nothing. \<open>read_float\<close> is \<open>float(text)\<close>,
  correctly rounded, on the texts a float has.
\<close>

section \<open>Reading a decimal\<close>

definition digit_val :: "char \<Rightarrow> int" where
  "digit_val c = of_char c - 48"

definition digits_val :: "string \<Rightarrow> int" where
  "digits_val s = foldl (\<lambda>v c. 10 * v + digit_val c) 0 s"

definition is_digit :: "char \<Rightarrow> bool" where
  "is_digit c \<longleftrightarrow> c \<in> set ''0123456789''"

definition read_dec :: "int \<Rightarrow> int \<Rightarrow> f64" where
  "read_dec c j = round_f64 False (c * 10 ^ nat j) (10 ^ nat (- j)) 0"

fun read_exp :: "string \<Rightarrow> int" where
  "read_exp [] = 0"
| "read_exp (c # cs) = (if c = CHR ''-'' then - digits_val cs
     else if c = CHR ''+'' then digits_val cs else digits_val (c # cs))"

definition read_mag :: "string \<Rightarrow> f64" where
  "read_mag s =
     (let mant = takeWhile (\<lambda>c. c \<noteq> CHR ''e'') s; ex = drop 1 (dropWhile (\<lambda>c. c \<noteq> CHR ''e'') s);
          ip = takeWhile (\<lambda>c. c \<noteq> CHR ''.'') mant; fp = drop 1 (dropWhile (\<lambda>c. c \<noteq> CHR ''.'') mant)
      in read_dec (digits_val (ip @ fp)) (read_exp ex - int (length fp)))"

definition read_float :: "string \<Rightarrow> f64" where
  "read_float s =
     (if s \<in> {''nan'', ''NaN''} then NaN else if s \<in> {''inf'', ''Infinity''} then Inf False
      else if s \<in> {''-inf'', ''-Infinity''} then Inf True
      else if take 1 s = ''-'' then fneg (read_mag (drop 1 s)) else read_mag s)"

section \<open>Digits\<close>

lemma digits_val_append: "digits_val (s @ t) = digits_val s * 10 ^ length t + digits_val t"
proof -
  have "foldl (\<lambda>v c. 10 * v + digit_val c) a t = a * 10 ^ length t + digits_val t" for a
    unfolding digits_val_def
  proof (induction t rule: rev_induct)
    case (snoc c t)
    then show ?case by (simp add: distrib_left mult.left_commute)
  qed simp
  then show ?thesis unfolding digits_val_def foldl_append by blast
qed

lemma digits_val_Nil [simp]: "digits_val [] = 0"
  by (simp add: digits_val_def)

lemma digits_val_single [simp]: "digits_val [c] = digit_val c"
  by (simp add: digits_val_def)

lemma digits_val_Cons: "digits_val (c # s) = digit_val c * 10 ^ length s + digits_val s"
  using digits_val_append [of "[c]" s] by simp

lemma digit_cases:
  assumes "0 \<le> d" and "d < (10::int)"
  shows "d \<in> {0, 1, 2, 3, 4, 5, 6, 7, 8, 9}"
  using assms by (simp; presburger)

lemma digit_val_char: "0 \<le> d \<Longrightarrow> d < 10 \<Longrightarrow> digit_val (digit_char d) = d"
  by (frule (1) digit_cases) (auto simp: digit_val_def)

lemma is_digit_char [simp]: "is_digit (digit_char d)"
  by (simp add: is_digit_def)

lemma digits_val_str_nat: "0 \<le> n \<Longrightarrow> digits_val (str_nat n) = n"
proof (induction n rule: str_nat.induct)
  case (1 n)
  show ?case
  proof (cases "n < 10")
    case True
    then show ?thesis using 1(2) by (subst str_nat.simps) (simp add: digit_val_char del: digit_char.simps)
  next
    case False
    then have "digits_val (str_nat (n div 10)) = n div 10" using 1 by simp
    moreover have "digit_val (digit_char (n mod 10)) = n mod 10" by (intro digit_val_char) simp_all
    ultimately show ?thesis using False
      by (subst str_nat.simps) (simp add: digits_val_append del: digit_char.simps)
  qed
qed

lemma str_nat_digits: "list_all is_digit (str_nat n)"
proof (induction n rule: str_nat.induct)
  case (1 n)
  then show ?case by (subst str_nat.simps) (simp del: digit_char.simps)
qed

lemma str_nat_length: "0 < n \<Longrightarrow> 10 ^ (length (str_nat n) - 1) \<le> n"
proof (induction n rule: str_nat.induct)
  case (1 n)
  show ?case
  proof (cases "n < 10")
    case True
    then show ?thesis using 1(2) by (subst str_nat.simps) simp
  next
    case False
    then have IH: "10 ^ (length (str_nat (n div 10)) - 1) \<le> n div 10" using 1 by simp
    have pos: "0 < length (str_nat (n div 10))" by simp
    have "length (str_nat n) - 1 = Suc (length (str_nat (n div 10)) - 1)"
      using False pos by (subst str_nat.simps) (simp del: digit_char.simps)
    then have "10 ^ (length (str_nat n) - 1) = 10 * (10 ^ (length (str_nat (n div 10)) - 1) :: int)"
      by (simp only: power_Suc)
    also have "\<dots> \<le> 10 * (n div 10)" using IH by simp
    also have "\<dots> \<le> n" by simp
    finally show ?thesis .
  qed
qed

lemma zeros_simps [simp]:
  "list_all is_digit (zeros n)" "digits_val (zeros n) = 0" "length (zeros n) = nat n"
proof -
  have "digits_val (replicate k (CHR ''0'')) = 0" for k
    by (induction k) (simp_all add: digits_val_Cons digit_val_def)
  then show "digits_val (zeros n) = 0" by (simp add: zeros_def)
qed (simp_all add: zeros_def is_digit_def list_all_iff)

lemma digits_val_pad2: "0 \<le> n \<Longrightarrow> digits_val (pad2 n) = n"
  by (simp add: pad2_def digits_val_Cons digits_val_str_nat digit_val_def)

section \<open>Splitting the text\<close>

lemma digits_no_marks:
  assumes "list_all is_digit s"
  shows "CHR ''e'' \<notin> set s" "CHR ''.'' \<notin> set s" "CHR ''-'' \<notin> set s"
proof -
  have "is_digit c" if "c \<in> set s" for c using assms that by (simp add: list_all_iff)
  moreover have "\<not> is_digit (CHR ''e'')" "\<not> is_digit (CHR ''.'')" "\<not> is_digit (CHR ''-'')"
    by (simp_all add: is_digit_def)
  ultimately show "CHR ''e'' \<notin> set s" "CHR ''.'' \<notin> set s" "CHR ''-'' \<notin> set s" by blast+
qed

lemma takeWhile_until:
  assumes "c \<notin> set s"
  shows "takeWhile (\<lambda>x. x \<noteq> c) (s @ c # t) = s" "dropWhile (\<lambda>x. x \<noteq> c) (s @ c # t) = c # t"
    "takeWhile (\<lambda>x. x \<noteq> c) s = s" "dropWhile (\<lambda>x. x \<noteq> c) s = []"
  using assms by (induction s) auto

lemma read_mag_fixed:
  assumes "list_all is_digit ip" and "list_all is_digit fp"
  shows "read_mag (ip @ ''.'' @ fp) = read_dec (digits_val (ip @ fp)) (- int (length fp))"
proof -
  have e: "CHR ''e'' \<notin> set (ip @ ''.'' @ fp)" using assms digits_no_marks(1) by auto
  show ?thesis using assms [THEN digits_no_marks(2)]
    unfolding read_mag_def takeWhile_until(3,4) [OF e] Let_def by (simp add: takeWhile_until)
qed

lemma read_mag_exp:
  assumes "list_all is_digit ip" and "list_all is_digit fp"
  shows "read_mag (ip @ ''e'' @ ex) = read_dec (digits_val ip) (read_exp ex)"
    and "read_mag (ip @ ''.'' @ fp @ ''e'' @ ex) = read_dec (digits_val (ip @ fp)) (read_exp ex - int (length fp))"
proof -
  have e: "CHR ''e'' \<notin> set ip" "CHR ''e'' \<notin> set (ip @ ''.'' @ fp)" using assms digits_no_marks(1) by auto
  note d = assms [THEN digits_no_marks(2)]
  show "read_mag (ip @ ''e'' @ ex) = read_dec (digits_val ip) (read_exp ex)"
    using takeWhile_until(1,2) [OF e(1), of ex] d by (simp add: read_mag_def Let_def takeWhile_until)
  show "read_mag (ip @ ''.'' @ fp @ ''e'' @ ex) = read_dec (digits_val (ip @ fp)) (read_exp ex - int (length fp))"
    using takeWhile_until(1,2) [OF e(2), of ex] d by (simp add: read_mag_def Let_def takeWhile_until)
qed

section \<open>The decimals found\<close>

abbreviation decimal :: "int \<Rightarrow> int \<Rightarrow> real" where
  "decimal c j \<equiv> real_of_int c * 10 powi j"

lemma decimal_frac: "real_of_int (c * 10 ^ nat j) / real_of_int (10 ^ nat (- j)) = decimal c j"
  by (cases "0 \<le> j") (simp_all add: power_int_def power_one_over divide_simps)

lemma read_dec_eq:
  assumes "0 < c" and "0 < c'" and "decimal c j = decimal c' j'"
  shows "read_dec c j = read_dec c' j'"
  unfolding read_dec_def using assms
  by (intro round_f64_ratio) (simp_all only: decimal_frac zero_less_mult_iff zero_less_power zero_less_numeral simp_thms)

lemma reads_back_iff: "reads_back m e c j \<longleftrightarrow> read_dec c j = Fin False m e"
  by (simp add: reads_back_def read_dec_def)

lemma ten_powi_pos [simp]: "(0::real) < 10 powi j"
  by simp

lemma abs_diff_scale: "0 < t \<Longrightarrow> \<bar>x - v / t\<bar> * t = \<bar>x * t - v\<bar>" for t :: real
proof -
  assume t: "0 < t"
  then have "\<bar>x - v / t\<bar> * t = \<bar>(x - v / t) * t\<bar>" by (simp add: abs_mult)
  also have "(x - v / t) * t = x * t - v" using t by (simp add: left_diff_distrib)
  finally show ?thesis .
qed

lemma ten_powi_Suc: "(10::real) powi (j + 1) = 10 * 10 powi j"
  by (simp add: power_int_add)

lemma tens_up_bound: "0 < a \<Longrightarrow> 0 < b \<Longrightarrow> 0 \<le> tens_up a b \<and> real_of_int b \<le> decimal a (tens_up a b)"
proof (induction a b rule: tens_up.induct)
  case (1 a b)
  show ?case
  proof (cases "b \<le> a")
    case True
    then show ?thesis by (subst (1 2) tens_up.simps) simp
  next
    case False
    then have IH: "0 \<le> tens_up (10 * a) b" "real_of_int b \<le> decimal (10 * a) (tens_up (10 * a) b)"
      using 1 by simp_all
    have t: "tens_up a b = tens_up (10 * a) b + 1" using 1(2) False by (subst tens_up.simps) simp
    show ?thesis using IH by (simp add: t ten_powi_Suc)
  qed
qed

lemma dec_point_bound:
  assumes "0 < a" and "0 < b"
  shows "10 powi (dec_point a b - 1) \<le> real_of_int a / of_int b"
proof (cases "b \<le> a")
  case True
  let ?n = "a div b"
  have n: "0 < ?n" using True assms by (simp add: pos_imp_zdiv_pos_iff)
  have "(10::real) powi (dec_point a b - 1) = 10 ^ (length (str_nat ?n) - 1)"
    using True by (simp add: dec_point_def power_int_def nat_diff_distrib)
  also have "\<dots> = real_of_int (10 ^ (length (str_nat ?n) - 1))" by simp
  also have "\<dots> \<le> real_of_int ?n" unfolding of_int_le_iff by (rule str_nat_length [OF n])
  also have "\<dots> \<le> real_of_int a / of_int b" by (rule real_of_int_div4)
  finally show ?thesis .
next
  case False
  have "real_of_int b \<le> decimal a (tens_up a b)" using tens_up_bound [OF assms] by simp
  then show ?thesis using False assms by (simp add: dec_point_def power_int_minus field_simps)
qed

lemma frac_value: "0 < frac_den e" "real_of_int (frac_num m e) / of_int (frac_den e) = of_int m * 2 powi e"
  by (cases "0 \<le> e"; simp add: frac_num_def frac_den_def power_int_def power_one_over divide_simps)+

lemma frac_num_pos: "0 < m \<Longrightarrow> 0 < frac_num m e"
  by (simp add: frac_num_def)

lemma read_dec_near:
  assumes "canonical (Fin False m e)" and "0 < m"
    and "\<bar>decimal c j - of_int m * 2 powi e\<bar> \<le> of_int m * 2 powi e / (2 * 10 ^ 16)"
  shows "0 < c \<and> read_dec c j = Fin False m e"
proof -
  let ?v = "of_int m * 2 powi e :: real"
  have v: "0 < ?v" using assms(2) by simp
  then have "?v / (2 * 10 ^ 16) < ?v" by simp
  then have "0 < decimal c j" using assms(3) by linarith
  then have c: "0 < c" using zero_less_mult_pos2 [of "real_of_int c" "10 powi j"] by simp
  have "mag (real_of_int (c * 10 ^ nat j) / of_int (10 ^ nat (- j))) = ?v"
    unfolding decimal_frac using assms by (rule mag_near)
  then show ?thesis
    using c round_to_float [OF assms(1,2), of "c * 10 ^ nat j" "10 ^ nat (- j)"] by (simp add: read_dec_def)
qed

text \<open>Rounding to seventeen digits.\<close>

lemma seventeen_digits:
  assumes "0 < m" and "10 powi (k - 1) \<le> real_of_int m * 2 powi e" and "j = k - 17"
  shows "\<bar>decimal (rne_div (frac_num m e * 10 ^ nat (- j)) (frac_den e * 10 ^ nat j)) j - of_int m * 2 powi e\<bar>
    \<le> of_int m * 2 powi e / (2 * 10 ^ 16)"
proof -
  let ?v = "of_int m * 2 powi e :: real"
  let ?a = "frac_num m e * 10 ^ nat (- j)" and ?b = "frac_den e * 10 ^ nat j"
  have b: "0 < ?b" using frac_value(1) by simp
  have q: "real_of_int ?a / of_int ?b = ?v / 10 powi j"
  proof -
    have "real_of_int ?a / of_int ?b
        = real_of_int (frac_num m e) / of_int (frac_den e) * (10 ^ nat (- j) / 10 ^ nat j)" by simp
    also have "10 ^ nat (- j) / 10 ^ nat j = 1 / (10::real) powi j"
      by (cases "0 \<le> j") (simp_all add: power_int_def power_one_over divide_simps)
    finally show ?thesis by (simp add: frac_value(2))
  qed
  have "\<bar>real_of_int (rne_div ?a ?b) - ?v / 10 powi j\<bar> \<le> 1 / 2"
    unfolding rne_div_real [OF b] q by (rule rne_real_error)
  then have "\<bar>real_of_int (rne_div ?a ?b) - ?v / 10 powi j\<bar> * 10 powi j \<le> 1 / 2 * 10 powi j"
    by (intro mult_right_mono) simp_all
  also have "\<bar>real_of_int (rne_div ?a ?b) - ?v / 10 powi j\<bar> * 10 powi j = \<bar>decimal (rne_div ?a ?b) j - ?v\<bar>"
    by (rule abs_diff_scale) simp
  also have "1 / 2 * 10 powi j = 10 powi (k - 1) / (2 * 10 ^ 16 :: real)"
    using power_int_add [of "10::real" j 16] assms(3) by simp
  also have "\<dots> \<le> ?v / (2 * 10 ^ 16)" using assms(2) by (intro divide_right_mono) simp_all
  finally show ?thesis .
qed

lemma shortest_reads_back:
  assumes "canonical (Fin False m e)" and "0 < m" and "10 powi (k - 1) \<le> real_of_int m * 2 powi e"
    and "n + int left = 17"
  shows "case shortest left n k m e of (c, j) \<Rightarrow> 0 < c \<and> read_dec c j = Fin False m e"
  using assms(4)
proof (induction left arbitrary: n)
  case 0
  then show ?case
    using read_dec_near [OF assms(1,2) seventeen_digits [OF assms(2,3) refl]]
    by (subst shortest.simps) (simp add: Let_def)
next
  case (Suc left)
  have pos: "0 < c" if "reads_back m e c j" for c j
    using that assms(2) by (rule_tac ccontr) (simp add: reads_back_def round_f64_def mult_le_0_iff)
  have "case shortest left (n + 1) k m e of (c, j) \<Rightarrow> 0 < c \<and> read_dec c j = Fin False m e"
    using Suc by simp
  then show ?case using pos
    by (subst shortest.simps) (auto simp: Let_def reads_back_iff simp del: shortest.simps)
qed

lemma strip_zeros_value:
  "0 < c \<Longrightarrow> case strip_zeros c j of (c', j') \<Rightarrow> 0 < c' \<and> decimal c' j' = decimal c j"
proof (induction c j rule: strip_zeros.induct)
  case (1 c j)
  show ?case
  proof (cases "c mod 10 = 0")
    case True
    then have c: "c = 10 * (c div 10)" by presburger
    then have pos: "0 < c div 10" using 1(2) by linarith
    have "decimal (c div 10) (j + 1) = decimal c j"
      by (subst (2) c) (simp add: ten_powi_Suc del: mult_div_mod_eq)
    then show ?thesis using 1 True pos by (subst strip_zeros.simps) simp
  next
    case False
    then show ?thesis using 1(2) by (subst strip_zeros.simps) simp
  qed
qed

text \<open>The digits and the exponent \<open>repr\<close> prints.\<close>

definition repr_digits :: "int \<Rightarrow> int \<Rightarrow> int \<times> int" where
  "repr_digits m e =
     (case shortest 16 1 (dec_point (frac_num m e) (frac_den e)) m e of (c, j) \<Rightarrow> strip_zeros c j)"

lemma repr_digits_read:
  assumes "canonical (Fin False m e)" and "0 < m" and "repr_digits m e = (c, j)"
  shows "0 < c \<and> read_dec c j = Fin False m e"
proof -
  obtain c0 j0 where s: "shortest 16 1 (dec_point (frac_num m e) (frac_den e)) m e = (c0, j0)"
    by (cases "shortest 16 1 (dec_point (frac_num m e) (frac_den e)) m e")
  have "10 powi (dec_point (frac_num m e) (frac_den e) - 1) \<le> real_of_int m * 2 powi e"
    using dec_point_bound [OF frac_num_pos [OF assms(2)] frac_value(1), of e e] by (simp only: frac_value(2))
  from shortest_reads_back [OF assms(1,2) this, of 1 16] have "0 < c0" "read_dec c0 j0 = Fin False m e"
    by (simp_all add: s)
  moreover have "strip_zeros c0 j0 = (c, j)" using assms(3) s by (simp add: repr_digits_def)
  ultimately show ?thesis using strip_zeros_value [of c0 j0] read_dec_eq [of c c0 j j0] by simp
qed

section \<open>The text\<close>

definition repr_text :: "int \<Rightarrow> int \<Rightarrow> string" where
  "repr_text c j =
     (let ds = str_nat c; n = int (length ds); k = n + j
      in if -4 < k \<and> k \<le> 16
         then (if k \<le> 0 then ''0.'' @ zeros (- k) @ ds
               else if n \<le> k then ds @ zeros (k - n) @ ''.0''
               else take (nat k) ds @ ''.'' @ drop (nat k) ds)
         else (take 1 ds @ (if n = 1 then [] else ''.'' @ drop 1 ds) @ ''e''
               @ (if k - 1 < 0 then ''-'' @ pad2 (1 - k) else ''+'' @ pad2 (k - 1))))"

lemma repr_mag_text: "repr_mag m e = (case repr_digits m e of (c, j) \<Rightarrow> repr_text c j)"
  by (simp add: repr_mag_def repr_digits_def repr_text_def Let_def split: prod.splits)

lemma is_digit_zero: "is_digit (CHR ''0'')" "digit_val (CHR ''0'') = 0"
  by (simp_all add: is_digit_def digit_val_def)

lemma str_nat_parts: "list_all is_digit (take n (str_nat c))" "list_all is_digit (drop n (str_nat c))"
  using str_nat_digits [of c] by (auto simp: list_all_iff dest: in_set_takeD in_set_dropD)

lemma read_fixed_text:
  assumes "0 < c" and "k = int (length (str_nat c)) + j"
  shows "k \<le> 0 \<Longrightarrow> read_mag (''0.'' @ zeros (- k) @ str_nat c) = read_dec c j"
    and "int (length (str_nat c)) \<le> k \<Longrightarrow> read_mag (str_nat c @ zeros (k - int (length (str_nat c))) @ ''.0'') = read_dec c j"
    and "0 < k \<Longrightarrow> k < int (length (str_nat c)) \<Longrightarrow>
      read_mag (take (nat k) (str_nat c) @ ''.'' @ drop (nat k) (str_nat c)) = read_dec c j"
proof -
  let ?ds = "str_nat c"
  have val: "digits_val ?ds = c" using assms(1) by (simp add: digits_val_str_nat)
  note ds = str_nat_digits [of c]
  show "read_mag (''0.'' @ zeros (- k) @ ?ds) = read_dec c j" if "k \<le> 0"
    using read_mag_fixed [of "''0''" "zeros (- k) @ ?ds"] that ds
    by (simp add: is_digit_zero digits_val_append digits_val_Cons val assms(2))
  show "read_mag (?ds @ zeros (k - int (length ?ds)) @ ''.0'') = read_dec c j" if "int (length ?ds) \<le> k"
  proof -
    have j: "0 \<le> j" using that assms(2) by simp
    have "read_mag (?ds @ zeros (k - int (length ?ds)) @ ''.0'') = read_dec (c * 10 ^ nat j * 10) (- 1)"
      using read_mag_fixed [of "?ds @ zeros (k - int (length ?ds))" "''0''"] ds
      by (simp add: is_digit_zero digits_val_append val assms(2) ac_simps)
    also have "\<dots> = read_dec c j"
      using assms(1) j by (intro read_dec_eq) (simp_all add: power_int_def)
    finally show ?thesis .
  qed
  show "read_mag (take (nat k) ?ds @ ''.'' @ drop (nat k) ?ds) = read_dec c j"
    if "0 < k" "k < int (length ?ds)"
    using read_mag_fixed [OF str_nat_parts, of "nat k" c "nat k" c] that
    by (simp add: val assms(2) of_nat_diff)
qed

lemma read_exp_text:
  assumes "0 < c" and "k = int (length (str_nat c)) + j" and "read_exp ex = k - 1"
  shows "read_mag (take 1 (str_nat c) @ (if int (length (str_nat c)) = 1 then [] else ''.'' @ drop 1 (str_nat c))
    @ ''e'' @ ex) = read_dec c j"
proof -
  let ?ds = "str_nat c"
  have val: "digits_val ?ds = c" using assms(1) by (simp add: digits_val_str_nat)
  show ?thesis
  proof (cases "length ?ds = 1")
    case True
    then show ?thesis using read_mag_exp(1) [OF str_nat_parts, of 1 c ex] assms(2,3) by (simp add: val)
  next
    case False
    then have "1 \<le> length ?ds" by (simp add: Suc_le_eq)
    then show ?thesis using False read_mag_exp(2) [OF str_nat_parts, of 1 c 1 c ex] assms(2,3) by (simp add: val of_nat_diff)
  qed
qed

lemma read_repr_text:
  assumes "0 < c"
  shows "read_mag (repr_text c j) = read_dec c j"
proof -
  have ex: "read_exp (if k - 1 < 0 then ''-'' @ pad2 (1 - k) else ''+'' @ pad2 (k - 1)) = k - 1" for k
    by (simp add: digits_val_pad2)
  show ?thesis
    unfolding repr_text_def Let_def using read_fixed_text [OF assms refl] read_exp_text [OF assms refl ex]
    by simp
qed

lemma read_repr_mag:
  assumes "canonical (Fin False m e)" and "0 < m"
  shows "read_mag (repr_mag m e) = Fin False m e"
proof (cases "repr_digits m e")
  case (Pair c j)
  then show ?thesis using repr_digits_read [OF assms Pair] by (simp add: repr_mag_text read_repr_text)
qed

text \<open>A number starts with a digit, so no float but a negative one starts with a minus sign.\<close>

lemma hd_str_nat: "is_digit (hd (str_nat n))"
  using str_nat_digits [of n] by (cases "str_nat n") simp_all

lemma hd_repr_text: "is_digit (hd (repr_text c j))"
proof -
  have "is_digit (hd (take (Suc k) (str_nat c) @ s))" for k s
    using hd_str_nat [of c] by (cases "str_nat c") simp_all
  then have t: "is_digit (hd (take (nat k) (str_nat c) @ s))" if "0 < k" for k s
    using that by (cases "nat k") (simp_all del: take_Suc)
  show ?thesis
    using t hd_str_nat [of c] t [of 1] by (simp add: repr_text_def Let_def is_digit_zero)
qed

lemma repr_text_not_Nil [simp]: "repr_text c j \<noteq> []"
  by (simp add: repr_text_def Let_def)

lemma read_repr:
  assumes "canonical x"
  shows "read_float (repr_f64 x) = x"
proof (cases x)
  case (Fin s m e)
  have num: "t \<notin> {''nan'', ''NaN'', ''inf'', ''Infinity'', ''-inf'', ''-Infinity''} \<and> ''-'' @ t \<notin> {''-inf'', ''-Infinity''}
      \<and> take 1 t \<noteq> ''-''" if "is_digit (hd t)" for t
    using that by (cases t) (auto simp: is_digit_def)
  show ?thesis
  proof (cases "m = 0")
    case True
    have "read_mag ''0.0'' = read_dec 0 (- 1)"
      using read_mag_fixed [of "''0''" "''0''"] by (simp add: is_digit_zero digits_val_Cons)
    moreover have "e = -1074" using assms Fin True by (simp add: canonical_def)
    ultimately show ?thesis using Fin True num [of "''0.0''"]
      by (simp add: read_float_def is_digit_zero read_dec_def round_f64_def)
  next
    case False
    then have m: "canonical (Fin False m e)" "0 < m" using assms Fin by (simp_all add: canonical_def)
    have "is_digit (hd (repr_mag m e))" by (cases "repr_digits m e") (simp add: repr_mag_text hd_repr_text)
    then show ?thesis using Fin False num [of "repr_mag m e"] read_repr_mag [OF m]
      by (simp add: read_float_def)
  qed
qed (simp_all add: read_float_def)

lemma repr_inject:
  "canonical x \<Longrightarrow> canonical y \<Longrightarrow> repr_f64 x = repr_f64 y \<longleftrightarrow> x = y"
  using read_repr by metis

end
