(* ===== verification/JsonCode.thy ===== *)
theory JsonCode
  imports Digest ReprLaws
begin

text \<open>
  \<open>json.dumps\<close> loses nothing: the text determines the JSON value, that is, the value up to what
  JSON cannot say (the order of a mapping's items, tuple or list, an object or its \<open>str\<close>).
\<close>

section \<open>The JSON value of a Python value\<close>

definition key_text :: "pyval \<Rightarrow> string" where
  "key_text v = (case v of VStr s \<Rightarrow> s | _ \<Rightarrow> [])"

abbreviation sort_keys :: "(string \<times> 'a) list \<Rightarrow> (string \<times> 'a) list" where
  "sort_keys \<equiv> stable_sort (\<lambda>a b. str_lt (fst a) (fst b))"

fun json_of :: "(pyval \<Rightarrow> string) \<Rightarrow> pyval \<Rightarrow> json" where
  "json_of str_obj VNone = JNull"
| "json_of str_obj (VBool b) = JBool b"
| "json_of str_obj (VInt n) = JInt n"
| "json_of str_obj (VFloat x) = JFloat x"
| "json_of str_obj (VStr s) = JStr s"
| "json_of str_obj (VList vs) = JList (map (json_of str_obj) vs)"
| "json_of str_obj (VTuple vs) = JList (map (json_of str_obj) vs)"
| "json_of str_obj (VDict kvs) =
     JObj (sort_keys (map (\<lambda>kv. (key_text (fst kv), json_of str_obj (snd kv))) kvs))"
| "json_of str_obj v = JStr (str_obj v)"

text \<open>String keys at every depth.\<close>

fun string_keyed :: "pyval \<Rightarrow> bool" where
  "string_keyed (VList vs) = list_all string_keyed vs"
| "string_keyed (VTuple vs) = list_all string_keyed vs"
| "string_keyed (VDict kvs) = list_all (\<lambda>kv. is_vstr (fst kv) \<and> string_keyed (snd kv)) kvs"
| "string_keyed _ = True"

section \<open>The text of a JSON value\<close>

fun joined :: "string list \<Rightarrow> string" where
  "joined [] = []"
| "joined [s] = s"
| "joined (s # ss) = s @ '','' @ joined ss"

fun json_text :: "json \<Rightarrow> string" where
  "json_text JNull = ''null''"
| "json_text (JBool b) = (if b then ''true'' else ''false'')"
| "json_text (JInt n) = str_int n"
| "json_text (JFloat x) = json_float x"
| "json_text (JStr s) = json_str s"
| "json_text (JList vs) = ''['' @ joined (map json_text vs) @ '']''"
| "json_text (JObj kvs) =
     ''{'' @ joined (map (\<lambda>kv. json_str (fst kv) @ '':'' @ json_text (snd kv)) kvs) @ ''}''"

lemma comma_join_Inr: "comma_join (map Inr ss) = Inr (joined ss)"
  by (induction ss rule: joined.induct) simp_all

lemma insert_stable_map:
  assumes "\<forall>y \<in> set xs. lt' (g x) (g y) = lt x y"
  shows "insert_stable lt' (g x) (map g xs) = map g (insert_stable lt x xs)"
  using assms by (induction xs) auto

lemma foldl_insert_map:
  assumes "\<forall>a \<in> set acc \<union> set xs. \<forall>b \<in> set acc \<union> set xs. lt' (g a) (g b) = lt a b"
  shows "foldl (\<lambda>acc x. insert_stable lt' x acc) (map g acc) (map g xs)
    = map g (foldl (\<lambda>acc x. insert_stable lt x acc) acc xs)"
  using assms
proof (induction xs arbitrary: acc)
  case (Cons x xs)
  have "insert_stable lt' (g x) (map g acc) = map g (insert_stable lt x acc)"
    using Cons.prems by (intro insert_stable_map) simp
  then show ?case using Cons.prems Cons.IH [of "insert_stable lt x acc"] by simp
qed simp

lemma stable_sort_map:
  assumes "\<forall>a \<in> set xs. \<forall>b \<in> set xs. lt' (g a) (g b) = lt a b"
  shows "stable_sort lt' (map g xs) = map g (stable_sort lt xs)"
  using foldl_insert_map [of "[]" xs lt' g lt] assms by (simp add: stable_sort_def)

lemma is_vstr_iff: "is_vstr v \<longleftrightarrow> (\<exists>s. v = VStr s)"
  by (cases v) simp_all

lemma sorted_items_strings:
  assumes "\<forall>it \<in> set its. is_vstr (fst it)"
  shows "sorted_items its = Inr (map (\<lambda>it. (VStr (fst it), snd it))
    (sort_keys (map (\<lambda>it. (key_text (fst it), snd it)) its)))"
proof -
  let ?g = "\<lambda>it. (VStr (fst it), snd it)" and ?h = "\<lambda>it. (key_text (fst it), snd it)"
  have "map ?g (map ?h its) = its"
    using assms by (auto simp: is_vstr_iff key_text_def intro!: map_idI)
  moreover have "stable_sort (\<lambda>a b. key_lt (fst a) (fst b)) (map ?g (map ?h its)) = map ?g (sort_keys (map ?h its))"
    by (rule stable_sort_map) simp
  ultimately show ?thesis using assms by (simp add: sorted_items_def)
qed

lemma dumps_json_text: "string_keyed v \<Longrightarrow> dumps str_obj v = Inr (json_text (json_of str_obj v))"
proof (induction v rule: string_keyed.induct)
  case (1 vs)
  then have "map (dumps str_obj) vs = map Inr (map json_text (map (json_of str_obj) vs))"
    by (simp add: list_all_iff)
  then show ?case by (simp only: dumps.simps comma_join_Inr rbind_simps json_of.simps json_text.simps)
next
  case (2 vs)
  then have "map (dumps str_obj) vs = map Inr (map json_text (map (json_of str_obj) vs))"
    by (simp add: list_all_iff)
  then show ?case by (simp only: dumps.simps comma_join_Inr rbind_simps json_of.simps json_text.simps)
next
  case (3 kvs)
  let ?js = "map (\<lambda>kv. (key_text (fst kv), json_of str_obj (snd kv))) kvs"
  let ?t = "\<lambda>kv. (fst kv, Inr (json_text (snd kv)))"
  have str: "\<forall>kv \<in> set kvs. is_vstr (fst kv)" using 3(2) by (simp add: list_all_iff)
  have m: "map (\<lambda>kv. (key_text (fst kv), dumps str_obj (snd kv))) kvs = map ?t ?js"
    using 3 by (simp add: list_all_iff)
  have "sort_keys (map (\<lambda>kv. (key_text (fst kv), dumps str_obj (snd kv))) kvs) = map ?t (sort_keys ?js)"
    unfolding m by (rule stable_sort_map) simp
  then have items: "sorted_items (map (\<lambda>kv. (fst kv, dumps str_obj (snd kv))) kvs)
      = Inr (map (\<lambda>it. (VStr (fst it), snd it)) (map ?t (sort_keys ?js)))"
    using str by (subst sorted_items_strings) (simp_all add: comp_def)
  show ?case
    using comma_join_Inr [of "map (\<lambda>kv. json_str (fst kv) @ '':'' @ json_text (snd kv)) (sort_keys ?js)"]
    by (simp add: items comp_def)
qed simp_all

section \<open>Strings\<close>

text \<open>Reading one character of a JSON string back.\<close>

definition hex_val :: "char \<Rightarrow> int" where
  "hex_val c = (let n = of_char c :: int in if n < 58 then n - 48 else n - 87)"

fun json_unchar :: "string \<Rightarrow> (char \<times> string) option" where
  "json_unchar [] = None"
| "json_unchar (c # cs) =
     (if of_char c \<noteq> (92::int) then Some (c, cs)
      else case cs of
        [] \<Rightarrow> None
      | d # ds \<Rightarrow>
          if d = CHR ''u'' then Some (char_of (16 * hex_val (ds ! 2) + hex_val (ds ! 3)), drop 4 ds)
          else Some (if d = CHR ''n'' then char_of (10::int) else if d = CHR ''r'' then char_of (13::int)
            else if d = CHR ''t'' then char_of (9::int) else if d = CHR ''f'' then char_of (12::int)
            else if d = CHR ''b'' then char_of (8::int) else d, ds))"

lemma hex_val_digit: "0 \<le> d \<Longrightarrow> d < 16 \<Longrightarrow> hex_val (hex_digit d) = d"
proof -
  assume d: "0 \<le> d" "d < (16::int)"
  show ?thesis
  proof (cases "d < 10")
    case True
    then show ?thesis using digit_val_char [OF d(1) True] digit_cases [OF d(1) True]
      by (auto simp: hex_val_def hex_digit_def digit_val_def)
  next
    case False
    then show ?thesis using d by (simp add: hex_val_def hex_digit_def Let_def)
  qed
qed

lemma of_char_range: "0 \<le> (of_char c :: int)" "of_char c < (256 :: int)"
proof -
  have "of_char c = (of_char c mod 256 :: int)"
    using of_char_of [of "of_char c :: int"] by (simp only: char_of_char)
  then show "0 \<le> (of_char c :: int)" "of_char c < (256 :: int)" by (metis pos_mod_sign pos_mod_bound zero_less_numeral)+
qed

lemma char_of_eq: "of_char c = (n::int) \<Longrightarrow> char_of n = c"
  by auto

lemma json_unchar_char: "json_unchar (json_char c @ s) = Some (c, s)"
proof -
  let ?n = "of_char c :: int"
  note r = of_char_range [of c]
  consider "?n = 34 \<or> ?n = 92" | "?n \<in> {8, 9, 10, 12, 13}"
    | "?n \<notin> {34, 92, 8, 9, 10, 12, 13}" "?n < 32 \<or> 126 < ?n"
    | "?n \<notin> {34, 92, 8, 9, 10, 12, 13}" "\<not> (?n < 32 \<or> 126 < ?n)" by blast
  then show ?thesis
  proof cases
    case 1
    then have "c \<notin> set ''unrtfb''" by auto
    then show ?thesis using 1 by (auto simp: json_char_def Let_def)
  next
    case 2
    then show ?thesis by (auto simp: json_char_def Let_def dest: char_of_eq)
  next
    case 3
    have div_eq_0: "?n div 16 mod 16 = ?n div 16" using r by simp
    have "hex_digits 4 ?n ! 2 = hex_digit (?n div 16)" "hex_digits 4 ?n ! 3 = hex_digit (?n mod 16)"
      "length (hex_digits 4 ?n) = 4"
      by (simp_all add: eval_nat_numeral div_eq_0)
    then show ?thesis using 3 r by (simp add: json_char_def u_escape_def Let_def nth_append hex_val_digit)
  next
    case 4
    then show ?thesis by (simp add: json_char_def Let_def)
  qed
qed

lemma json_char_start: "json_char c \<noteq> []" "hd (json_char c) \<noteq> char_of (34::int)"
  by (auto simp: json_char_def u_escape_def Let_def)

lemma json_char_cases: "\<exists>a as. json_char c = a # as \<and> a \<noteq> char_of (34::int)"
  using json_char_start [of c] by (cases "json_char c") auto

lemma json_body_unique:
  assumes "concat (map json_char s) @ char_of (34::int) # r = concat (map json_char t) @ char_of (34::int) # u"
  shows "s = t \<and> r = u"
  using assms
proof (induction s arbitrary: t)
  case Nil
  show ?case
  proof (cases t)
    case (Cons d t')
    then show ?thesis using Nil json_char_cases [of d] by auto
  qed (use Nil in simp)
next
  case (Cons c s)
  show ?case
  proof (cases t)
    case Nil
    then show ?thesis using Cons.prems json_char_cases [of c] by auto
  next
    case (Cons d t')
    then have "json_unchar (json_char c @ concat (map json_char s) @ char_of (34::int) # r)
        = json_unchar (json_char d @ concat (map json_char t') @ char_of (34::int) # u)"
      using Cons.prems by simp
    then show ?thesis using Cons Cons.IH [of t'] unfolding json_unchar_char by simp
  qed
qed

lemma json_str_unique: "json_str s @ r = json_str t @ u \<Longrightarrow> s = t \<and> r = u"
  by (rule json_body_unique) (simp add: json_str_def)

section \<open>Words and numbers\<close>

definition token_char :: "char \<Rightarrow> bool" where
  "token_char c \<longleftrightarrow> c \<notin> set '',]}[{'' \<and> of_char c \<noteq> (34::int)"

definition ended :: "string \<Rightarrow> bool" where
  "ended r \<longleftrightarrow> r = [] \<or> \<not> token_char (hd r)"

lemma token_unique:
  assumes "list_all token_char a" and "list_all token_char b" and "ended r" and "ended s" and "a @ r = b @ s"
  shows "a = b \<and> r = s"
proof -
  have "takeWhile token_char (x @ y) = x" if "list_all token_char x" "ended y" for x y
    using that by (cases y) (auto simp: ended_def list_all_iff takeWhile_append)
  then have "a = b" using assms by metis
  then show ?thesis using assms(5) by simp
qed

definition num_char :: "char \<Rightarrow> bool" where
  "num_char c \<longleftrightarrow> is_digit c \<or> c \<in> set ''.e+-''"

lemma digit_num_char: "list_all is_digit s \<Longrightarrow> list_all num_char s"
  by (auto simp: list_all_iff num_char_def)

lemma num_token_char: "list_all num_char s \<Longrightarrow> list_all token_char s"
proof -
  have "token_char c" if "num_char c" for c
    using that by (auto simp: num_char_def is_digit_def token_char_def)
  then show "list_all num_char s \<Longrightarrow> list_all token_char s" by (auto simp: list_all_iff)
qed

lemmas digits_num_chars [simp] = str_nat_digits [THEN digit_num_char]
  str_nat_parts [THEN digit_num_char] zeros_simps(1) [THEN digit_num_char]

lemma num_char_simps [simp]: "num_char (CHR ''0'')" "num_char (CHR ''.'')" "num_char (CHR ''e'')"
  "num_char (CHR ''-'')" "num_char (CHR ''+'')"
  by (simp_all add: num_char_def is_digit_def)

lemma repr_text_chars: "list_all num_char (repr_text c j)" "CHR ''.'' \<in> set (repr_text c j) \<or> CHR ''e'' \<in> set (repr_text c j)"
  by (simp_all add: repr_text_def Let_def pad2_def)

lemma repr_finite_chars:
  "list_all num_char (repr_f64 (Fin s m e))" "CHR ''.'' \<in> set (repr_f64 (Fin s m e)) \<or> CHR ''e'' \<in> set (repr_f64 (Fin s m e))"
proof -
  have "list_all num_char (repr_mag m e)" "CHR ''.'' \<in> set (repr_mag m e) \<or> CHR ''e'' \<in> set (repr_mag m e)"
    using repr_text_chars by (cases "repr_digits m e"; simp add: repr_mag_text)+
  then show "list_all num_char (repr_f64 (Fin s m e))"
    "CHR ''.'' \<in> set (repr_f64 (Fin s m e)) \<or> CHR ''e'' \<in> set (repr_f64 (Fin s m e))" by auto
qed

lemma str_int_chars: "list_all num_char (str_int n)" "CHR ''.'' \<notin> set (str_int n)" "CHR ''e'' \<notin> set (str_int n)"
  using digits_no_marks [OF str_nat_digits] by (simp_all add: str_int_def)

lemma hd_str_int: "hd (str_int n) = CHR ''-'' \<longleftrightarrow> n < 0"
  using hd_str_nat [of n] by (auto simp: str_int_def is_digit_def)

lemma str_int_inject: "str_int m = str_int n \<longleftrightarrow> m = n"
proof
  have abs: "m = n" if "str_nat m = str_nat n" "0 \<le> m" "0 \<le> n" for m n
    using that digits_val_str_nat by metis
  assume eq: "str_int m = str_int n"
  have "m < 0 \<longleftrightarrow> n < 0" using eq by (metis hd_str_int)
  then show "m = n" using eq abs [of m n] abs [of "- m" "- n"] by (auto simp: str_int_def split: if_splits)
qed simp

lemma json_float_chars:
  "list_all token_char (json_float x)" "json_float x \<noteq> []"
  "is_finite x \<Longrightarrow> list_all num_char (json_float x)"
  "\<not> is_finite x \<Longrightarrow> CHR ''N'' \<in> set (json_float x) \<or> CHR ''I'' \<in> set (json_float x)"
proof -
  have ne: "repr_f64 (Fin s m e) \<noteq> []" for s m e using repr_finite_chars(2) [of s m e] by auto
  show "list_all token_char (json_float x)" "json_float x \<noteq> []"
    "is_finite x \<Longrightarrow> list_all num_char (json_float x)"
    "\<not> is_finite x \<Longrightarrow> CHR ''N'' \<in> set (json_float x) \<or> CHR ''I'' \<in> set (json_float x)"
    by (cases x; simp add: token_char_def repr_finite_chars(1) num_token_char ne del: repr_f64.simps)+
qed

lemma quote_char: "char_of (34::int) = CHR 0x22"
  by (rule char_of_eq) simp

lemma joined_Cons: "joined (s # ss) = s @ (if ss = [] then [] else '','' @ joined ss)"
  by (cases ss) simp_all

section \<open>Texts that end themselves\<close>

text \<open>
  What a list or a mapping needs of the writer of its items: at the end of the text or before a
  separator it is clear where an item ends and which item it is, and no item starts like a
  separator.
\<close>

locale text_code =
  fixes text_of :: "'a \<Rightarrow> string"
    and ok :: "'a \<Rightarrow> bool"
  assumes unique: "ok x \<Longrightarrow> ok y \<Longrightarrow> ended r \<Longrightarrow> ended s \<Longrightarrow> text_of x @ r = text_of y @ s \<Longrightarrow> x = y \<and> r = s"
    and start: "ok x \<Longrightarrow> \<exists>a as. text_of x = a # as \<and> a \<notin> set '',]}''"
begin

lemma text_of_inject: "ok x \<Longrightarrow> ok y \<Longrightarrow> text_of x = text_of y \<longleftrightarrow> x = y"
  using unique [of x y "[]" "[]"] by (auto simp: ended_def)

lemma joined_unique:
  assumes "list_all ok xs" and "list_all ok ys" and "c \<in> set '']}''"
    and "joined (map text_of xs) @ c # r = joined (map text_of ys) @ c # s"
  shows "xs = ys \<and> r = s"
  using assms
proof (induction xs arbitrary: ys)
  case Nil
  then show ?case using start by (cases ys) (fastforce simp: joined_Cons)+
next
  case (Cons x xs)
  show ?case
  proof (cases ys)
    case Nil
    then show ?thesis using Cons.prems start [of x] by (auto simp: joined_Cons)
  next
    case (Cons y ys')
    let ?tail = "\<lambda>xs t. (if xs = [] then c # t else CHR '','' # joined (map text_of xs) @ c # t)"
    have "ended (?tail zs t)" for zs t using Cons.prems(3) by (auto simp: ended_def token_char_def)
    moreover have "text_of x @ ?tail xs r = text_of y @ ?tail ys' s"
      using Cons.prems(4) Cons by (auto simp: joined_Cons)
    ultimately have xy: "x = y" "?tail xs r = ?tail ys' s"
      using unique [of x y "?tail xs r" "?tail ys' s"] Cons.prems(1,2) Cons by simp_all
    have "c \<noteq> CHR '',''" using Cons.prems(3) by auto
    then show ?thesis using xy Cons.prems(1,2,3) Cons Cons.IH [of ys'] by (auto split: if_splits)
  qed
qed

lemma entry_code: "text_code (\<lambda>kv. json_str (fst kv) @ '':'' @ text_of (snd kv)) (\<lambda>kv. ok (snd kv))"
proof
  show "x = y \<and> r = s"
    if "ok (snd x)" "ok (snd y)" "ended r" "ended s"
      "(json_str (fst x) @ '':'' @ text_of (snd x)) @ r = (json_str (fst y) @ '':'' @ text_of (snd y)) @ s" for x y r s
    using json_str_unique [of "fst x" "'':'' @ text_of (snd x) @ r" "fst y" "'':'' @ text_of (snd y) @ s"]
      unique [of "snd x" "snd y" r s] that by (auto intro: prod_eqI)
  show "\<exists>a as. json_str (fst x) @ '':'' @ text_of (snd x) = a # as \<and> a \<notin> set '',]}''" for x
    by (simp add: json_str_def quote_char)
qed

end

section \<open>JSON values\<close>

fun json_ok :: "json \<Rightarrow> bool" where
  "json_ok (JFloat x) = canonical x"
| "json_ok (JList vs) = list_all json_ok vs"
| "json_ok (JObj kvs) = list_all (\<lambda>kv. json_ok (snd kv)) kvs"
| "json_ok _ = True"

fun is_token :: "json \<Rightarrow> bool" where
  "is_token (JStr s) = False"
| "is_token (JList vs) = False"
| "is_token (JObj kvs) = False"
| "is_token j = True"

lemma token_text: "is_token j \<Longrightarrow> list_all token_char (json_text j) \<and> json_text j \<noteq> []"
  using num_token_char [OF str_int_chars(1)]
  by (cases j) (auto simp: json_float_chars(1,2) token_char_def str_int_def)

lemma json_float_num: "list_all num_char (json_float x) \<longleftrightarrow> is_finite x"
proof -
  have "\<not> num_char (CHR ''N'')" "\<not> num_char (CHR ''I'')" by (simp_all add: num_char_def is_digit_def)
  then show ?thesis using json_float_chars(3,4) [of x] by (cases "is_finite x") (auto simp: list_all_iff)
qed

lemma int_text_not_float: "str_int n \<noteq> json_float x"
proof
  assume eq: "str_int n = json_float x"
  then have "is_finite x" using str_int_chars(1) [of n] by (simp flip: json_float_num)
  then obtain s m e where x: "x = Fin s m e" by (cases x) simp_all
  then show False using eq str_int_chars(2,3) [of n] repr_finite_chars(2) [of s m e] by (simp del: repr_f64.simps)
qed

lemma words_not_num: "w \<in> {''null'', ''true'', ''false''} \<Longrightarrow> \<not> list_all num_char w"
  by (auto simp: num_char_def is_digit_def)

lemma word_not_int: "w \<in> {''null'', ''true'', ''false''} \<Longrightarrow> str_int n \<noteq> w"
  using words_not_num [of w] str_int_chars(1) [of n] by metis

lemma word_not_float: "w \<in> {''null'', ''true'', ''false''} \<Longrightarrow> json_float x \<noteq> w"
  using words_not_num [of w] json_float_num [of x] by (cases x) auto

lemmas token_distinct = word_not_int [of "''null''"] word_not_int [of "''true''"] word_not_int [of "''false''"]
  word_not_float [of "''null''"] word_not_float [of "''true''"] word_not_float [of "''false''"] int_text_not_float

lemma json_float_finite: "is_finite x \<Longrightarrow> json_float x = repr_f64 x"
  by (cases x) simp_all

lemma json_float_inject:
  assumes "canonical x" and "canonical y" and "json_float x = json_float y"
  shows "x = y"
proof (cases "is_finite x")
  case True
  then have "is_finite y" using json_float_num [of x] json_float_num [of y] assms(3) by simp
  then show ?thesis using True assms repr_inject [of x y] by (simp only: json_float_finite)
next
  case False
  then have "\<not> is_finite y" using json_float_num [of x] json_float_num [of y] assms(3) by simp
  then show ?thesis using False assms(3) by (cases x; cases y) (auto split: if_splits)
qed

lemma token_inject:
  assumes "is_token j" and "is_token k" and "json_ok j" and "json_ok k" and "json_text j = json_text k"
  shows "j = k"
proof -
  note d = token_distinct [simplified] token_distinct [simplified, THEN not_sym]
  show ?thesis using assms
    by (cases j; cases k; simp add: d str_int_inject json_float_inject split: if_splits)
qed

lemma text_kind: "token_char (hd (json_text j @ r)) \<longleftrightarrow> is_token j"
proof (cases "is_token j")
  case True
  then show ?thesis using token_text [of j] by (cases "json_text j") simp_all
next
  case False
  then show ?thesis by (cases j) (simp_all add: json_str_def token_char_def)
qed

fun items_ok :: "(json \<Rightarrow> bool) \<Rightarrow> json \<Rightarrow> bool" where
  "items_ok ok (JList vs) = list_all ok vs"
| "items_ok ok (JObj kvs) = list_all (\<lambda>kv. ok (snd kv)) kvs"
| "items_ok ok _ = True"

lemma json_text_step:
  assumes "text_code json_text ok" and "items_ok ok x" and "items_ok ok y" and "json_ok x" and "json_ok y"
    and "ended r" and "ended s" and eq: "json_text x @ r = json_text y @ s"
  shows "x = y \<and> r = s"
proof -
  have kind: "is_token x \<longleftrightarrow> is_token y" using text_kind [of x r] text_kind [of y s] eq by simp
  show ?thesis
  proof (cases "is_token x")
    case True
    then show ?thesis
      using kind token_unique [OF _ _ assms(6,7) eq] token_text token_inject [OF _ _ assms(4,5)] by simp
  next
    case False
    note items = text_code.joined_unique [OF assms(1), of _ _ "CHR '']''"]
      text_code.joined_unique [OF text_code.entry_code [OF assms(1)], of _ _ "CHR ''}''"]
    show ?thesis
    proof (cases x)
      case (JStr t)
      then obtain u where "y = JStr u" using eq False kind by (cases y) (simp_all add: json_str_def quote_char)
      then show ?thesis using JStr eq json_str_unique [of t r u s] by simp
    next
      case (JList vs)
      then obtain ws where "y = JList ws" using eq False kind by (cases y) (simp_all add: json_str_def quote_char)
      then show ?thesis using JList eq assms(2,3) items(1) [of vs ws r s] by simp
    next
      case (JObj kvs)
      then obtain kws where "y = JObj kws" using eq False kind by (cases y) (simp_all add: json_str_def quote_char)
      then show ?thesis using JObj eq assms(2,3) items(2) [of kvs kws r s] by simp
    qed (use False in simp_all)
  qed
qed

lemma json_text_start:
  assumes "json_ok j"
  shows "\<exists>a as. json_text j = a # as \<and> a \<notin> set '',]}''"
proof (cases "is_token j")
  case True
  then show ?thesis using token_text [of j] by (cases "json_text j") (auto simp: token_char_def)
next
  case False
  then show ?thesis by (cases j) (simp_all add: json_str_def quote_char)
qed

fun max_list :: "nat list \<Rightarrow> nat" where
  "max_list [] = 0"
| "max_list (n # ns) = max n (max_list ns)"

fun json_depth :: "json \<Rightarrow> nat" where
  "json_depth (JList vs) = Suc (max_list (map json_depth vs))"
| "json_depth (JObj kvs) = Suc (max_list (map (\<lambda>kv. json_depth (snd kv)) kvs))"
| "json_depth _ = 0"

lemma max_list_less: "max_list (map f xs) < n \<Longrightarrow> list_all (\<lambda>x. f x < n) xs"
  by (induction xs) simp_all

lemma depth_items:
  assumes "json_ok x" and "json_depth x < Suc n"
  shows "items_ok (\<lambda>j. json_ok j \<and> json_depth j < n) x"
proof (cases x)
  case (JList vs)
  then show ?thesis using assms max_list_less [of json_depth vs n] by (simp add: list_all_iff)
next
  case (JObj kvs)
  then show ?thesis using assms max_list_less [of "\<lambda>kv. json_depth (snd kv)" kvs n] by (simp add: list_all_iff)
qed simp_all

lemma json_text_bounded: "text_code json_text (\<lambda>j. json_ok j \<and> json_depth j < n)"
proof (induction n)
  case 0
  show ?case by unfold_locales simp_all
next
  case (Suc n)
  show ?case
  proof
    show "x = y \<and> r = s"
      if "json_ok x \<and> json_depth x < Suc n" "json_ok y \<and> json_depth y < Suc n" "ended r" "ended s"
        "json_text x @ r = json_text y @ s" for x y r s
      by (rule json_text_step [OF Suc.IH depth_items depth_items]) (use that in auto)
  qed (use json_text_start in blast)
qed

interpretation json_values: text_code json_text json_ok
proof
  show "x = y \<and> r = s"
    if "json_ok x" "json_ok y" "ended r" "ended s" "json_text x @ r = json_text y @ s" for x y r s
    using text_code.unique [OF json_text_bounded [of "Suc (max (json_depth x) (json_depth y))"], of x y r s] that by simp
qed (rule json_text_start)

interpretation json_entries: text_code "\<lambda>kv. json_str (fst kv) @ '':'' @ json_text (snd kv)" "\<lambda>kv. json_ok (snd kv)"
  by (rule json_values.entry_code)

text \<open>Python values with canonical floats have canonical JSON values.\<close>

fun floats_ok :: "pyval \<Rightarrow> bool" where
  "floats_ok (VFloat x) = canonical x"
| "floats_ok (VList vs) = list_all floats_ok vs"
| "floats_ok (VTuple vs) = list_all floats_ok vs"
| "floats_ok (VDict kvs) = list_all (\<lambda>kv. floats_ok (snd kv)) kvs"
| "floats_ok _ = True"

lemma json_of_ok: "floats_ok v \<Longrightarrow> json_ok (json_of str_obj v)"
  by (induction v rule: floats_ok.induct) (simp_all add: list_all_iff)

lemma dumps_inject:
  assumes "string_keyed v" and "string_keyed w" and "floats_ok v" and "floats_ok w"
  shows "dumps str_obj v = dumps str_obj w \<longleftrightarrow> json_of str_obj v = json_of str_obj w"
  using json_values.text_of_inject [OF json_of_ok json_of_ok] assms by (simp add: dumps_json_text)

text \<open>Two mappings have the same JSON value exactly when they have the same items, up to order.\<close>

lemma sort_keys_eq:
  assumes "distinct (map fst kvs)" and "distinct (map fst kvs')"
  shows "sort_keys kvs = sort_keys kvs' \<longleftrightarrow> set kvs = set kvs'"
proof
  assume "sort_keys kvs = sort_keys kvs'"
  then have "set (sort_keys kvs) = set (sort_keys kvs')" by simp
  then show "set kvs = set kvs'" by simp
next
  assume eq: "set kvs = set kvs'"
  have "strict_total (\<lambda>a b. str_lt (fst a) (fst b)) (set kvs)"
    unfolding strict_total_def
  proof (intro conjI ballI impI)
    show "str_lt (fst a) (fst b) \<or> str_lt (fst b) (fst a)" if "a \<in> set kvs" "b \<in> set kvs" "a \<noteq> b" for a b
      using distinct_fst [OF assms(1) that] str_lt_total by simp
  qed (use str_lt_trans in simp_all)
  then show "sort_keys kvs = sort_keys kvs'"
    using assms by (intro stable_sort_unique [OF _ eq]) (simp_all add: distinct_map)
qed

text \<open>C20. \<open>json.dumps\<close> loses nothing it can say: two values with string keys have the same text exactly
  when they have the same JSON value. No two numbers, an integer and a float, a string and
  anything else, lists of different lengths or nesting, or mappings with different items share a
  text; what the text leaves out is the order of a mapping's items, list or tuple, and what
  \<open>str\<close> of other objects leaves out.\<close>

theorem json_unambiguous:
  assumes "string_keyed v" and "string_keyed w" and "floats_ok v" and "floats_ok w"
  shows "dumps str_obj v = dumps str_obj w \<longleftrightarrow> json_of str_obj v = json_of str_obj w"
  using assms by (rule dumps_inject)

theorem json_unambiguous_witness:
  "dumps (\<lambda>_. []) (VDict [(VStr ''b'', VInt 1), (VStr ''a'', VTuple [])])
     = dumps (\<lambda>_. []) (VDict [(VStr ''a'', VList []), (VStr ''b'', VInt 1)])
   \<and> dumps (\<lambda>_. []) (VList [VStr ''a,b'']) \<noteq> dumps (\<lambda>_. []) (VList [VStr ''a'', VStr ''b''])"
  by (subst (1 2) json_unambiguous) code_simp+



end
