(* ===== verification/IsoLaws.thy ===== *)
theory IsoLaws
  imports IsoFormat ReprLaws
begin

text \<open>
  \<open>isoformat\<close> determines the wall clock and the offset: the calendar arithmetic is undone, and the
  parts of the text are told apart.
\<close>

section \<open>Digits of fixed width\<close>

lemma length_dec_digits [simp]: "length (dec_digits k n) = k"
  by (induction k arbitrary: n) simp_all

lemma dec_digits_val: "0 \<le> n \<Longrightarrow> n < 10 ^ k \<Longrightarrow> digits_val (dec_digits k n) = n"
proof (induction k arbitrary: n)
  case (Suc k)
  then have "digits_val (dec_digits k (n div 10)) = n div 10" by (intro Suc.IH) simp_all
  moreover have "digit_val (digit_char (n mod 10)) = n mod 10" by (intro digit_val_char) simp_all
  ultimately show ?case by (simp add: digits_val_append del: digit_char.simps)
qed simp

lemma dec_digits_inject:
  "0 \<le> m \<Longrightarrow> m < 10 ^ k \<Longrightarrow> 0 \<le> n \<Longrightarrow> n < 10 ^ k \<Longrightarrow> dec_digits k m = dec_digits k n \<longleftrightarrow> m = n"
  using dec_digits_val by metis

section \<open>The calendar\<close>

definition day_number :: "int \<Rightarrow> int \<Rightarrow> int" where
  "day_number y n = 365 * (y - 1) + (y - 1) div 4 - (y - 1) div 100 + (y - 1) div 400 + n"

lemma cycle_divs:
  assumes "y = 400 * a + 100 * b + 4 * c + (d :: int)" and "0 \<le> b" "b \<le> 3" "0 \<le> c" "c \<le> 24" "0 \<le> d" "d \<le> 3"
  shows "y div 4 = 100 * a + 25 * b + c" "y div 100 = 4 * a + b" "y div 400 = a"
proof -
  show "y div 4 = 100 * a + 25 * b + c" by (rule int_div_pos_eq [where r = d]) (use assms in simp_all)
  show "y div 100 = 4 * a + b" by (rule int_div_pos_eq [where r = "4 * c + d"]) (use assms in simp_all)
  show "y div 400 = a" by (rule int_div_pos_eq [where r = "100 * b + 4 * c + d"]) (use assms in simp_all)
qed

lemma year_of_day_number:
  assumes "year_of_day day = (y, n)"
  shows "day_number y n = day \<and> 0 \<le> n \<and> n < 366"
proof -
  define a r where "a = day div 146097" and "r = day mod 146097"
  define b r1 where "b = r div 36524" and "r1 = r mod 36524"
  define c r2 where "c = r1 div 1461" and "r2 = r1 mod 1461"
  define d r3 where "d = r2 div 365" and "r3 = r2 mod 365"
  have sums: "day = 146097 * a + r" "r = 36524 * b + r1" "r1 = 1461 * c + r2" "r2 = 365 * d + r3"
    by (simp_all add: a_def r_def b_def r1_def c_def r2_def d_def r3_def)
  have rs: "0 \<le> r" "r < 146097" "0 \<le> r1" "r1 < 36524" "0 \<le> r2" "r2 < 1461" "0 \<le> r3" "r3 < 365"
    by (simp_all add: r_def r1_def r2_def r3_def)
  have "0 \<le> b \<and> b \<le> 4" using sums(2) rs(1-4) by (intro conjI) linarith+
  moreover have "0 \<le> c \<and> c \<le> 24" using sums(3) rs(3-6) by (intro conjI) linarith+
  moreover have "0 \<le> d \<and> d \<le> 4" using sums(4) rs(5-8) by (intro conjI) linarith+
  ultimately have qs: "0 \<le> b" "b \<le> 4" "0 \<le> c" "c \<le> 24" "0 \<le> d" "d \<le> 4" by simp_all
  have res: "(y, n) = (if d = 4 \<or> b = 4 then (a * 400 + b * 100 + c * 4 + d, 365) else (a * 400 + b * 100 + c * 4 + d + 1, r3))"
    unfolding assms [symmetric] year_of_day_def Let_def a_def [symmetric] r_def [symmetric] b_def [symmetric]
      r1_def [symmetric] c_def [symmetric] r2_def [symmetric] d_def [symmetric] r3_def [symmetric]
    by simp
  have main: "day_number y n = day" if y: "y - 1 = 400 * a + 100 * b' + 4 * c' + d'"
      "0 \<le> b'" "b' \<le> 3" "0 \<le> c'" "c' \<le> 24" "0 \<le> d'" "d' \<le> 3"
      and r: "r = 36524 * b' + 1461 * c' + 365 * d' + n" for b' c' d'
    unfolding day_number_def cycle_divs [OF y] unfolding y(1) sums(1) r by (simp add: algebra_simps)
  show ?thesis
  proof (cases "d = 4 \<or> b = 4")
    case False
    then have yn: "y - 1 = 400 * a + 100 * b + 4 * c + d" "n = r3" using res by simp_all
    have "b \<le> 3" "d \<le> 3" using False qs by auto
    then show ?thesis using main [OF yn(1)] qs rs(7,8) yn(2) sums(2-4) by simp
  next
    case True
    then have yn: "y - 1 = 400 * a + 100 * b + 4 * c + d - 1" "n = 365" using res by simp_all
    show ?thesis
    proof (cases "b = 4")
      case True
      then have z: "c = 0" "d = 0" "r = 146096"
        using sums(2-4) rs(2-4) rs(5,7) qs(3,5) by linarith+
      then show ?thesis using main [of 3 24 3] yn True by simp
    next
      case False
      then have z: "d = 4" "b \<le> 3" "r3 = 0" using True sums rs qs by linarith+
      then show ?thesis using main [of b c 3] yn qs sums(2-4) by simp
    qed
  qed
qed

fun days_before :: "int \<Rightarrow> nat \<Rightarrow> int" where
  "days_before y 0 = 0"
| "days_before y (Suc m) = days_before y m + (if m = 0 then 0 else days_in_month y m)"

lemma month_of_day_number:
  assumes "month_of_day k y m d = (m', d')" and "0 \<le> d" and "1 \<le> m"
  shows "days_before y m' + d' = days_before y m + d \<and> 0 \<le> d' \<and> m \<le> m' \<and> m' \<le> m + k
    \<and> (m' < m + k \<longrightarrow> d' < days_in_month y m') \<and> (m' = m + k \<longrightarrow> d' \<le> d - int k * 28 \<or> k = 0)"
  using assms
proof (induction k y m d rule: month_of_day.induct)
  case (2 k y m d)
  show ?case
  proof (cases "d < days_in_month y m")
    case True
    then show ?thesis using 2(2-) by simp
  next
    case False
    have "28 \<le> days_in_month y m" by (simp add: days_in_month_def)
    then show ?thesis using False 2 by auto
  qed
qed simp

text \<open>Days 0 to 3652058 are the years 1 to 9999.\<close>

lemma quotient_gap:
  "x = 25 * q + r \<Longrightarrow> y = 25 * q' + r' \<Longrightarrow> 0 \<le> r' \<Longrightarrow> r < 25 \<Longrightarrow> x \<le> y \<Longrightarrow> q \<le> q' \<Longrightarrow> x - q \<le> y - (q' :: int)"
  by linarith

lemma leap_mono:
  assumes "w \<le> w'"
  shows "w div 4 - w div 100 \<le> w' div 4 - w' div (100::int)"
proof -
  have quarter: "x div 100 = x div 4 div 25" for x :: int using zdiv_zmult2_eq [of 25 x 4] by simp
  show ?thesis
    unfolding quarter using assms
    by (intro quotient_gap [of _ _ "w div 4 mod 25" _ _ "w' div 4 mod 25"]) (simp_all add: zdiv_mono1)
qed

lemma year_range:
  assumes "year_of_day day = (y, n)" and "0 \<le> day" and "day < 3652059"
  shows "1 \<le> y \<and> y \<le> 9999"
proof -
  define z where "z = y - 1"
  have eq: "365 * z + (z div 4 - z div 100) + z div 400 + n = day" and n: "0 \<le> n" "n < 366"
    using year_of_day_number [OF assms(1)] by (simp_all add: day_number_def z_def)
  have "0 \<le> z"
  proof (rule ccontr)
    assume "\<not> 0 \<le> z"
    then have "z \<le> -1" "z div 400 \<le> -1 div 400" by (simp_all add: zdiv_mono1)
    then show False using eq n assms(2) leap_mono [of z "-1"] by simp
  qed
  moreover have "z \<le> 9998"
  proof (rule ccontr)
    assume "\<not> z \<le> 9998"
    then have "9999 \<le> z" "9999 div 400 \<le> z div 400" by (simp_all add: zdiv_mono1)
    then show False using eq n assms(3) leap_mono [of 9999 z] by simp
  qed
  ultimately show ?thesis by (simp add: z_def)
qed

lemma iso_date_parts:
  assumes "0 \<le> day" and "day < 3652059"
  obtains y m d where "iso_date day = dec_digits 4 y @ ''-'' @ dec_digits 2 (int m) @ ''-'' @ dec_digits 2 (d + 1)"
    and "0 \<le> y" "y < 10000" "m < 100" "0 \<le> d + 1" "d + 1 < 100"
    and "day = day_number y (days_before y m + d)"
proof -
  obtain y n where y: "year_of_day day = (y, n)" by (cases "year_of_day day")
  obtain m d where m: "month_of_day 11 y 1 n = (m, d)" by (cases "month_of_day 11 y 1 n")
  have n: "day_number y n = day" "0 \<le> n" "n < 366" using year_of_day_number [OF y] by simp_all
  note md = month_of_day_number [OF m n(2)]
  have "days_in_month y m \<le> 31" by (simp add: days_in_month_def)
  then have d60: "d < 60" using conjunct2 [OF conjunct2 [OF md]] n(3) by (cases "m < 12") auto
  have dm: "days_before y m + d = n" "0 \<le> d" "m \<le> 12" using md by simp_all
  have yr: "1 \<le> y" "y \<le> 9999" using year_range [OF y assms] by simp_all
  have "iso_date day = dec_digits 4 y @ ''-'' @ dec_digits 2 (int m) @ ''-'' @ dec_digits 2 (d + 1)"
    by (simp only: iso_date_def y m prod.case)
  then show thesis
  proof (rule that)
    show "day = day_number y (days_before y m + d)" by (simp only: dm(1) n(1))
  qed (use yr dm(2,3) d60 in linarith)+
qed

lemma iso_date_inject:
  assumes "0 \<le> a" and "a < 3652059" and "0 \<le> b" and "b < 3652059"
  shows "length (iso_date a) = 10" and "iso_date a = iso_date b \<longleftrightarrow> a = b"
proof -
  obtain y m d where a: "iso_date a = dec_digits 4 y @ ''-'' @ dec_digits 2 (int m) @ ''-'' @ dec_digits 2 (d + 1)"
    "0 \<le> y" "y < 10000" "m < 100" "0 \<le> d + 1" "d + 1 < 100" "a = day_number y (days_before y m + d)"
    using iso_date_parts [OF assms(1,2)] .
  obtain y' m' d' where b: "iso_date b = dec_digits 4 y' @ ''-'' @ dec_digits 2 (int m') @ ''-'' @ dec_digits 2 (d' + 1)"
    "0 \<le> y'" "y' < 10000" "m' < 100" "0 \<le> d' + 1" "d' + 1 < 100" "b = day_number y' (days_before y' m' + d')"
    using iso_date_parts [OF assms(3,4)] .
  show "length (iso_date a) = 10" by (simp add: a(1))
  have "y = y' \<and> m = m' \<and> d = d'" if "iso_date a = iso_date b"
    using that dec_digits_inject [of y 4 y'] dec_digits_inject [of "int m" 2 "int m'"]
      dec_digits_inject [of "d + 1" 2 "d' + 1"] a(2-6) b(2-6) unfolding a(1) b(1)
    by simp
  then show "iso_date a = iso_date b \<longleftrightarrow> a = b" using a(7) b(7) by auto
qed

section \<open>The clock and the offset\<close>

lemma hms: "s = 3600 * (s div 3600) + 60 * (s div 60 mod 60) + s mod (60::int)"
proof -
  have q: "s div 3600 = s div 60 div 60" using zdiv_zmult2_eq [of 60 s 60] by simp
  have "s = 60 * (s div 60) + s mod 60" "s div 60 = 60 * (s div 60 div 60) + s div 60 mod 60" by simp_all
  then show ?thesis unfolding q by linarith
qed

lemma dec2_step: "0 \<le> m \<Longrightarrow> m < 100 \<Longrightarrow> 0 \<le> n \<Longrightarrow> n < 100 \<Longrightarrow>
    dec_digits 2 m @ r = dec_digits 2 n @ t \<longleftrightarrow> m = n \<and> r = t"
  using dec_digits_inject [of m 2 n] by simp

lemma sexagesimal: "0 \<le> x mod 60" "x mod 60 < (100 :: int)"
  by (simp_all add: less_trans [OF pos_mod_bound])

lemma hours_range: "0 \<le> s \<Longrightarrow> s < 86400 \<Longrightarrow> 0 \<le> s div 3600 \<and> s div 3600 < (100 :: int)"
  using zdiv_mono1 [of s 86399 3600] by (simp add: pos_imp_zdiv_nonneg_iff)

definition micro_text :: "int \<Rightarrow> string" where
  "micro_text f = (if f = 0 then [] else ''.'' @ dec_digits 6 f)"

text \<open>What may follow a clock: nothing or an offset.\<close>

definition after_clock :: "string \<Rightarrow> bool" where
  "after_clock r \<longleftrightarrow> r = [] \<or> hd r \<in> set ''+-''"

lemma micro_unique:
  assumes "0 \<le> f" and "f < 1000000" and "0 \<le> g" and "g < 1000000"
    and "after_clock r" and "after_clock t" and "micro_text f @ r = micro_text g @ t"
  shows "f = g \<and> r = t"
proof -
  have "dec_digits 6 f = dec_digits 6 g \<longleftrightarrow> f = g" using assms(1-4) by (intro dec_digits_inject) simp_all
  moreover have "r \<noteq> CHR ''.'' # x" "t \<noteq> CHR ''.'' # x" for x using assms(5,6) by (auto simp: after_clock_def)
  ultimately show ?thesis using assms(7) by (auto simp: micro_text_def split: if_splits)
qed

lemma clock_unique:
  assumes "0 \<le> s" and "s < 86400" and "0 \<le> u" and "u < 86400"
    and "dec_digits 2 (s div 3600) @ '':'' @ dec_digits 2 (s div 60 mod 60) @ '':'' @ dec_digits 2 (s mod 60) @ r
      = dec_digits 2 (u div 3600) @ '':'' @ dec_digits 2 (u div 60 mod 60) @ '':'' @ dec_digits 2 (u mod 60) @ t"
  shows "s = u \<and> r = t"
proof -
  note h = hours_range [OF assms(1,2)] hours_range [OF assms(3,4)]
  have "s div 3600 = u div 3600" "s div 60 mod 60 = u div 60 mod 60" "s mod 60 = u mod 60" "r = t"
    using assms(5) by (simp_all only: append_Cons append_Nil dec2_step h sexagesimal list.inject simp_thms)
  then show ?thesis using hms [of s] hms [of u] by metis
qed

lemma seconds_range: "0 \<le> a \<Longrightarrow> a < 86400000000 \<Longrightarrow> 0 \<le> a div 1000000 \<and> a div 1000000 < (86400 :: int)"
  using zdiv_mono1 [of a 86399999999 1000000] by (simp add: pos_imp_zdiv_nonneg_iff)

lemma micros_range: "0 \<le> a mod 1000000" "a mod 1000000 < (1000000 :: int)"
  by simp_all

lemma micros_eq: "a div 1000000 = b div 1000000 \<Longrightarrow> a mod 1000000 = b mod 1000000 \<Longrightarrow> a = (b :: int)"
  by (metis mult_div_mod_eq)

lemma iso_clock_unique:
  assumes "0 \<le> a" and "a < 86400000000" and "0 \<le> b" and "b < 86400000000"
    and "after_clock r" and "after_clock t" and "iso_clock a @ r = iso_clock b @ t"
  shows "a = b \<and> r = t"
proof -
  have "a div 1000000 = b div 1000000 \<and> micro_text (a mod 1000000) @ r = micro_text (b mod 1000000) @ t"
    using seconds_range [OF assms(1,2)] seconds_range [OF assms(3,4)] assms(7)
    by (intro clock_unique) (simp_all only: iso_clock_def Let_def append.assoc micro_text_def)
  then show ?thesis
    using micro_unique [OF micros_range micros_range assms(5,6)] micros_eq [of a b] by blast
qed

definition seconds_text :: "int \<Rightarrow> int \<Rightarrow> string" where
  "seconds_text x f = (if x = 0 \<and> f = 0 then [] else '':'' @ dec_digits 2 x @ micro_text f)"

lemma seconds_unique:
  assumes "0 \<le> f" and "f < 1000000" and "0 \<le> g" and "g < 1000000"
    and "seconds_text (s mod 60) f = seconds_text (u mod 60) g"
  shows "s mod 60 = u mod 60 \<and> f = g"
proof -
  have "dec_digits 2 (s mod 60) = dec_digits 2 (u mod 60) \<longleftrightarrow> s mod 60 = u mod 60"
    using dec_digits_inject [of "s mod 60" 2 "u mod 60"] sexagesimal by simp
  then show ?thesis using assms(5) micro_unique [OF assms(1-4), of "[]" "[]"]
    by (auto simp: seconds_text_def after_clock_def split: if_splits)
qed

lemma offset_unique:
  assumes "0 \<le> s" and "s < 86400" and "0 \<le> u" and "u < 86400"
    and "0 \<le> f" and "f < 1000000" and "0 \<le> g" and "g < 1000000"
    and "dec_digits 2 (s div 3600) @ '':'' @ dec_digits 2 (s div 60 mod 60) @ seconds_text (s mod 60) f
      = dec_digits 2 (u div 3600) @ '':'' @ dec_digits 2 (u div 60 mod 60) @ seconds_text (u mod 60) g"
  shows "s = u \<and> f = g"
proof -
  note h = hours_range [OF assms(1,2)] hours_range [OF assms(3,4)]
  have "s div 3600 = u div 3600" "s div 60 mod 60 = u div 60 mod 60"
    "seconds_text (s mod 60) f = seconds_text (u mod 60) g"
    using assms(9) by (simp_all only: append_Cons append_Nil dec2_step h sexagesimal list.inject simp_thms)
  moreover from this(3) have "s mod 60 = u mod 60 \<and> f = g" by (rule seconds_unique [OF assms(5-8)])
  ultimately show ?thesis using hms [of s] hms [of u] by metis
qed

lemma iso_offset_not_Nil [simp]: "iso_offset a \<noteq> []" "[] \<noteq> iso_offset a"
  by (simp_all add: iso_offset_def Let_def)

lemma iso_offset_inject:
  assumes "\<bar>a\<bar> < 86400000000" and "\<bar>b\<bar> < 86400000000" and "iso_offset a = iso_offset b"
  shows "a = b"
proof -
  have parts: "iso_offset x = (if x < 0 then ''-'' else ''+'') @ dec_digits 2 (\<bar>x\<bar> div 1000000 div 3600) @ '':''
      @ dec_digits 2 (\<bar>x\<bar> div 1000000 div 60 mod 60) @ seconds_text (\<bar>x\<bar> div 1000000 mod 60) (\<bar>x\<bar> mod 1000000)" for x
    unfolding iso_offset_def Let_def seconds_text_def micro_text_def ..
  have sign: "a < 0 \<longleftrightarrow> b < 0"
    using assms(3) unfolding parts by (simp split: if_splits)
  have "\<bar>a\<bar> div 1000000 = \<bar>b\<bar> div 1000000 \<and> \<bar>a\<bar> mod 1000000 = \<bar>b\<bar> mod 1000000"
    using seconds_range [OF abs_ge_zero assms(1)] seconds_range [OF abs_ge_zero assms(2)] assms(3)
    unfolding parts sign same_append_eq by (intro offset_unique) (simp_all only: micros_range)
  then have "\<bar>a\<bar> = \<bar>b\<bar>" using micros_eq by blast
  then show ?thesis using sign by linarith
qed

section \<open>Datetimes\<close>

text \<open>The range of \<open>datetime\<close>: the years 1 to 9999, offsets of less than a day.\<close>

definition datetime_ok :: "pydatetime \<Rightarrow> bool" where
  "datetime_ok t \<longleftrightarrow> 0 \<le> dt_wall t \<and> dt_wall t < 3652059 * 86400000000
     \<and> pred_option (\<lambda>off. \<bar>off\<bar> < 86400000000) (dt_offset t)"

lemma isoformat_inject:
  assumes "datetime_ok s" and "datetime_ok t"
  shows "isoformat s = isoformat t \<longleftrightarrow> dt_wall s = dt_wall t \<and> dt_offset s = dt_offset t"
proof
  let ?o = "\<lambda>t. (case dt_offset t of None \<Rightarrow> [] | Some off \<Rightarrow> iso_offset off)"
  let ?d = "\<lambda>t. dt_wall t div 86400000000" and ?c = "\<lambda>t. dt_wall t mod 86400000000"
  have iso: "isoformat t = iso_date (?d t) @ ''T'' @ iso_clock (?c t) @ ?o t" for t
    by (simp add: isoformat_def us_per_hour_def)
  have day: "0 \<le> ?d t" "?d t < 3652059" if "datetime_ok t" for t
    using that zdiv_mono1 [of "dt_wall t" "3652059 * 86400000000 - 1" 86400000000]
    by (simp_all add: datetime_ok_def pos_imp_zdiv_nonneg_iff)
  have off: "after_clock (?o t)" for t
    by (simp add: after_clock_def iso_offset_def Let_def split: option.split)
  assume eq: "isoformat s = isoformat t"
  have len: "length (iso_date (?d s)) = length (iso_date (?d t))"
    using iso_date_inject(1) [OF day day, of s t] iso_date_inject(1) [OF day day, of t s] assms by simp
  have parts: "?d s = ?d t" "iso_clock (?c s) @ ?o s = iso_clock (?c t) @ ?o t"
    using eq len iso_date_inject(2) [OF day [OF assms(1)] day [OF assms(2)]] unfolding iso by simp_all
  have clock: "?c s = ?c t" "?o s = ?o t" using iso_clock_unique [OF _ _ _ _ off off parts(2)] by simp_all
  then have "dt_wall s = dt_wall t" using parts(1) mult_div_mod_eq [of 86400000000] by metis
  moreover have "dt_offset s = dt_offset t"
    using clock(2) assms iso_offset_inject iso_offset_not_Nil
    by (cases "dt_offset s"; cases "dt_offset t") (simp_all add: datetime_ok_def)
  ultimately show "dt_wall s = dt_wall t \<and> dt_offset s = dt_offset t" ..
qed (simp add: isoformat_def)

end
