(* ===== verification/ReceiptLaws.thy ===== *)
theory ReceiptLaws
  imports Provider JsonCode IsoLaws
begin

text \<open>
  What the hashes of a receipt certify: equal hashes mean equal inputs and an equal policy, unless
  SHA-256 itself collides on the two payloads.
\<close>

section \<open>Dictionaries with the same keys\<close>

lemma same_keys_set_eq:
  assumes "map fst xs = map fst ys" and "distinct (map fst xs)"
  shows "set xs = set ys \<longleftrightarrow> xs = ys"
proof
  assume set: "set xs = set ys"
  have len: "length xs = length ys" using assms(1) by (rule map_eq_imp_length_eq)
  show "xs = ys"
  proof (rule nth_equalityI [OF len])
    fix i assume i: "i < length xs"
    have "map fst xs ! i = map fst ys ! i" by (simp only: assms(1))
    then have "fst (xs ! i) = fst (ys ! i)" using i len by simp
    moreover have "xs ! i \<in> set xs" using i by simp
    moreover have "ys ! i \<in> set xs" unfolding set using i len by simp
    ultimately show "xs ! i = ys ! i" using distinct_fst [OF assms(2)] by blast
  qed
qed simp

lemma json_dict:
  "json_of f (dict kvs) = JObj (sort_keys (map (\<lambda>kv. (fst kv, json_of f (snd kv))) kvs))"
proof -
  have "map (\<lambda>kv. (key_text (fst kv), json_of f (snd kv))) (map (\<lambda>(k, v). (VStr k, v)) kvs)
      = map (\<lambda>kv. (fst kv, json_of f (snd kv))) kvs"
    by (auto simp: key_text_def)
  then show ?thesis unfolding dict_def json_of.simps by (rule arg_cong)
qed

lemma json_dict_eq:
  assumes "map fst kvs = map fst kvs'" and "distinct (map fst kvs)"
  shows "json_of f (dict kvs) = json_of f (dict kvs')
    \<longleftrightarrow> map (\<lambda>kv. json_of f (snd kv)) kvs = map (\<lambda>kv. json_of f (snd kv)) kvs'"
proof -
  let ?j = "map (\<lambda>kv. (fst kv, json_of f (snd kv)))"
  have keys: "map fst (?j kvs) = map fst (?j kvs')" "distinct (map fst (?j kvs))" "distinct (map fst (?j kvs'))"
    using assms by (simp_all add: comp_def)
  have pairs: "?j kvs = ?j kvs' \<longleftrightarrow> map (\<lambda>kv. json_of f (snd kv)) kvs = map (\<lambda>kv. json_of f (snd kv)) kvs'"
    using assms(1) by (induction kvs kvs' rule: list_induct2') auto
  show ?thesis
    unfolding json_dict json.inject sort_keys_eq [OF keys(2,3)] same_keys_set_eq [OF keys(1,2)] pairs ..
qed

lemma dict_string_keyed: "string_keyed (dict kvs) \<longleftrightarrow> list_all (\<lambda>kv. string_keyed (snd kv)) kvs"
  by (auto simp: dict_def list_all_iff)

lemma dict_floats_ok: "floats_ok (dict kvs) \<longleftrightarrow> list_all (\<lambda>kv. floats_ok (snd kv)) kvs"
  by (auto simp: dict_def list_all_iff)

lemma num_json: "json_of f (val_of_num a) = json_of f (val_of_num b) \<longleftrightarrow> a = b"
  by (cases a; cases b) simp_all

lemma num_plain: "string_keyed (val_of_num a)" "num_ok a \<Longrightarrow> floats_ok (val_of_num a)"
  by (cases a; simp)+

section \<open>Well-typed requests\<close>

text \<open>Every float is a double and every datetime is in range: what a Python object of these classes is.
  The advisory mapping has string keys at every depth.\<close>

definition request_typed :: "provider_request \<Rightarrow> bool" where
  "request_typed req \<longleftrightarrow>
     list_all canonical [pr_daily_realized_pnl req, pr_equity req, pr_proposed_cost req, pr_expected_value req]
   \<and> list_all (\<lambda>p. num_ok (cost_basis p) \<and> num_ok (current_value p)) (pr_open_positions req)
   \<and> list_all (\<lambda>oc. num_ok (pnl oc) \<and> datetime_ok (timestamp oc)) (pr_trade_outcomes req)
   \<and> pred_option datetime_ok (pr_current_time req)
   \<and> string_keyed (advisory_value req) \<and> floats_ok (advisory_value req)"

definition policy_typed :: "risk_context \<Rightarrow> bool" where
  "policy_typed ctx \<longleftrightarrow> list_all num_ok [max_daily_drawdown_pct ctx, max_weekly_drawdown_pct ctx,
     max_correlated_exposure ctx, min_expected_value ctx, consecutive_loss_window_minutes ctx]"

text \<open>The same wall clock with the same offset (the zones may be different objects).\<close>

definition same_time :: "pydatetime \<Rightarrow> pydatetime \<Rightarrow> bool" where
  "same_time s t \<longleftrightarrow> dt_wall s = dt_wall t \<and> dt_offset s = dt_offset t"

definition same_inputs :: "(pyval \<Rightarrow> string) \<Rightarrow> provider_request \<Rightarrow> provider_request \<Rightarrow> bool" where
  "same_inputs f a b \<longleftrightarrow>
     pr_daily_realized_pnl a = pr_daily_realized_pnl b \<and> pr_equity a = pr_equity b
   \<and> pr_target_family a = pr_target_family b \<and> pr_proposed_cost a = pr_proposed_cost b
   \<and> pr_expected_value a = pr_expected_value b \<and> pr_open_positions a = pr_open_positions b
   \<and> list_all2 (\<lambda>x y. same_time (timestamp x) (timestamp y) \<and> pnl x = pnl y) (pr_trade_outcomes a) (pr_trade_outcomes b)
   \<and> rel_option same_time (pr_current_time a) (pr_current_time b)
   \<and> json_of f (advisory_value a) = json_of f (advisory_value b)"

lemma inputs_plain:
  assumes "request_typed req"
  shows "string_keyed (receipt_inputs req)" and "floats_ok (receipt_inputs req)"
  using assms
  by (auto simp: receipt_inputs_def request_typed_def dict_string_keyed dict_floats_ok list_all_iff num_plain
      split: option.split)

lemma map_eq_list_all2: "map f xs = map g ys \<longleftrightarrow> list_all2 (\<lambda>x y. f x = g y) xs ys"
  by (induction xs ys rule: list_induct2') simp_all

lemma position_json:
  "json_of f (dict [(''ticker'', VStr (ticker p)), (''family'', VStr (family p)),
      (''cost_basis'', val_of_num (cost_basis p)), (''current_value'', val_of_num (current_value p)),
      (''is_resolved'', VBool (is_resolved p))])
   = json_of f (dict [(''ticker'', VStr (ticker q)), (''family'', VStr (family q)),
      (''cost_basis'', val_of_num (cost_basis q)), (''current_value'', val_of_num (current_value q)),
      (''is_resolved'', VBool (is_resolved q))]) \<longleftrightarrow> p = q" for p q :: position
  by (subst json_dict_eq; cases p; cases q; auto simp: num_json)

lemma outcome_json:
  assumes "datetime_ok (timestamp a)" and "datetime_ok (timestamp b)"
  shows "json_of f (dict [(''timestamp'', VStr (isoformat (timestamp a))), (''pnl'', val_of_num (pnl a))])
   = json_of f (dict [(''timestamp'', VStr (isoformat (timestamp b))), (''pnl'', val_of_num (pnl b))])
   \<longleftrightarrow> same_time (timestamp a) (timestamp b) \<and> pnl a = pnl b"
  using assms by (subst json_dict_eq) (simp_all add: num_json isoformat_inject same_time_def)

lemma inputs_json:
  assumes "request_typed a" and "request_typed b"
  shows "json_of f (receipt_inputs a) = json_of f (receipt_inputs b) \<longleftrightarrow> same_inputs f a b"
proof -
  have time: "json_of f (case pr_current_time a of None \<Rightarrow> VNone | Some t \<Rightarrow> VStr (isoformat t))
      = json_of f (case pr_current_time b of None \<Rightarrow> VNone | Some t \<Rightarrow> VStr (isoformat t))
      \<longleftrightarrow> rel_option same_time (pr_current_time a) (pr_current_time b)"
    using assms by (cases "pr_current_time a"; cases "pr_current_time b")
      (simp_all add: request_typed_def isoformat_inject same_time_def)
  have outs: "map (\<lambda>oc. json_of f (dict [(''timestamp'', VStr (isoformat (timestamp oc))), (''pnl'', val_of_num (pnl oc))]))
        (pr_trade_outcomes a)
      = map (\<lambda>oc. json_of f (dict [(''timestamp'', VStr (isoformat (timestamp oc))), (''pnl'', val_of_num (pnl oc))]))
        (pr_trade_outcomes b)
      \<longleftrightarrow> list_all2 (\<lambda>x y. same_time (timestamp x) (timestamp y) \<and> pnl x = pnl y) (pr_trade_outcomes a) (pr_trade_outcomes b)"
    unfolding map_eq_list_all2 using assms
    by (intro list.rel_cong refl outcome_json) (simp_all add: request_typed_def list_all_iff)
  show ?thesis
    unfolding receipt_inputs_def
    by (subst json_dict_eq)
      (simp_all add: same_inputs_def comp_def map_eq_list_all2 [of _ "pr_open_positions a"] position_json list_all2_eq [symmetric] outs time)
qed

lemma policy_plain:
  assumes "policy_typed ctx"
  shows "string_keyed (receipt_config ctx)" and "floats_ok (receipt_config ctx)"
  using assms by (simp_all add: receipt_config_def policy_typed_def dict_string_keyed dict_floats_ok num_plain)

lemma policy_json: "json_of f (receipt_config c) = json_of f (receipt_config c') \<longleftrightarrow> c = c'"
  unfolding receipt_config_def by (subst json_dict_eq) (auto simp: num_json intro: risk_context.equality)

lemma payload_inputs:
  assumes "request_typed a" and "request_typed b"
  shows "dumps f (receipt_inputs a) = dumps f (receipt_inputs b) \<longleftrightarrow> same_inputs f a b"
  using dumps_inject [of "receipt_inputs a" "receipt_inputs b" f] inputs_plain assms inputs_json [OF assms] by simp

lemma payload_policy:
  assumes "policy_typed c" and "policy_typed c'"
  shows "dumps f (receipt_config c) = dumps f (receipt_config c') \<longleftrightarrow> c = c'"
  using dumps_inject [of "receipt_config c" "receipt_config c'" f] policy_plain assms policy_json by simp

section \<open>The hashes\<close>

text \<open>SHA-256 tells the payloads of two values apart, if they differ.\<close>

definition no_collision :: "(pyval \<Rightarrow> string) \<Rightarrow> pyval \<Rightarrow> pyval \<Rightarrow> bool" where
  "no_collision f v w \<longleftrightarrow> (case (dumps f v, dumps f w) of
     (Inr p, Inr q) \<Rightarrow> sha256_hex p = sha256_hex q \<longrightarrow> p = q | _ \<Rightarrow> True)"

lemma hash_payload:
  assumes "no_collision f v w" and "receipt_hash f v = Inr h" and "receipt_hash f w = Inr k"
  shows "h = k \<longleftrightarrow> dumps f v = dumps f w"
  using assms by (auto simp: receipt_hash_def rbind_eq_Inr no_collision_def)

lemma hashes_certify:
  assumes "fst (provider_evaluate f env clock rp req tr) = Inr r"
    and "fst (provider_evaluate f env' clock' rp' req' tr') = Inr r'"
    and "request_typed req" and "request_typed req'" and "policy_typed (rp_ctx rp)" and "policy_typed (rp_ctx rp')"
    and "no_collision f (receipt_inputs req) (receipt_inputs req')"
    and "no_collision f (receipt_config (rp_ctx rp)) (receipt_config (rp_ctx rp'))"
  shows "(rc_inputs_hash (pv_receipt r) = rc_inputs_hash (pv_receipt r') \<longleftrightarrow> same_inputs f req req')
    \<and> (rc_config_hash (pv_receipt r) = rc_config_hash (pv_receipt r') \<longleftrightarrow> rp_ctx rp = rp_ctx rp')"
proof -
  obtain outs outs' where "build_risk_receipt f (pr_run_id req) (receipt_inputs req) (receipt_config (rp_ctx rp))
        (if pv_approved r then ''approved'' else ''rejected'') [] None
        (Some (receipt_details req (pv_reason_code r) outs)) = Inr (pv_receipt r)"
    and "build_risk_receipt f (pr_run_id req') (receipt_inputs req') (receipt_config (rp_ctx rp'))
        (if pv_approved r' then ''approved'' else ''rejected'') [] None
        (Some (receipt_details req' (pv_reason_code r') outs')) = Inr (pv_receipt r')"
    using result_receipt [OF assms(1)] result_receipt [OF assms(2)] by blast
  note h = receipt_hashes [OF this(1)] receipt_hashes [OF this(2)]
  show ?thesis
    using hash_payload [OF assms(7) h(1,4)] hash_payload [OF assms(8) h(2,5)]
      payload_inputs [OF assms(3,4), of f] payload_policy [OF assms(5,6), of f] by simp
qed

text \<open>Two requests that differ in nothing the receipt can tell: no advisory data, and an empty mapping.\<close>

abbreviation "sample_a \<equiv> sample_request\<lparr>pr_advisory := None\<rparr>"

abbreviation "sample_b \<equiv> sample_request\<lparr>pr_advisory := Some []\<rparr>"

lemma sample_pair:
  "request_typed sample_a" "request_typed sample_b" "policy_typed (rp_ctx sample_provider)"
  "no_collision f (receipt_inputs sample_a) (receipt_inputs sample_b)"
  "no_collision f (receipt_config ctx) (receipt_config ctx)" "same_inputs f sample_a sample_b"
proof -
  have inputs: "receipt_inputs sample_a = receipt_inputs sample_b" by (simp add: receipt_inputs_def advisory_value_def)
  have refl: "no_collision f v v" for v by (simp add: no_collision_def split: sum.split)
  show "no_collision f (receipt_inputs sample_a) (receipt_inputs sample_b)" unfolding inputs by (rule refl)
  show "no_collision f (receipt_config ctx) (receipt_config ctx)" by (rule refl)
qed (simp_all add: request_typed_def sample_request_def advisory_value_def canonical_zero same_inputs_def
    policy_typed_def sample_provider_simps default_context_def)

lemma sample_results:
  obtains r r' where "fst (provider_evaluate (\<lambda>_. []) sample_env (0, 0) sample_provider sample_a []) = Inr r"
    and "fst (provider_evaluate (\<lambda>_. []) sample_env (0, 0) sample_provider sample_b []) = Inr r'"
  using sample_evaluates [of None] sample_evaluates [of "Some []"] by auto



section \<open>Auditing a receipt\<close>

text \<open>Times that are naive or in one zone object \<open>u\<close> at UTC, as the package's callers use them.\<close>

definition naive_or_utc :: "nat \<Rightarrow> pydatetime \<Rightarrow> bool" where
  "naive_or_utc u t \<longleftrightarrow> dt_tz t = None \<or> dt_tz t = Some (u, Some 0)"

definition utc_request :: "nat \<Rightarrow> provider_request \<Rightarrow> bool" where
  "utc_request u req \<longleftrightarrow> pred_option (naive_or_utc u) (pr_current_time req)
     \<and> list_all (\<lambda>oc. naive_or_utc u (timestamp oc)) (pr_trade_outcomes req)"

lemma same_time_eq: "naive_or_utc u s \<Longrightarrow> naive_or_utc u t \<Longrightarrow> same_time s t \<Longrightarrow> s = t" for s t :: pydatetime
  by (cases s; cases t) (auto simp: naive_or_utc_def same_time_def dt_offset_def)

lemma same_outcomes_eq:
  fixes xs ys :: "trade_outcome list"
  assumes "list_all2 (\<lambda>x y. same_time (timestamp x) (timestamp y) \<and> pnl x = pnl y) xs ys"
    and "list_all (\<lambda>oc. naive_or_utc u (timestamp oc)) xs" and "list_all (\<lambda>oc. naive_or_utc u (timestamp oc)) ys"
  shows "xs = ys"
  using assms
proof (induction rule: list_all2_induct)
  case (Cons x xs y ys)
  then have "timestamp x = timestamp y" "pnl x = pnl y" using same_time_eq by simp_all
  then have "x = y" by (cases x; cases y) simp
  then show ?case using Cons by simp
qed simp

lemma same_inputs_request:
  assumes "same_inputs f a b" and "utc_request u a" and "utc_request u b"
  shows "request_inputs a = request_inputs b" and "gate_report ctx a = gate_report ctx b"
proof -
  have outs: "pr_trade_outcomes a = pr_trade_outcomes b"
    using assms by (intro same_outcomes_eq [of _ _ u]) (simp_all add: same_inputs_def utc_request_def)
  have time: "pr_current_time a = pr_current_time b"
    using assms same_time_eq
    by (cases "pr_current_time a"; cases "pr_current_time b") (auto simp: same_inputs_def utc_request_def)
  show "request_inputs a = request_inputs b" "gate_report ctx a = gate_report ctx b"
    using assms(1) outs time by (simp_all add: same_inputs_def request_inputs_def gate_report_gates)
qed

text \<open>No desk control stops the trade and the evaluation is in time: the gates alone decide.\<close>

definition gates_decide :: "engine_env \<Rightarrow> risk_provider \<Rightarrow> provider_request \<Rightarrow> bool" where
  "gates_decide env rp req \<longleftrightarrow> hands_off (rp_authority rp)
     \<and> first_rejection (control_verdicts (rp_authority rp) (pr_current_time req)) = Inr None
     \<and> elapsed_us env \<le> latency_budget_us (rp_ctx rp)"

lemma gates_decide_decision:
  assumes "gates_decide env rp req" and "gates_decide env' rp' req'" and "rp_ctx rp = rp_ctx rp'"
    and "request_inputs req = request_inputs req'"
  shows "sr_decision (evaluate_with_state env (rp_authority rp) (rp_ctx rp) (request_inputs req) tr)
    = sr_decision (evaluate_with_state env' (rp_authority rp') (rp_ctx rp') (request_inputs req') tr')"
proof -
  have now: "ti_current_time (request_inputs r) = pr_current_time r" for r by (simp add: request_inputs_def)
  have "gate_verdicts env (rp_ctx rp) (request_inputs req) = gate_verdicts env' (rp_ctx rp') (request_inputs req')"
    using assms by (simp add: gate_verdicts_def latency_verdict_def gates_decide_def)
  then show ?thesis
    using assms now [of req] now [of req']
    by (simp add: evaluate_with_state_chain gates_decide_def first_rejection_append)
qed

text \<open>C8. A receipt can be audited. If two results carry the same two hashes (and SHA-256 does not
  collide on their payloads), for requests whose times are naive or in UTC, then they report the
  same outcome of every gate; and if in both evaluations no desk control stopped the trade and
  the latency budget was kept, they have the same verdict, reason and size. So evaluating the
  recorded inputs again under the recorded policy reproduces what the receipt claims.\<close>

theorem receipts_audit:
  assumes "fst (provider_evaluate f env clock rp req tr) = Inr r"
    and "fst (provider_evaluate f env' clock' rp' req' tr') = Inr r'"
    and "request_typed req" and "request_typed req'" and "policy_typed (rp_ctx rp)" and "policy_typed (rp_ctx rp')"
    and "no_collision f (receipt_inputs req) (receipt_inputs req')"
    and "no_collision f (receipt_config (rp_ctx rp)) (receipt_config (rp_ctx rp'))"
    and "utc_request u req" and "utc_request u req'"
    and "rc_inputs_hash (pv_receipt r) = rc_inputs_hash (pv_receipt r')"
    and "rc_config_hash (pv_receipt r) = rc_config_hash (pv_receipt r')"
  shows "pv_gate_outcomes r = pv_gate_outcomes r'
    \<and> (gates_decide env rp req \<and> gates_decide env' rp' req' \<longrightarrow> pv_approved r = pv_approved r'
         \<and> pv_reason_code r = pv_reason_code r' \<and> pv_suggested_size r = pv_suggested_size r')"
proof -
  have "same_inputs f req req'" and ctx: "rp_ctx rp = rp_ctx rp'"
    using hashes_certify [OF assms(1-8)] assms(11,12) by simp_all
  then have same: "request_inputs req = request_inputs req'" "gate_report ctx req = gate_report ctx req'" for ctx
    using same_inputs_request assms(9,10) by blast+
  show ?thesis
    using assms(1,2) same(2) gates_decide_decision [OF _ _ ctx same(1), of env env' tr tr']
    by (auto simp: provider_evaluate_def Let_def rbind_eq_Inr ctx)
qed

theorem receipts_audit_witness:
  "\<exists>r r'. fst (provider_evaluate (\<lambda>_. []) sample_env (0, 0) sample_provider sample_a []) = Inr r
    \<and> fst (provider_evaluate (\<lambda>_. []) sample_env (0, 0) sample_provider sample_b []) = Inr r'
    \<and> pv_gate_outcomes r = pv_gate_outcomes r' \<and> pv_approved r = pv_approved r'"
proof (rule sample_results)
  fix r r'
  assume rs: "fst (provider_evaluate (\<lambda>_. []) sample_env (0, 0) sample_provider sample_a []) = Inr r"
    "fst (provider_evaluate (\<lambda>_. []) sample_env (0, 0) sample_provider sample_b []) = Inr r'"
  have hashes: "rc_inputs_hash (pv_receipt r) = rc_inputs_hash (pv_receipt r')"
    "rc_config_hash (pv_receipt r) = rc_config_hash (pv_receipt r')"
    using hashes_certify [OF rs sample_pair(1,2,3,3,4,5)] sample_pair(6) by simp_all
  have utc: "utc_request 0 sample_a" "utc_request 0 sample_b" by (simp_all add: utc_request_def sample_request_def)
  have "elapsed_us sample_env \<le> latency_budget_us default_context" by code_simp
  then have "gates_decide sample_env sample_provider sample_a" "gates_decide sample_env sample_provider sample_b"
    by (simp_all add: gates_decide_def sample_provider_simps)
  then show ?thesis
    using receipts_audit [OF rs sample_pair(1,2,3,3,4,5) utc hashes] rs by blast
qed

end
