(* ===== verification/KellyAccuracy.thy ===== *)
theory KellyAccuracy
  imports Kelly Rounding
begin

text \<open>
  The float stake against the exact Kelly formula. For a contract that pays 1 and costs \<open>x\<close>, an
  estimated probability \<open>p\<close> and a fraction \<open>c\<close> the criterion is \<open>c * max 0 ((p - x) / (1 - x))\<close>.
\<close>

section \<open>Errors of the intermediate results\<close>

text \<open>One hundredth of the bound is more than enough for every single rounding.\<close>

lemma error_interval:
  "\<bar>a - v\<bar> \<le> uround * \<bar>v\<bar> \<Longrightarrow> 0 \<le> v \<Longrightarrow> (1 - uround) * v \<le> a \<and> a \<le> (1 + uround) * v"
  by (simp add: algebra_simps abs_le_iff)

lemma fsub_one_error:
  assumes "unit_float x"
  shows "\<bar>fval (fsub (lit 1 1) x) - (1 - fval x)\<bar> \<le> uround * (1 - fval x)"
proof -
  have x: "canonical x" "is_finite x" "fval x < 1" using assms by (auto simp: unit_float_def)
  have "is_finite (fsub (lit 1 1) x)" using fsub_one(2) [OF assms] .
  then show ?thesis
    using fadd_error [of "lit 1 1" "fneg x"] x by (simp add: fsub_def)
qed

text \<open>Two roundings in a row, the second with a negligible absolute part.\<close>

lemma two_roundings:
  assumes "\<bar>w - v\<bar> \<le> uround * v" and "\<bar>b - w\<bar> \<le> uround * \<bar>w\<bar> + e" and "e \<le> uround * w" and "0 \<le> v"
  shows "\<bar>b - v\<bar> \<le> 4 * uround * v" and "w / 2 \<le> b"
proof -
  have u: "0 < uround" "uround \<le> 1 / 8" using uround_bounds by simp_all
  have w0: "0 \<le> w" using error_interval [OF _ assms(4), of w] assms(1,4) u by (auto intro: order_trans [rotated])
  have bw: "\<bar>b - w\<bar> \<le> 2 * uround * w" using assms(2,3) w0 by simp
  have "uround * w \<le> uround * (v + uround * v)" using assms(1) u by (intro mult_left_mono) simp_all
  also have "\<dots> \<le> uround * (v + 1 / 8 * v)"
    using u assms(4) by (intro mult_left_mono add_left_mono mult_right_mono) simp_all
  finally have "uround * w \<le> 9 / 8 * (uround * v)" by simp
  then show "\<bar>b - v\<bar> \<le> 4 * uround * v" using bw assms(1) mult_nonneg_nonneg [of uround v] u assms(4)
    by linarith
  have "uround * w \<le> 1 / 8 * w" using u w0 by (intro mult_right_mono) simp_all
  then show "w / 2 \<le> b" using bw w0 by linarith
qed

text \<open>The computed odds, for a price that is not subnormal: two roundings, and not small.\<close>

lemma odds_error:
  assumes "unit_float x" and "2 powi (-1022) \<le> fval x"
  shows "\<bar>fval (odds x) - (1 - fval x) / fval x\<bar> \<le> 4 * uround * ((1 - fval x) / fval x)"
    and "2 powi (-54) \<le> fval (odds x)"
proof -
  let ?r = "fsub (lit 1 1) x"
  note r = fsub_one [OF assms(1)]
  have x: "canonical x" "is_finite x" "0 < fval x" "fval x < 1" using assms(1) by (auto simp: unit_float_def)
  have fin: "is_finite (odds x)" using odds_facts(5) [OF assms(1,2)] by (simp add: odds_def)
  define v where "v = (1 - fval x) / fval x"
  define w where "w = fval ?r / fval x"
  have app: "approx (odds x) w"
    unfolding odds_def w_def using r x by (intro fdiv_approx) simp_all
  have v0: "0 \<le> v" using x by (simp add: v_def)
  have "w - v = (fval ?r - (1 - fval x)) / fval x" unfolding w_def v_def by (rule diff_divide_distrib [symmetric])
  then have "\<bar>w - v\<bar> = \<bar>fval ?r - (1 - fval x)\<bar> / fval x" using x(3) by simp
  also have "\<dots> \<le> uround * (1 - fval x) / fval x"
    using fsub_one_error [OF assms(1)] x(3) by (intro divide_right_mono) simp_all
  finally have w: "\<bar>w - v\<bar> \<le> uround * v" by (simp add: v_def)
  have "2 powi (-53) / 1 \<le> w"
    unfolding w_def using r(3) x by (intro frac_le) simp_all
  then have w0: "2 powi (-53) \<le> w" by simp
  have "tiny \<le> uround * 2 powi (-53)"
    using power_int_increasing [of "-1075" "-106" "2 :: real"]
    by (simp add: tiny_def uround_def flip: two_powi_add)
  also have "\<dots> \<le> uround * w" using w0 uround_bounds(1) by (intro mult_left_mono) simp_all
  finally have t: "tiny \<le> uround * w" .
  note e = two_roundings [OF w approx_error [OF app fin] t v0]
  show "\<bar>fval (odds x) - (1 - fval x) / fval x\<bar> \<le> 4 * uround * ((1 - fval x) / fval x)"
    using e(1) by (simp only: v_def)
  have "(2::real) powi (-54) = 2 powi (-53) / 2" by (simp add: power_int_minus)
  then show "2 powi (-54) \<le> fval (odds x)" using e(2) w0 by linarith
qed

section \<open>The quotient\<close>

text \<open>
  The arithmetic, scaled by the computed odds: \<open>g\<close> is the gain and \<open>q\<close> the loss side of the edge
  \<open>e\<close>, \<open>z\<close> the exact loss side and \<open>y\<close> the one with the computed odds.
\<close>

lemma sign_of_difference:
  assumes "\<bar>e - d\<bar> \<le> uround * \<bar>d\<bar>"
  shows "0 < e \<Longrightarrow> 0 \<le> d" and "e \<le> 0 \<Longrightarrow> d \<le> 0"
proof -
  have h: "uround * \<bar>d\<bar> \<le> 1 / 2 * \<bar>d\<bar>" using uround_bounds by (intro mult_right_mono) simp_all
  show "0 < e \<Longrightarrow> 0 \<le> d" "e \<le> 0 \<Longrightarrow> d \<le> 0"
    using assms h by (auto simp: abs_if split: if_splits)
qed

lemma edge_arith:
  fixes p g q e y z t :: real
  assumes p: "0 < p" "p < 1" and g: "\<bar>g - p\<bar> \<le> uround * p + t" and t: "t \<le> uround"
    and q: "\<bar>q - y\<bar> \<le> uround * y" and y: "0 \<le> y" "\<bar>y - z\<bar> \<le> 4 * uround * y"
    and e: "\<bar>e - (g - q)\<bar> \<le> uround * \<bar>g - q\<bar>"
  shows "0 < e \<Longrightarrow> \<bar>e - (p - z)\<bar> \<le> 14 * uround" and "0 < e \<Longrightarrow> e \<le> 2"
    and "e \<le> 0 \<Longrightarrow> p - z \<le> 14 * uround"
proof -
  have u: "0 < uround" "uround \<le> 1 / 64" "uround * p \<le> uround" using uround_bounds p by simp_all
  have gain: "\<bar>g - p\<bar> \<le> 2 * uround" using g t u by linarith
  have uy: "uround * y \<le> 1 / 64 * y" using u y(1) by (intro mult_right_mono) simp_all
  have uy2: "y \<le> 2 \<Longrightarrow> uround * y \<le> uround * 2" using u by (intro mult_left_mono) simp_all
  have "\<bar>e - (p - z)\<bar> \<le> 14 * uround \<and> e \<le> 2" if pos: "0 < e"
  proof -
    have d: "0 \<le> g - q" using sign_of_difference(1) [OF e] pos by blast
    have q0: "0 \<le> q" using q uy y(1) by linarith
    have d2: "g - q \<le> 3 / 2" using gain p q0 u by linarith
    have "y \<le> 2" using q uy d gain p u by linarith
    moreover have "uround * \<bar>g - q\<bar> \<le> uround * 2" using d d2 u by (intro mult_left_mono) simp_all
    ultimately show ?thesis using e q y(2) uy2 gain d d2 u by linarith
  qed
  then show "0 < e \<Longrightarrow> \<bar>e - (p - z)\<bar> \<le> 14 * uround" "0 < e \<Longrightarrow> e \<le> 2" by blast+
  show "p - z \<le> 14 * uround" if "e \<le> 0"
  proof (cases "p - z \<le> 0")
    case False
    then have "y \<le> 2" using uy y(2) p by linarith
    then show ?thesis using sign_of_difference(2) [OF e that] gain q y(2) uy2 by linarith
  qed (use u in linarith)
qed

section \<open>The stake\<close>

text \<open>The Kelly criterion, exactly.\<close>

definition kelly_exact :: "real \<Rightarrow> real \<Rightarrow> real \<Rightarrow> real" where
  "kelly_exact p x c = c * max 0 ((p - x) / (1 - x))"

lemma quotient_error:
  fixes a k l :: real
  assumes "0 < k" "0 < l" "0 \<le> a"
  shows "\<bar>a / k - a / l\<bar> = a / k * (\<bar>k - l\<bar> / l)"
proof -
  have "a / k - a / l = a / k * ((l - k) / l)" using assms by (simp add: field_simps)
  then have "\<bar>a / k - a / l\<bar> = \<bar>a / k\<bar> * \<bar>(l - k) / l\<bar>" by (simp only: abs_mult)
  then show ?thesis using assms by (simp add: abs_divide abs_minus_commute)
qed

lemma edge_scaled:
  assumes "unit_float u" and "unit_float x" and "2 powi (-1022) \<le> fval x"
  obtains g q y z t where "\<bar>g - fval u\<bar> \<le> uround * fval u + t" "t \<le> uround"
    "\<bar>q - y\<bar> \<le> uround * y" "0 \<le> y" "\<bar>y - z\<bar> \<le> 4 * uround * y"
    "\<bar>fval (kelly_edge u x) / fval (odds x) - (g - q)\<bar> \<le> uround * \<bar>g - q\<bar>"
    "fval u - z = (fval u - fval x) / (1 - fval x)"
proof -
  let ?B = "fval (odds x)" and ?p = "fval u" and ?G = "fval (fmul u (odds x))"
    and ?Q = "fval (fsub (lit 1 1) u)" and ?v = "(1 - fval x) / fval x"
  have fin: "is_finite (odds x)" using odds_facts(5) [OF assms(2,3)] by (simp add: odds_def)
  note gf = gain_facts [OF assms(1,2) fin] and r = fsub_one [OF assms(1)]
  have uc: "canonical u" "is_finite u" "0 < ?p" "?p < 1" using assms(1) by (auto simp: unit_float_def)
  have oc: "canonical (odds x)" using odds_facts(1) [OF assms(2)] by (simp add: odds_def)
  have x: "0 < fval x" "fval x < 1" using assms(2) by (auto simp: unit_float_def)
  note o = odds_error [OF assms(2,3)]
  have B: "0 < ?B" using o(2) less_le_trans [OF two_powi_pos [of "-54"]] by blast
  have v: "0 < ?v" using x by simp
  have scale: "\<bar>a / ?B - b / ?B\<bar> = \<bar>a - b\<bar> / ?B" for a b
    using B by (simp flip: diff_divide_distrib)
  have G: "\<bar>?G - ?p * ?B\<bar> \<le> uround * \<bar>?p * ?B\<bar> + tiny"
    using uc oc fin gf(2) by (intro approx_error fmul_approx)
  have E: "\<bar>fval (kelly_edge u x) - (?G - ?Q)\<bar> \<le> uround * \<bar>?G - ?Q\<bar>"
    using fadd_error [of "fmul u (odds x)" "fneg (fsub (lit 1 1) u)"] gf r edge_facts(3) [OF assms(1,2) fin]
    by (simp add: kelly_edge_def fsub_def [of "fmul u (odds x)"])
  show thesis
  proof (rule that [of "?G / ?B" "tiny / ?B" "?Q / ?B" "(1 - ?p) / ?B" "(1 - ?p) / ?v"])
    have "\<bar>?G - ?p * ?B\<bar> / ?B \<le> (uround * \<bar>?p * ?B\<bar> + tiny) / ?B" using G B by (intro divide_right_mono) simp_all
    also have "\<dots> = uround * ?p + tiny / ?B" using B uc by (simp add: add_divide_distrib abs_mult)
    finally show "\<bar>?G / ?B - ?p\<bar> \<le> uround * ?p + tiny / ?B" using scale [of ?G "?p * ?B"] B by simp
    have "tiny / ?B \<le> tiny / 2 powi (-54)" using o(2) tiny_bounds(1) B by (intro frac_le) simp_all
    also have "\<dots> = 2 powi (-1021)" by (simp add: tiny_def flip: two_powi_diff)
    also have "\<dots> \<le> uround" unfolding uround_def by (intro power_int_increasing) simp_all
    finally show "tiny / ?B \<le> uround" .
    have "\<bar>?Q - (1 - ?p)\<bar> / ?B \<le> uround * (1 - ?p) / ?B"
      using fsub_one_error [OF assms(1)] B by (intro divide_right_mono) simp_all
    then show "\<bar>?Q / ?B - (1 - ?p) / ?B\<bar> \<le> uround * ((1 - ?p) / ?B)" using scale by simp
    show "0 \<le> (1 - ?p) / ?B" using uc B by simp
    have "\<bar>(1 - ?p) / ?B - (1 - ?p) / ?v\<bar> = (1 - ?p) / ?B * (\<bar>?B - ?v\<bar> / ?v)"
      using uc by (intro quotient_error B v) simp
    also have "\<dots> \<le> (1 - ?p) / ?B * (4 * uround)"
    proof (rule mult_left_mono)
      show "\<bar>?B - ?v\<bar> / ?v \<le> 4 * uround" using o(1) by (simp only: pos_divide_le_eq [OF v])
    qed (use uc B in simp)
    finally show "\<bar>(1 - ?p) / ?B - (1 - ?p) / ?v\<bar> \<le> 4 * uround * ((1 - ?p) / ?B)"
      unfolding mult.commute [of "(1 - ?p) / ?B" "4 * uround"] .
    have "\<bar>fval (kelly_edge u x) - (?G - ?Q)\<bar> / ?B \<le> uround * \<bar>?G - ?Q\<bar> / ?B"
      using E B by (intro divide_right_mono) simp_all
    then show "\<bar>fval (kelly_edge u x) / ?B - (?G / ?B - ?Q / ?B)\<bar> \<le> uround * \<bar>?G / ?B - ?Q / ?B\<bar>"
      using scale [of "fval (kelly_edge u x)" "?G - ?Q"] scale [of ?G ?Q] by (simp add: diff_divide_distrib)
    show "?p - (1 - ?p) / ?v = (?p - fval x) / (1 - fval x)" using x by (simp add: field_simps)
  qed
qed

text \<open>Clamping to the unit interval never moves a value away from one inside it.\<close>

lemma clamp_near:
  assumes "is_finite s" and "0 \<le> w" and "w \<le> 1" and "\<bar>fval s - v\<bar> \<le> \<epsilon>" and "w = max 0 v"
  shows "\<bar>num_value (py_max F0 (py_min F1 (PyFloat s))) - w\<bar> \<le> \<epsilon>"
  using assms by (auto simp: py_max_def py_min_def num_lt_def flt_fval max_def abs_if split: if_splits)

lemma uround_units: "tiny \<le> uround" "32 * uround = 2 powi (-48)"
proof -
  show "tiny \<le> uround" unfolding tiny_def uround_def by (intro power_int_increasing) simp_all
  show "32 * uround = 2 powi (-48)" by (simp add: uround_def power_int_def power_divide)
qed

text \<open>The last two roundings: the quotient of edge and odds, and its product with the fraction.\<close>

lemma scaled_quotient:
  assumes "unit_float u" and "unit_float x" and "is_finite (odds x)" and "\<not> fle (kelly_edge u x) f64_zero"
    and "canonical c" and "is_finite c" and "0 < fval c" and "fval c \<le> 1"
    and "fval (kelly_edge u x) / fval (odds x) \<le> 2"
    and "\<bar>fval (kelly_edge u x) / fval (odds x) - f\<bar> \<le> 14 * uround"
  shows "is_finite (fmul (fdiv (kelly_edge u x) (odds x)) c)"
    and "\<bar>fval (fmul (fdiv (kelly_edge u x) (odds x)) c) - f * fval c\<bar> \<le> 2 powi (-48)"
proof -
  let ?q = "fdiv (kelly_edge u x) (odds x)" and ?r = "fval (kelly_edge u x) / fval (odds x)" and ?c = "fval c"
  have oc: "canonical (odds x)" "0 < fval (odds x)"
    using odds_facts(1,3) [OF assms(2)] assms(3) by (simp_all add: odds_def)
  note ef = edge_facts [OF assms(1-3)] and qf = quotient_facts [OF assms(1-4)]
  have u: "0 < uround" by (rule uround_bounds)
  have r0: "0 < ?r" using assms(4) ef(3) oc(2) by (simp add: fle_fval)
  have "\<bar>fval ?q - ?r\<bar> \<le> uround * \<bar>?r\<bar> + tiny"
    using ef oc assms(3) qf(2) by (intro approx_error fdiv_approx) simp_all
  moreover have "uround * \<bar>?r\<bar> \<le> uround * 2" using r0 assms(9) u by (intro mult_left_mono) simp_all
  ultimately have near: "\<bar>fval ?q - f\<bar> \<le> 17 * uround" using assms(10) uround_units(1) by linarith
  show fin: "is_finite (fmul ?q c)" using stake_fraction(1) [OF assms(1-3,5-7,4)] .
  have "\<bar>fval (fmul ?q c) - fval ?q * ?c\<bar> \<le> uround * \<bar>fval ?q * ?c\<bar> + tiny"
    using qf assms(5,6) fin by (intro approx_error fmul_approx)
  moreover have "uround * \<bar>fval ?q * ?c\<bar> \<le> uround * 1"
    using qf(3,4) assms(7,8) u by (intro mult_left_mono) (simp_all add: abs_mult mult_le_one)
  moreover have "\<bar>fval ?q * ?c - f * ?c\<bar> \<le> 17 * uround"
  proof -
    have "\<bar>fval ?q * ?c - f * ?c\<bar> = \<bar>fval ?q - f\<bar> * ?c"
      using assms(7) by (simp add: abs_mult flip: left_diff_distrib)
    also have "\<dots> \<le> (17 * uround) * 1" using near assms(7,8) u by (intro mult_mono) simp_all
    finally show ?thesis by simp
  qed
  ultimately show "\<bar>fval (fmul ?q c) - f * ?c\<bar> \<le> 2 powi (-48)" using uround_units u by linarith
qed

lemma stake_error:
  assumes "unit_float u" and "unit_float x" and "2 powi (-1022) \<le> fval x"
    and "canonical c" and "is_finite c" and "0 < fval c" and "fval c \<le> 1"
  shows "\<bar>num_value (stake u x c) - kelly_exact (fval u) (fval x) (fval c)\<bar> \<le> 2 powi (-48)"
proof -
  let ?E = "fval (kelly_edge u x)" and ?B = "fval (odds x)" and ?c = "fval c"
  define f where "f = (fval u - fval x) / (1 - fval x)"
  have fin: "is_finite (odds x)" using odds_facts(5) [OF assms(2,3)] by (simp add: odds_def)
  have oc: "canonical (odds x)" "0 < ?B" using odds_facts(1,3) [OF assms(2)] fin by (simp_all add: odds_def)
  note ef = edge_facts [OF assms(1,2) fin]
  have ux: "0 < fval u" "fval u < 1" "0 < fval x" "fval x < 1" using assms(1,2) by (auto simp: unit_float_def)
  have f1: "f \<le> 1" unfolding f_def using ux by (simp add: divide_le_eq_1)
  obtain g q y z t where sc: "\<bar>g - fval u\<bar> \<le> uround * fval u + t" "t \<le> uround"
    "\<bar>q - y\<bar> \<le> uround * y" "0 \<le> y" "\<bar>y - z\<bar> \<le> 4 * uround * y"
    "\<bar>?E / ?B - (g - q)\<bar> \<le> uround * \<bar>g - q\<bar>" "fval u - z = f"
    unfolding f_def by (rule edge_scaled [OF assms(1-3)])
  note arith = edge_arith [OF ux(1,2) sc(1-6), unfolded sc(7)]
  have u: "0 < uround" "tiny \<le> uround" "32 * uround = 2 powi (-48)"
    using uround_bounds(1) uround_units by blast+
  have exact: "kelly_exact (fval u) (fval x) ?c = ?c * max 0 f" by (simp add: kelly_exact_def f_def)
  show ?thesis
  proof (cases "fle (kelly_edge u x) f64_zero")
    case True
    then have "?E / ?B \<le> 0" using ef(3) oc(2) by (simp add: fle_fval divide_le_0_iff)
    then have "f \<le> 14 * uround" by (rule arith(3))
    then have "max 0 f \<le> 14 * uround" using u(1) by simp
    then have "?c * max 0 f \<le> 1 * (14 * uround)" using assms(6,7) by (intro mult_mono) simp_all
    moreover have "0 \<le> ?c * max 0 f" using assms(6) by simp
    ultimately show ?thesis using True u by (simp add: stake_def exact)
  next
    case False
    have E: "0 < ?E / ?B" using False ef(3) oc(2) by (simp add: fle_fval)
    have s: "is_finite (fmul (fdiv (kelly_edge u x) (odds x)) c)"
      "\<bar>fval (fmul (fdiv (kelly_edge u x) (odds x)) c) - f * ?c\<bar> \<le> 2 powi (-48)"
      using scaled_quotient [OF assms(1,2) fin False assms(4-7) arith(2,1) [OF E]] by simp_all
    have w: "?c * max 0 f = max 0 (f * ?c)" using assms(6) by (auto simp: max_def mult_le_0_iff zero_le_mult_iff)
    have "?c * max 0 f \<le> 1 * 1" using f1 assms(6,7) by (intro mult_mono) simp_all
    then show ?thesis
      unfolding exact using False clamp_near [OF s(1) _ _ s(2) w] assms(6) by (simp add: stake_def)
  qed
qed

text \<open>C14. The stake is the Kelly criterion: at every price that is not subnormal and for every
  probability and fraction, the float result of \<open>kelly_fraction\<close> is within \<open>2^-48\<close> of the exact
  \<open>c * max 0 ((p - x) / (1 - x))\<close>, whatever the six roundings and the clamp do.\<close>

theorem kelly_accurate:
  assumes "unit_float u" and "unit_float x" and "2 powi (-1022) \<le> fval x"
    and "num_ok cf" and "num_lt F0 cf" and "num_le cf F1"
  shows "\<exists>r. kelly_fraction (PyFloat u) (PyFloat x) cf = Inr r
    \<and> \<bar>num_value r - num_value cf * max 0 ((fval u - fval x) / (1 - fval x))\<bar> \<le> 2 powi (-48)"
proof -
  obtain c where c: "to_float cf = Inr c" "canonical c" "is_finite c" "0 < fval c" "fval c \<le> 1"
    "num_value cf = fval c"
    using fraction_float [OF assms(4-6)] by blast
  show ?thesis
    using kelly_unit [OF assms(1,2,5,6) c(1)] stake_error [OF assms(1-3) c(2-5)] c(6)
    by (simp add: kelly_exact_def)
qed

theorem kelly_accurate_witness:
  "\<exists>r. kelly_fraction (PyFloat (lit 3 5)) (PyFloat (lit 1 2)) F1 = Inr r
    \<and> \<bar>num_value r - num_value F1 * max 0 ((fval (lit 3 5) - fval (lit 1 2)) / (1 - fval (lit 1 2)))\<bar>
       \<le> 2 powi (-48)"
  by (rule kelly_accurate) (fact unit_samples)+

end
