(* ===== verification/SessionLaws.thy ===== *)
theory SessionLaws
  imports AuthorityLaws
begin

text \<open>
  Halts over a whole session: once the kill switch or the breaker has tripped, no evaluation of
  the session is approved, whatever else happens at the desk, until the reset (or the end of the
  cooldown).
\<close>

text \<open>The decisions (or exceptions) of the evaluations of a session, in order.\<close>

fun desk_decisions :: "desk_event list \<Rightarrow> authority \<Rightarrow> risk_decision res list" where
  "desk_decisions [] ra = []"
| "desk_decisions (e # es) ra =
     (case e of Evaluate env ctx ti \<Rightarrow> [sr_decision (evaluate_with_state env ra ctx ti [])] | _ \<Rightarrow> [])
       @ desk_decisions es (fst (desk_step e ra))"

fun is_approval :: "risk_decision res \<Rightarrow> bool" where
  "is_approval (Inr d) = approved d"
| "is_approval (Inl e) = False"

text \<open>A control that rejects ends the chain: nothing after it can approve.\<close>

lemma first_rejection_blocks:
  "Inr (Some c) \<in> set us \<Longrightarrow> \<not> is_approval (rbind r (conclude (first_rejection (us @ vs))))"
proof (induction us)
  case (Cons u us)
  then show ?case by (cases r; cases u) (auto simp: conclude_first split: option.splits)
qed simp

text \<open>A property of the authority that every event of the session keeps and under which some
  control rejects blocks the whole session.\<close>

lemma session_blocked:
  assumes "\<And>e ra. e \<in> set es \<Longrightarrow> P ra \<Longrightarrow> P (fst (desk_step e ra))"
    and "\<And>ra. P ra \<Longrightarrow> hands_off ra"
    and "\<And>ra env ctx ti. Evaluate env ctx ti \<in> set es \<Longrightarrow> P ra
      \<Longrightarrow> \<exists>c. Inr (Some c) \<in> set (control_verdicts ra (ti_current_time ti))"
    and "P ra"
  shows "P (fst (run_desk es ra)) \<and> (\<forall>r \<in> set (desk_decisions es ra). \<not> is_approval r)"
  using assms
proof (induction es arbitrary: ra)
  case (Cons e es)
  have next_step: "P (fst (desk_step e ra))" using Cons.prems(1,4) by simp
  have rest: "P (fst (run_desk es (fst (desk_step e ra))))
      \<and> (\<forall>r \<in> set (desk_decisions es (fst (desk_step e ra))). \<not> is_approval r)"
  proof (rule Cons.IH)
    show "P (fst (desk_step x r))" if "x \<in> set es" "P r" for x r
      by (rule Cons.prems(1)) (use that in simp_all)
    show "hands_off r" if "P r" for r using that by (rule Cons.prems(2))
    show "\<exists>c. Inr (Some c) \<in> set (control_verdicts r (ti_current_time ti))"
      if "Evaluate env ctx ti \<in> set es" "P r" for r env ctx ti
      by (rule Cons.prems(3) [of env ctx]) (use that in simp_all)
  qed (rule next_step)
  have "\<not> is_approval (sr_decision (evaluate_with_state env ra ctx ti []))"
    if "e = Evaluate env ctx ti" for env ctx ti
    using Cons.prems(2) [OF Cons.prems(4)] Cons.prems(3) [of env ctx ti ra] Cons.prems(4) that
      first_rejection_blocks by (auto simp: evaluate_with_state_chain)
  then show ?case using rest by (cases e) (auto simp: case_prod_beta Let_def)
qed simp

lemma hands_off_keeps:
  "hands_off (fst (maybe_fire_trip ra d)) = hands_off ra"
  by (auto simp: maybe_fire_trip_def hands_off_def split: option.splits)

section \<open>The breaker\<close>

lemma maybe_fire_trip_breaker [simp]:
  "ra_timed_breaker (fst (maybe_fire_trip ra d)) = ra_timed_breaker ra"
  by (simp add: maybe_fire_trip_def split: option.splits)

lemma tripped_breaker_verdict:
  assumes "tb_tripped tb" and "tb_tripped_at tb = Some t0"
    and "timedelta_hours (tb_cooldown_hours tb) = Inr cool" and "too_early t0 cool (TbCheck now)"
  shows "\<exists>c. \<forall>d. tb_check tb d now = (g_reject c d, tb)"
proof (cases now)
  case None
  then show ?thesis using assms(1) tb_check_tripped(3) [OF assms(1,2)] by (auto simp: tb_still_def)
next
  case (Some t)
  show ?thesis
  proof (cases "timezone_mode t = timezone_mode t0")
    case True
    then obtain age where "dt_sub t t0 = Inr age" using same_mode_sub by blast
    then show ?thesis
      using Some True assms tb_check_tripped(2) [OF assms(1,2) True] by (auto simp: tb_still_def)
  qed (use Some tb_check_tripped(1) [OF assms(1,2)] in auto)
qed

text \<open>What may happen at the desk during the cooldown: anything but a reset of the breaker, with
  evaluations too early.\<close>

fun in_cooldown :: "pydatetime \<Rightarrow> int \<Rightarrow> desk_event \<Rightarrow> bool" where
  "in_cooldown t0 cool BreakerReset = False"
| "in_cooldown t0 cool (Evaluate env ctx ti) = too_early t0 cool (TbCheck (ti_current_time ti))"
| "in_cooldown t0 cool e = True"

lemma cooldown_step:
  assumes "tb_tripped tb" and "tb_tripped_at tb = Some t0"
    and "timedelta_hours (tb_cooldown_hours tb) = Inr cool" and "in_cooldown t0 cool e"
    and "ra_timed_breaker ra = Some tb \<and> hands_off ra"
  shows "ra_timed_breaker (fst (desk_step e ra)) = Some tb \<and> hands_off (fst (desk_step e ra))"
proof (cases e)
  case (Evaluate env ctx ti)
  then have early: "too_early t0 cool (TbCheck (ti_current_time ti))" using assms(4) by simp
  have stays: "snd (tb_check tb d (ti_current_time ti)) = tb" for d
    using tripped_breaker_verdict [OF assms(1-3) early] by (metis snd_conv)
  show ?thesis
    unfolding Evaluate desk_step.simps fst_conv
    by (rule evaluate_with_state_keeps [where P = "\<lambda>r. ra_timed_breaker r = Some tb \<and> hands_off r"])
      (use assms(5) stays in \<open>auto simp: hands_off_keeps\<close>)
qed (use assms in \<open>auto simp: record_resolved_trade_def tb_record_tripped hands_off_def\<close>)

text \<open>C6. Once the breaker has tripped at \<open>t0\<close>, the desk is halted until the cooldown has passed:
  whatever is recorded, tripped, reset elsewhere or evaluated in between, no evaluation made
  earlier than the cooldown after \<open>t0\<close> (or without a time, or in the other timezone mode) is
  approved, and the breaker is exactly as it was when it tripped.\<close>

theorem breaker_halts_session:
  assumes "hands_off ra" and "ra_timed_breaker ra = Some tb" and "tb_tripped tb"
    and "tb_tripped_at tb = Some t0" and "timedelta_hours (tb_cooldown_hours tb) = Inr cool"
    and "\<forall>e \<in> set es. in_cooldown t0 cool e"
  shows "ra_timed_breaker (fst (run_desk es ra)) = Some tb
    \<and> (\<forall>r \<in> set (desk_decisions es ra). \<not> is_approval r)"
proof -
  have blocks: "\<exists>c. Inr (Some c) \<in> set (control_verdicts r (ti_current_time ti))"
    if "Evaluate env ctx ti \<in> set es" "ra_timed_breaker r = Some tb \<and> hands_off r" for r env ctx ti
  proof -
    have "too_early t0 cool (TbCheck (ti_current_time ti))" using assms(6) that(1) by auto
    then obtain c where "\<forall>d. tb_check tb d (ti_current_time ti) = (g_reject c d, tb)"
      using tripped_breaker_verdict assms(3-5) by blast
    then have "control_verdict tb_check (ra_timed_breaker r) (ti_current_time ti) = Inr (Some c)"
      using that(2) by (simp add: control_verdict_def verdict_of_def g_reject_def)
    then show ?thesis by (auto simp: control_verdicts_def)
  qed
  show ?thesis
    using session_blocked [where P = "\<lambda>r. ra_timed_breaker r = Some tb \<and> hands_off r", of es ra]
      cooldown_step [OF assms(3-5)] blocks assms(1,2,6) by blast
qed

theorem breaker_halts_session_witness:
  "let tb = \<lparr>tb_threshold = 3, tb_cooldown_hours = lit 24 1, tb_loss_streak = 3,
         tb_tripped_at = Some \<lparr>dt_wall = 0, dt_tz = None\<rparr>, tb_tripped = True\<rparr>;
       later = sample_inputs\<lparr>ti_current_time := Some \<lparr>dt_wall = 3600000000, dt_tz = None\<rparr>\<rparr>;
       es = [Resolved (PyFloat (lit 9 1)) None, Evaluate sample_env default_context later]
   in list_all (\<lambda>r. \<not> is_approval r) (desk_decisions es (RiskAuthority_new None (Some tb) None None))"
proof -
  let ?tb = "\<lparr>tb_threshold = 3, tb_cooldown_hours = lit 24 1, tb_loss_streak = 3,
         tb_tripped_at = Some \<lparr>dt_wall = 0, dt_tz = None\<rparr>, tb_tripped = True\<rparr>"
  let ?es = "[Resolved (PyFloat (lit 9 1)) None, Evaluate sample_env default_context
     (sample_inputs\<lparr>ti_current_time := Some \<lparr>dt_wall = 3600000000, dt_tz = None\<rparr>\<rparr>)]"
  let ?ra = "RiskAuthority_new None (Some ?tb) None None"
  have cool: "timedelta_hours (tb_cooldown_hours ?tb) = Inr 86400000000" by code_simp
  have ra: "hands_off ?ra" "ra_timed_breaker ?ra = Some ?tb"
    and tb: "tb_tripped ?tb" "tb_tripped_at ?tb = Some \<lparr>dt_wall = 0, dt_tz = None\<rparr>"
    by (simp_all add: RiskAuthority_new_def hands_off_def)
  have "\<forall>e \<in> set ?es. in_cooldown \<lparr>dt_wall = 0, dt_tz = None\<rparr> 86400000000 e"
    by (simp add: timezone_mode_def is_aware_def dt_sub_def)
  from breaker_halts_session [OF ra tb cool this] show ?thesis
    unfolding Let_def list_all_iff by (rule conjunct2)
qed

section \<open>The kill switch\<close>

lemma maybe_fire_trip_switch [simp]:
  "ra_kill_switch (fst (maybe_fire_trip ra d)) = ra_kill_switch ra"
  by (simp add: maybe_fire_trip_def split: option.splits)

lemma halted_step:
  assumes "ks_tripped ks" and "e \<noteq> KillReset" and "ra_kill_switch ra = Some ks \<and> hands_off ra"
  shows "ra_kill_switch (fst (desk_step e ra)) = Some ks \<and> hands_off (fst (desk_step e ra))"
proof (cases e)
  case (Evaluate env ctx ti)
  show ?thesis
    unfolding Evaluate desk_step.simps fst_conv
    by (rule evaluate_with_state_keeps [where P = "\<lambda>r. ra_kill_switch r = Some ks \<and> hands_off r"])
      (use assms(3) in \<open>auto simp: hands_off_keeps ks_check_def\<close>)
qed (use assms in \<open>auto simp: record_resolved_trade_def ks_trip_def hands_off_def\<close>)

text \<open>C7. Once the kill switch is tripped no evaluation of the session is approved until it is
  reset, and the switch keeps the time and the reason of the first trip.\<close>

theorem kill_switch_halts_session:
  assumes "hands_off ra" and "ra_kill_switch ra = Some ks" and "ks_tripped ks"
    and "KillReset \<notin> set es"
  shows "ra_kill_switch (fst (run_desk es ra)) = Some ks
    \<and> (\<forall>r \<in> set (desk_decisions es ra). \<not> is_approval r)"
proof -
  have blocks: "\<exists>c. Inr (Some c) \<in> set (control_verdicts r now)"
    if "ra_kill_switch r = Some ks \<and> hands_off r" for r now
    using that assms(3)
    by (auto simp: control_verdicts_def control_verdict_def ks_check_def verdict_of_def g_reject_def)
  have "ra_kill_switch (fst (run_desk es ra)) = Some ks \<and> hands_off (fst (run_desk es ra))
      \<and> (\<forall>r \<in> set (desk_decisions es ra). \<not> is_approval r)"
  proof (rule session_blocked [where P = "\<lambda>r. ra_kill_switch r = Some ks \<and> hands_off r",
        simplified conj_assoc])
    show "ra_kill_switch (fst (desk_step e r)) = Some ks \<and> hands_off (fst (desk_step e r))"
      if "e \<in> set es" "ra_kill_switch r = Some ks \<and> hands_off r" for e r
      by (rule halted_step [OF assms(3) _ that(2)]) (use that(1) assms(4) in auto)
  qed (use blocks assms(1,2) in auto)
  then show ?thesis by blast
qed

theorem kill_switch_halts_session_witness:
  "list_all (\<lambda>r. \<not> is_approval r)
     (desk_decisions [KillTrip None, Evaluate sample_env default_context sample_inputs] halted_desk)"
proof -
  have ks: "ra_kill_switch halted_desk = Some (ks_trip None (KillSwitch_new ''ERR_KILL_SWITCH''))"
    "ks_tripped (ks_trip None (KillSwitch_new ''ERR_KILL_SWITCH''))"
    by (simp_all add: halted_desk_def RiskAuthority_new_def ks_trip_def KillSwitch_new_def)
  show ?thesis
    unfolding list_all_iff
    by (rule kill_switch_halts_session [OF halted_desk_hands_off ks, THEN conjunct2]) simp
qed

end
