(* ===== verification/Persistence.thy ===== *)
theory Persistence
  imports SessionLaws RiskState
begin

text \<open>
  Stopping and restarting a desk: the snapshot is written as JSON, read back strictly, and turned
  into an authority. The JSON codec is a parameter; the encodings of the members of the state are
  too.
\<close>

section \<open>Writing the state\<close>

definition opt_json :: "('a \<Rightarrow> json) \<Rightarrow> 'a option \<Rightarrow> json" where
  "opt_json f v = (case v of None \<Rightarrow> JNull | Some x \<Rightarrow> f x)"

text \<open>The object the codec writes for a state: one member per field of the struct.\<close>

definition state_object ::
    "(risk_context \<Rightarrow> json) \<Rightarrow> (kill_switch_state \<Rightarrow> json) \<Rightarrow> (timed_breaker_state \<Rightarrow> json)
      \<Rightarrow> (loss_gate_state \<Rightarrow> json) \<Rightarrow> risk_state \<Rightarrow> json" where
  "state_object ctx_json ks_json tb_json lg_json st = JObj
     [(''schema_version'', JInt (schema_version st)), (''context'', ctx_json (context_of st)),
      (''kill_switch'', opt_json ks_json (kill_switch_of st)),
      (''timed_breaker'', opt_json tb_json (timed_breaker_of st)),
      (''consecutive_loss_gate'', opt_json lg_json (loss_gate_of st))]"

definition RiskState_to_json :: "(json \<Rightarrow> string + 'p) \<Rightarrow> (risk_state \<Rightarrow> json) \<Rightarrow> risk_state \<Rightarrow> string + 'p" where
  "RiskState_to_json encode object_of st = encode (object_of st)"

text \<open>What is written is accepted by the strict reader, if the codec reads it back.\<close>

lemma state_round_trip:
  assumes "schema_version st = RISK_STATE_SCHEMA_VERSION"
    and "RiskState_to_json encode (state_object cx ks tb lg) st = Inr p"
    and "decode p = Inr (state_object cx ks tb lg st)" and "decode_as p = Inr st"
  shows "RiskState_from_json decode encode decode_as p = Inr st"
  using assms(2-4)
  by (intro from_json_accepts)
    (auto simp: assms(1) state_object_def allowed_keys_def RiskState_to_json_def)

section \<open>Authorities with the same controls\<close>

definition same_controls :: "authority \<Rightarrow> authority \<Rightarrow> bool" where
  "same_controls a b \<longleftrightarrow> ra_kill_switch a = ra_kill_switch b \<and> ra_timed_breaker a = ra_timed_breaker b
     \<and> ra_loss_gate a = ra_loss_gate b \<and> hands_off a \<and> hands_off b"

text \<open>A step that cannot tell two such authorities apart, and leaves them so.\<close>

definition same_step :: "(risk_decision \<Rightarrow> authority \<Rightarrow> trace_log \<Rightarrow> stateful_result) \<Rightarrow> bool" where
  "same_step k \<longleftrightarrow> (\<forall>d a b tr. same_controls a b \<longrightarrow>
     sr_decision (k d a tr) = sr_decision (k d b tr)
     \<and> same_controls (sr_authority (k d a tr)) (sr_authority (k d b tr)))"

lemma same_stepD:
  assumes "same_step k" and "same_controls a b"
  shows "sr_decision (k d a tr) = sr_decision (k d b tr)"
    and "same_controls (sr_authority (k d a tr)) (sr_authority (k d b tr))"
  using assms by (simp_all add: same_step_def)

lemma fire_same_controls:
  assumes "same_controls a b"
  shows "fst (snd (maybe_fire_trip a d)) = d" "fst (snd (maybe_fire_trip b d)) = d"
    "same_controls (fst (maybe_fire_trip a d)) (fst (maybe_fire_trip b d))"
proof -
  have gate: "ra_loss_gate (fst (maybe_fire_trip r d)) = ra_loss_gate r" for r
    by (simp add: maybe_fire_trip_def split: option.splits)
  show "fst (snd (maybe_fire_trip a d)) = d" "fst (snd (maybe_fire_trip b d)) = d"
    "same_controls (fst (maybe_fire_trip a d)) (fst (maybe_fire_trip b d))"
    using assms by (simp_all add: same_controls_def fire_hands_off hands_off_keeps gate)
qed

lemma same_step_control:
  assumes "same_step k" and "\<And>a b. same_controls a b \<Longrightarrow> get a = get b"
    and "\<And>c a b. same_controls a b \<Longrightarrow> same_controls (put c a) (put c b)"
  shows "same_step (control_or_return check get put now k)"
  unfolding same_step_def
proof (intro allI impI)
  fix d a b tr
  assume ab: "same_controls a b"
  let ?c = "control_or_return check get put now k"
  show "sr_decision (?c d a tr) = sr_decision (?c d b tr)
      \<and> same_controls (sr_authority (?c d a tr)) (sr_authority (?c d b tr))"
  proof (cases "get b")
    case None
    then show ?thesis
      using assms(2) [OF ab] same_stepD [OF assms(1) ab] by (simp add: control_or_return_def)
  next
    case (Some c)
    note same = assms(2) [OF ab] Some
    note new = assms(3) [OF ab]
    show ?thesis
      using new fire_same_controls [OF new] same_stepD [OF assms(1) new]
      by (auto simp: control_or_return_def same case_prod_beta split: sum.splits bool.splits)
  qed
qed

lemma evaluate_same_controls:
  assumes "same_controls a b"
  shows "sr_decision (evaluate_with_state env a ctx ti tr) = sr_decision (evaluate_with_state env b ctx ti tr)"
    and "same_controls (sr_authority (evaluate_with_state env a ctx ti tr))
      (sr_authority (evaluate_with_state env b ctx ti tr))"
proof -
  have gates: "same_step (\<lambda>d ra tr. case evaluate_stateless env ctx ti tr of (r, tr') \<Rightarrow>
      \<lparr>sr_decision = r, sr_log = tr', sr_authority = ra, sr_calls = []\<rparr>)"
    by (simp add: same_step_def case_prod_beta)
  note chain = same_step_control [OF same_step_control [OF same_step_control [OF gates]],
      of ra_loss_gate "\<lambda>g r. r\<lparr>ra_loss_gate := Some g\<rparr>"
        ra_timed_breaker "\<lambda>b r. r\<lparr>ra_timed_breaker := Some b\<rparr>"
        ra_kill_switch "\<lambda>k r. r\<lparr>ra_kill_switch := Some k\<rparr>"]
  have "same_step (control_or_return ks_check ra_kill_switch (\<lambda>k r. r\<lparr>ra_kill_switch := Some k\<rparr>) now
       (control_or_return tb_check ra_timed_breaker (\<lambda>b r. r\<lparr>ra_timed_breaker := Some b\<rparr>) now
       (control_or_return lg_check ra_loss_gate (\<lambda>g r. r\<lparr>ra_loss_gate := Some g\<rparr>) now
       (\<lambda>d ra tr. case evaluate_stateless env ctx ti tr of (r, tr') \<Rightarrow>
          \<lparr>sr_decision = r, sr_log = tr', sr_authority = ra, sr_calls = []\<rparr>))))" for now
    by (rule chain) (auto simp: same_controls_def hands_off_def)
  from same_stepD [OF this assms]
  show "sr_decision (evaluate_with_state env a ctx ti tr) = sr_decision (evaluate_with_state env b ctx ti tr)"
    "same_controls (sr_authority (evaluate_with_state env a ctx ti tr))
      (sr_authority (evaluate_with_state env b ctx ti tr))"
    using assms by (simp_all add: evaluate_with_state_def split: sum.splits)
qed

lemma desk_step_same: "same_controls a b \<Longrightarrow> same_controls (fst (desk_step e a)) (fst (desk_step e b))"
  by (cases e)
    (auto simp: evaluate_same_controls(2), auto simp: same_controls_def hands_off_def record_resolved_trade_def)

lemma decisions_same: "same_controls a b \<Longrightarrow> desk_decisions es a = desk_decisions es b"
proof (induction es arbitrary: a b)
  case (Cons e es)
  then show ?case
    using desk_step_same [OF Cons.prems, of e] evaluate_same_controls(1) [OF Cons.prems]
    by (simp split: desk_event.splits)
qed simp

section \<open>Restarting\<close>

text \<open>C15. A restart through the file is transparent for the rest of the session: what
  \<open>snapshot_state\<close> took at any moment, \<open>to_json\<close> wrote and the strict \<open>from_json\<close> and \<open>from_state\<close> read
  back is an authority that makes every further decision, over any sequence of results, trips,
  resets and evaluations, as the one that was stopped, if the codec reads back what it wrote and
  neither callback edits decisions.\<close>

theorem persisted_restart:
  assumes "authority_inv ra" and "hands_off ra" and "\<forall>f d. cb = Some f \<longrightarrow> fst (f d) = d"
    and "snapshot_state ra policy = Inr st"
    and "RiskState_to_json encode (state_object cx ks tb lg) st = Inr p"
    and "decode p = Inr (state_object cx ks tb lg st)" and "decode_as p = Inr st"
  shows "\<exists>ra'. rbind (RiskState_from_json decode encode decode_as p) (\<lambda>st. authority_from_state st cb) = Inr ra'
    \<and> (\<forall>es. desk_decisions es ra' = desk_decisions es ra)"
proof -
  have version: "schema_version st = RISK_STATE_SCHEMA_VERSION"
    using assms(4) by (auto simp: snapshot_state_def RiskState_new_def rbind_eq_Inr rguard_eq_Inr)
  let ?ra = "ra\<lparr>ra_on_trip := cb, ra_last_trip_reason := None\<rparr>"
  have restored: "authority_from_state st cb = Inr ?ra"
    using snapshot_restores [OF assms(1), of policy cb] assms(4) by auto
  have "same_controls ?ra ra" using assms(2,3) by (simp add: same_controls_def hands_off_def)
  then have "desk_decisions es ?ra = desk_decisions es ra" for es by (rule decisions_same)
  moreover have "RiskState_from_json decode encode decode_as p = Inr st"
    using version assms(5-7) by (rule state_round_trip)
  ultimately show ?thesis using restored by simp
qed

theorem persisted_restart_witness:
  "\<exists>st. snapshot_state halted_desk default_context = Inr st
     \<and> (\<exists>ra'. rbind (RiskState_from_json Inr Inr (\<lambda>_. Inr st)
            (state_object (\<lambda>_. JNull) (\<lambda>s. JBool (kss_tripped s)) (\<lambda>s. JBool (tbs_tripped s))
               (\<lambda>s. JList []) st)) (\<lambda>st. authority_from_state st None) = Inr ra'
          \<and> (\<forall>es. desk_decisions es ra' = desk_decisions es halted_desk))"
proof -
  obtain st where st: "snapshot_state halted_desk default_context = Inr st"
    using snapshot_restores [OF halted_desk_inv(1)] by blast
  show ?thesis
    by (rule exI [of _ st], rule conjI [OF st], rule persisted_restart [OF halted_desk_inv(1,2) _ st])
      (simp_all add: RiskState_to_json_def)
qed

end
