(* ===== verification/Webhook.thy ===== *)
theory Webhook
  imports Engine
begin

text \<open>
  \<open>webhook.py\<close> and \<open>execution.py\<close>: the emitter that posts a risk event with retries, and the
  paper adapter that never places an order. The HTTP client is a parameter: what posting
  attempt \<open>k\<close> comes to (an exception, or a response with its status), and whether
  \<open>raise_for_status\<close> raises for a status. The validated event and its JSON dump are
  \<open>pydantic\<close>'s; the emitter reads two of its fields.
\<close>

section \<open>Events\<close>

record proposed_trade_info =
  pt_target_family :: string
  pt_proposed_cost :: f64
  pt_expected_value :: f64

record risk_event =
  re_timestamp :: pydatetime
  re_decision_approved :: bool
  re_reason_code :: string
  re_suggested_size :: f64
  re_proposed_trade :: proposed_trade_info

section \<open>WebhookEmitter\<close>

record emitter =
  em_endpoint_url :: string
  em_own_client :: bool
  em_max_attempts :: int
  em_timeout_seconds :: pynum
  em_retry_delay_seconds :: pynum

definition WebhookEmitter_new :: "string \<Rightarrow> bool \<Rightarrow> int \<Rightarrow> pynum \<Rightarrow> pynum \<Rightarrow> emitter res" where
  "WebhookEmitter_new url own_client max_attempts timeout delay =
     rguard (max_attempts < 1) (ValueError ''max_attempts must be >= 1'')
    (rguard (num_le timeout (PyInt 0)) (ValueError ''timeout_seconds must be > 0'')
    (rguard (num_lt delay (PyInt 0)) (ValueError ''retry_delay_seconds must be >= 0'')
      (Inr \<lparr>em_endpoint_url = url, em_own_client = own_client, em_max_attempts = max_attempts,
            em_timeout_seconds = timeout, em_retry_delay_seconds = delay\<rparr>)))"

text \<open>What an emission does, in order. \<open>Post\<close> names the attempt, the URL, the timeout and whether
  the emitter's own client is used or a temporary one.\<close>

datatype hook_attr = HStr string | HBool bool | HInt int

datatype hook_event =
    Post int string pynum bool
  | SpanAttr string hook_attr
  | RecordException string
  | LogError int string
  | SleepFor pynum

definition post_once ::
    "emitter \<Rightarrow> (int \<Rightarrow> string + int) \<Rightarrow> int \<Rightarrow> (string + int) \<times> hook_event" where
  "post_once em post k =
     (post k, Post k (em_endpoint_url em) (em_timeout_seconds em) (em_own_client em))"

text \<open>The \<open>try\<close> block: the exception's text, or the status code.\<close>

definition try_attempt ::
    "emitter \<Rightarrow> (int \<Rightarrow> string + int) \<Rightarrow> (int \<Rightarrow> string option) \<Rightarrow> int
      \<Rightarrow> (string + int) \<times> hook_event" where
  "try_attempt em post status_error k =
     (case post_once em post k of
        (Inl exc, ev) \<Rightarrow> (Inl exc, ev)
      | (Inr status, ev) \<Rightarrow>
          (case status_error status of Some exc \<Rightarrow> (Inl exc, ev) | None \<Rightarrow> (Inr status, ev)))"

fun emit_loop ::
    "emitter \<Rightarrow> (int \<Rightarrow> string + int) \<Rightarrow> (int \<Rightarrow> string option) \<Rightarrow> int list
      \<Rightarrow> bool \<times> hook_event list" where
  "emit_loop em post status_error [] = (False, [])"
| "emit_loop em post status_error (k # ks) =
     (case try_attempt em post status_error k of
        (Inr status, ev) \<Rightarrow>
          (True, [ev, SpanAttr ''webhook.status_code'' (HInt status),
             SpanAttr ''webhook.attempts'' (HInt k), SpanAttr ''webhook.success'' (HBool True)])
      | (Inl exc, ev) \<Rightarrow>
          (let failed = [ev, LogError k exc, RecordException exc,
                 SpanAttr ''webhook.attempts'' (HInt k)]
           in if em_max_attempts em \<le> k
              then (False, failed @ [SpanAttr ''webhook.success'' (HBool False)])
              else (case emit_loop em post status_error ks of (r, evs) \<Rightarrow>
                     (r, failed
                        @ (if num_lt (PyInt 0) (em_retry_delay_seconds em)
                           then [SleepFor (em_retry_delay_seconds em)] else [])
                        @ evs))))"

definition emit ::
    "emitter \<Rightarrow> (int \<Rightarrow> string + int) \<Rightarrow> (int \<Rightarrow> string option) \<Rightarrow> risk_event
      \<Rightarrow> bool \<times> hook_event list" where
  "emit em post status_error ev =
     (case emit_loop em post status_error [1..em_max_attempts em] of (r, evs) \<Rightarrow>
        (r, [SpanAttr ''webhook.url'' (HStr (em_endpoint_url em)),
             SpanAttr ''webhook.event.approved'' (HBool (re_decision_approved ev)),
             SpanAttr ''webhook.event.reason_code'' (HStr (re_reason_code ev))] @ evs))"

section \<open>PaperExecutionAdapter\<close>

definition handle_alert :: "risk_event \<Rightarrow> unit res" where
  "handle_alert ev = Inr ()"

definition submit_order :: "pyval list \<Rightarrow> (string \<times> pyval) list \<Rightarrow> pyval res" where
  "submit_order args kwargs =
     Inl (RuntimeError ''Live order placement is disabled in the paper execution adapter'')"

section \<open>Delivery\<close>

definition delivered :: "(int \<Rightarrow> string + int) \<Rightarrow> (int \<Rightarrow> string option) \<Rightarrow> int \<Rightarrow> bool" where
  "delivered post status_error k \<longleftrightarrow> (\<exists>s. post k = Inr s \<and> status_error s = None)"

fun posts :: "hook_event list \<Rightarrow> int list" where
  "posts [] = []"
| "posts (Post k url t own # es) = k # posts es"
| "posts (e # es) = posts es"

text \<open>The last value of the success attribute.\<close>

fun success_attr :: "hook_event list \<Rightarrow> hook_attr option" where
  "success_attr [] = None"
| "success_attr (SpanAttr k v # es) =
     (case success_attr es of Some w \<Rightarrow> Some w
      | None \<Rightarrow> if k = ''webhook.success'' then Some v else None)"
| "success_attr (e # es) = success_attr es"

lemma posts_append [simp]: "posts (es @ fs) = posts es @ posts fs"
  by (induction es rule: posts.induct) simp_all

lemma success_attr_append:
  "success_attr (es @ fs) = (case success_attr fs of Some w \<Rightarrow> Some w | None \<Rightarrow> success_attr es)"
  by (induction es rule: success_attr.induct) (auto split: option.splits)

text \<open>The attempts that are made of a list of numbers: up to the first that is delivered.\<close>

fun tried :: "(int \<Rightarrow> bool) \<Rightarrow> int list \<Rightarrow> int list" where
  "tried ok [] = []"
| "tried ok (k # ks) = (if ok k then [k] else k # tried ok ks)"

lemma emit_loop_from:
  assumes "k \<le> em_max_attempts em"
  shows "fst (emit_loop em post err [k..em_max_attempts em])
        = (\<exists>j \<in> {k..em_max_attempts em}. delivered post err j)
    \<and> posts (snd (emit_loop em post err [k..em_max_attempts em]))
        = tried (delivered post err) [k..em_max_attempts em]
    \<and> success_attr (snd (emit_loop em post err [k..em_max_attempts em]))
        = Some (HBool (\<exists>j \<in> {k..em_max_attempts em}. delivered post err j))"
  using assms
proof (induction "nat (em_max_attempts em - k)" arbitrary: k)
  case 0
  then have k: "k = em_max_attempts em" by simp
  show ?case
    by (auto simp: k try_attempt_def post_once_def delivered_def split: sum.splits option.splits)
next
  case (Suc n)
  then have lt: "k < em_max_attempts em" by linarith
  then have rng: "[k..em_max_attempts em] = k # [k + 1..em_max_attempts em]" by (simp add: upto_rec1)
  have set: "{k..em_max_attempts em} = insert k {k + 1..em_max_attempts em}" using lt by auto
  note IH = Suc.hyps(1) [of "k + 1"]
  have IH': "fst (emit_loop em post err [k + 1..em_max_attempts em])
        = (\<exists>j \<in> {k + 1..em_max_attempts em}. delivered post err j)"
    "posts (snd (emit_loop em post err [k + 1..em_max_attempts em]))
        = tried (delivered post err) [k + 1..em_max_attempts em]"
    "success_attr (snd (emit_loop em post err [k + 1..em_max_attempts em]))
        = Some (HBool (\<exists>j \<in> {k + 1..em_max_attempts em}. delivered post err j))"
    using IH Suc.hyps(2) lt by auto
  show ?case
  proof (cases "delivered post err k")
    case True
    then show ?thesis
      unfolding rng set by (auto simp: try_attempt_def post_once_def delivered_def)
  next
    case False
    then have "\<exists>exc. try_attempt em post err k
        = (Inl exc, Post k (em_endpoint_url em) (em_timeout_seconds em) (em_own_client em))"
      by (cases "post k") (auto simp: try_attempt_def post_once_def delivered_def)
    then obtain exc where exc: "try_attempt em post err k
        = (Inl exc, Post k (em_endpoint_url em) (em_timeout_seconds em) (em_own_client em))" ..
    show ?thesis
      unfolding rng set using False exc lt IH'
      by (auto simp: case_prod_beta Let_def success_attr_append)
  qed
qed

text \<open>C38. An emission posts attempts \<open>1, 2, ...\<close> up to the first that is delivered and never more than
  \<open>max_attempts\<close>; it returns \<open>True\<close> exactly when one of them is delivered (no exception from the
  client and none from \<open>raise_for_status\<close>), and the span's success attribute says the same.\<close>

theorem emit_delivers:
  assumes "WebhookEmitter_new url own n timeout delay = Inr em"
  shows "fst (emit em post err ev) = (\<exists>k \<in> {1..n}. delivered post err k)
    \<and> posts (snd (emit em post err ev)) = tried (delivered post err) [1..n]
    \<and> success_attr (snd (emit em post err ev)) = Some (HBool (fst (emit em post err ev)))"
proof -
  have n: "1 \<le> n" "em_max_attempts em = n"
    using assms by (auto simp: WebhookEmitter_new_def rguard_eq_Inr)
  show ?thesis
    using emit_loop_from [of 1 em post err] n
    by (auto simp: emit_def case_prod_beta split: option.splits)
qed

theorem emit_delivers_witness:
  "\<exists>em. WebhookEmitter_new ''http://desk/hook'' False 3 (PyInt 5) (PyInt 0) = Inr em
     \<and> (\<forall>ev. posts (snd (emit em (\<lambda>k. if k < 2 then Inl ''timeout'' else Inr 200) (\<lambda>s. None) ev))
           = [1, 2])"
proof -
  let ?post = "\<lambda>k. if k < 2 then Inl ''timeout'' else Inr (200 :: int)"
  let ?em = "\<lparr>em_endpoint_url = ''http://desk/hook'', em_own_client = False, em_max_attempts = 3,
      em_timeout_seconds = PyInt 5, em_retry_delay_seconds = PyInt 0\<rparr>"
  have new: "WebhookEmitter_new ''http://desk/hook'' False 3 (PyInt 5) (PyInt 0) = Inr ?em"
    by code_simp
  have "tried (delivered ?post (\<lambda>s. None)) [1..3] = [1, 2]"
    by (simp add: upto_rec1 delivered_def)
  then show ?thesis using emit_delivers [OF new, of ?post "\<lambda>s. None"] new by auto
qed

end
