(* ===== verification/Benchmark.thy ===== *)
theory Benchmark
  imports EngineLaws Kelly Digest
begin

text \<open>
  \<open>benchmark.py\<close>: the percentile report of a sorted sample and the loop that takes the sample.
  The readings of the clock are a parameter.
\<close>

section \<open>Floats to integers and means\<close>

text \<open>\<open>math.ceil\<close>\<close>

fun math_ceil :: "f64 \<Rightarrow> int res" where
  "math_ceil NaN = Inl (ValueError ''cannot convert float NaN to integer'')"
| "math_ceil (Inf s) = Inl (OverflowError ''cannot convert float infinity to integer'')"
| "math_ceil (Fin s m e) = Inr (- ((- (sgn_int s m * 2 ^ nat e)) div 2 ^ nat (- e)))"

text \<open>\<open>statistics.fmean\<close> of integers: each converted to a float, the floats summed exactly and
  rounded once (\<open>math.fsum\<close>), the sum divided by the count. The converted values are integral.\<close>

fun integral_value :: "f64 \<Rightarrow> int" where
  "integral_value (Fin s m e) = sgn_int s m * 2 ^ nat e div 2 ^ nat (- e)"
| "integral_value _ = 0"

fun floats_of :: "int list \<Rightarrow> f64 list res" where
  "floats_of [] = Inr []"
| "floats_of (n # ns) = rbind (to_float (PyInt n)) (\<lambda>x. rbind (floats_of ns) (\<lambda>xs. Inr (x # xs)))"

definition fmean :: "int list \<Rightarrow> pynum res" where
  "fmean ns =
     rbind (floats_of ns) (\<lambda>xs.
     rbind (case f64_of_int (sum_list (map integral_value xs)) of
              Inf s \<Rightarrow> Inl (OverflowError ''intermediate overflow in fsum'')
            | tot \<Rightarrow> Inr tot) (\<lambda>tot.
       num_div (PyFloat tot) (PyInt (int (length ns)))))"

section \<open>BenchmarkReport\<close>

record benchmark_report =
  br_iterations :: int
  br_warmup_iterations :: int
  br_samples_ns :: "int list"
  br_p50_ns :: int
  br_p95_ns :: int
  br_p99_ns :: int
  br_min_ns :: int
  br_max_ns :: int
  br_mean_ns :: pynum
  br_caveats :: "string list"

definition DEFAULT_CAVEATS :: "string list" where
  "DEFAULT_CAVEATS =
     [''Python timing includes interpreter, allocation, and tracing overhead, so it is not directly comparable to native systems.'',
      ''Do not compare these numbers to Rust/C benchmarks without matching hardware, workload shape, and observability settings.'',
      ''Percentiles are reproducible for a fixed sample set, but live perf_counter measurements naturally vary run to run.'']"

text \<open>\<open>samples[i]\<close> for a non-negative index.\<close>

definition index_ns :: "int list \<Rightarrow> int \<Rightarrow> int res" where
  "index_ns xs i =
     (if i < int (length xs) then Inr (xs ! nat i) else Inl (IndexError ''tuple index out of range''))"

definition percentile :: "int list \<Rightarrow> pynum \<Rightarrow> int res" where
  "percentile samples p =
     (if num_le p (PyInt 0) then index_ns samples 0
      else if num_le (PyInt 100) p then index_ns samples (int (length samples) - 1)
      else rbind (num_div p (PyFloat (lit 100 1))) (\<lambda>q.
           rbind (num_mul q (PyInt (int (length samples)))) (\<lambda>r.
           rbind (to_float r) (\<lambda>x.
           rbind (math_ceil x) (\<lambda>c.
             index_ns samples (max 0 (c - 1)))))))"

definition from_samples :: "int list \<Rightarrow> int \<Rightarrow> int \<Rightarrow> benchmark_report res" where
  "from_samples samples iterations warmup =
     (let ordered = sort samples in
      rguard (ordered = []) (ValueError ''samples_ns must not be empty'')
     (rbind (percentile ordered (PyFloat (lit 50 1))) (\<lambda>p50.
      rbind (percentile ordered (PyFloat (lit 95 1))) (\<lambda>p95.
      rbind (percentile ordered (PyFloat (lit 99 1))) (\<lambda>p99.
      rbind (fmean ordered) (\<lambda>mean.
        Inr \<lparr>br_iterations = iterations, br_warmup_iterations = warmup, br_samples_ns = ordered,
             br_p50_ns = p50, br_p95_ns = p95, br_p99_ns = p99, br_min_ns = hd ordered,
             br_max_ns = last ordered, br_mean_ns = mean, br_caveats = DEFAULT_CAVEATS\<rparr>))))))"

definition to_dict :: "benchmark_report \<Rightarrow> pyval" where
  "to_dict r = VDict
     [(VStr ''iterations'', VInt (br_iterations r)),
      (VStr ''warmup_iterations'', VInt (br_warmup_iterations r)),
      (VStr ''samples_ns'', VList (map VInt (br_samples_ns r))),
      (VStr ''p50_ns'', VInt (br_p50_ns r)), (VStr ''p95_ns'', VInt (br_p95_ns r)),
      (VStr ''p99_ns'', VInt (br_p99_ns r)), (VStr ''min_ns'', VInt (br_min_ns r)),
      (VStr ''max_ns'', VInt (br_max_ns r)), (VStr ''mean_ns'', val_of_num (br_mean_ns r)),
      (VStr ''caveats'', VList (map VStr (br_caveats r)))]"

definition to_json :: "benchmark_report \<Rightarrow> string res" where
  "to_json r = dumps_indent 0 (to_dict r)"

fun join_lines :: "string list \<Rightarrow> string" where
  "join_lines [] = []"
| "join_lines [l] = l"
| "join_lines (l # ls) = l @ [char_of (10::int)] @ join_lines ls"

definition to_markdown :: "benchmark_report \<Rightarrow> string res" where
  "to_markdown r = rbind (to_float (br_mean_ns r)) (\<lambda>mean.
     Inr (join_lines
       [''# Trade Risk Engine Latency Benchmark'', [],
        ''- Iterations: '' @ str_int (br_iterations r),
        ''- Warmup iterations: '' @ str_int (br_warmup_iterations r),
        ''- Samples: '' @ str_int (int (length (br_samples_ns r))),
        ''- p50: '' @ str_int (br_p50_ns r) @ '' ns'',
        ''- p95: '' @ str_int (br_p95_ns r) @ '' ns'',
        ''- p99: '' @ str_int (br_p99_ns r) @ '' ns'',
        ''- Mean: '' @ fixed2_f64 mean @ '' ns'',
        ''- Min / max: '' @ str_int (br_min_ns r) @ '' ns / '' @ str_int (br_max_ns r) @ '' ns'',
        [], ''## Caveats'', [], join_lines (map (\<lambda>c. ''- '' @ c) (br_caveats r)), []]))"

section \<open>run_latency_benchmark\<close>

definition bench_context :: risk_context where
  "bench_context = default_context\<lparr>latency_budget_us := 1000000\<rparr>"

definition bench_inputs :: trade_inputs where
  "bench_inputs = \<lparr>ti_daily_realized_pnl = PyFloat f64_zero, ti_equity = PyFloat (lit 10000 1),
     ti_target_family = ''BENCH'', ti_proposed_cost = PyFloat (lit 100 1), ti_open_positions = [],
     ti_expected_value = PyFloat (lit 1 1), ti_trade_outcomes = None, ti_current_time = None,
     ti_cluster_cap = None\<rparr>"

text \<open>\<open>k\<close> calls: the trace afterwards, or the exception of the first that raises.\<close>

fun bench_calls :: "engine_env list \<Rightarrow> trace_log \<Rightarrow> trace_log res" where
  "bench_calls [] tr = Inr tr"
| "bench_calls (env # envs) tr =
     (case evaluate_trade env bench_context bench_inputs tr of
        (Inl e, tr') \<Rightarrow> Inl e
      | (Inr d, tr') \<Rightarrow> bench_calls envs tr')"

text \<open>The environments of the warm-up calls, then those of the timed calls with the two readings
  around each.\<close>

definition run_latency_benchmark ::
    "int \<Rightarrow> int \<Rightarrow> (nat \<Rightarrow> engine_env) \<Rightarrow> (nat \<Rightarrow> engine_env) \<Rightarrow> (nat \<Rightarrow> int \<times> int)
      \<Rightarrow> benchmark_report res" where
  "run_latency_benchmark iterations warmup warm_env timed_env clock =
     rguard (iterations < 1) (ValueError ''iterations must be >= 1'')
    (rguard (warmup < 0) (ValueError ''warmup_iterations must be >= 0'')
    (rbind (bench_calls (map warm_env [0..<nat warmup]) []) (\<lambda>tr.
     rbind (bench_calls (map timed_env [0..<nat iterations]) tr) (\<lambda>_.
       from_samples (map (\<lambda>i. snd (clock i) - fst (clock i)) [0..<nat iterations])
         iterations warmup))))"

text \<open>\<open>main\<close>, from the parsed arguments on: what it prints and the code it returns.\<close>

definition bench_main ::
    "int \<Rightarrow> int \<Rightarrow> bool \<Rightarrow> (nat \<Rightarrow> engine_env) \<Rightarrow> (nat \<Rightarrow> engine_env) \<Rightarrow> (nat \<Rightarrow> int \<times> int)
      \<Rightarrow> (string list \<times> int) res" where
  "bench_main iterations warmup json warm_env timed_env clock =
     rbind (run_latency_benchmark iterations warmup warm_env timed_env clock) (\<lambda>report.
     rbind (if json then to_json report else to_markdown report) (\<lambda>printed.
       Inr ([printed], 0)))"

section \<open>The measured calls\<close>

text \<open>The trade of the benchmark passes every gate, so only the clock decides, and it decides between
  an approval and a latency rejection: no call raises.\<close>

lemma bench_gates:
  "evaluate_expected_value bench_context (PyFloat (lit 1 1)) = g_pass"
  "evaluate_drawdown bench_context (PyFloat f64_zero) (PyFloat (lit 10000 1)) = g_pass"
  by (rule ext, code_simp)+

lemma bench_trade_returns: "\<exists>d. fst (evaluate_trade env bench_context bench_inputs tr) = Inr d"
proof -
  have "consecutive_loss_limit bench_context = 0"
    "\<not> num_lt (consecutive_loss_window_minutes bench_context) (PyInt 0)" by code_simp+
  then have losses: "evaluate_consecutive_losses bench_context ocs t = g_pass" for ocs t
    by (rule loss_limit_off)
  have "max_correlated_exposure bench_context = PyFloat (lit 2500 1)"
    by (simp add: bench_context_def default_context_def)
  then have conc: "evaluate_concentration bench_context fam (PyFloat (lit 100 1)) [] = g_pass" for fam
    by (rule sample_concentration)
  show ?thesis
    by (simp add: evaluate_trade_def evaluate_stateless_decide decide_def gate_verdicts_def
        bench_inputs_def sample_cost bench_gates losses conc cluster_verdict_def latency_verdict_def
        conclude_def)
qed

lemma bench_calls_return: "\<exists>tr'. bench_calls envs tr = Inr tr'"
proof (induction envs arbitrary: tr)
  case (Cons env envs)
  obtain d where "fst (evaluate_trade env bench_context bench_inputs tr) = Inr d"
    using bench_trade_returns by blast
  then show ?case using Cons.IH by (cases "evaluate_trade env bench_context bench_inputs tr") simp
qed simp

text \<open>So the benchmark measures and nothing else: whatever the process it runs in, its report is
  that of the differences of the clock readings around the timed calls.\<close>

lemma bench_run:
  "run_latency_benchmark iterations warmup warm_env timed_env clock =
     (if iterations < 1 then Inl (ValueError ''iterations must be >= 1'')
      else if warmup < 0 then Inl (ValueError ''warmup_iterations must be >= 0'')
      else from_samples (map (\<lambda>i. snd (clock i) - fst (clock i)) [0..<nat iterations])
             iterations warmup)"
proof -
  obtain tr1 where warm: "bench_calls (map warm_env [0..<nat warmup]) [] = Inr tr1"
    using bench_calls_return by blast
  obtain tr2 where timed: "bench_calls (map timed_env [0..<nat iterations]) tr1 = Inr tr2"
    using bench_calls_return by blast
  show ?thesis by (simp add: run_latency_benchmark_def rguard_def warm timed)
qed

section \<open>Percentiles\<close>

lemma math_ceil_ceiling: "is_finite x \<Longrightarrow> math_ceil x = Inr \<lceil>fval x\<rceil>"
proof (cases x)
  case (Fin s m e)
  have "fval x = real_of_int (sgn_int s m * 2 ^ nat e) / real_of_int (2 ^ nat (- e))"
  proof (cases "0 \<le> e")
    case True
    then show ?thesis by (simp add: Fin two_powi_nat)
  next
    case False
    then show ?thesis
      using two_powi_nat [of "- e"] by (simp add: Fin power_int_minus divide_inverse)
  qed
  then show ?thesis by (simp only: Fin math_ceil.simps ceiling_divide_eq_div)
qed simp_all

text \<open>Integers below \<open>2^53\<close> are floats.\<close>

lemma small_int_float:
  assumes "0 < n" and "n < 2 ^ 53"
  shows "\<exists>y. canonical y \<and> is_finite y \<and> fval y = of_int n"
proof -
  define b where "b = bit_length n"
  have b0: "0 < b" using bit_length_pos [OF assms(1)] by (simp add: b_def)
  have "real_of_int (2 ^ nat (b - 1)) \<le> real_of_int n" "real_of_int n < real_of_int (2 ^ nat b)"
    using bit_length_bounds [OF assms(1)] b0 by (simp_all add: b_def two_powi_nat)
  then have b: "2 ^ nat (b - 1) \<le> n" "n < 2 ^ nat b" "0 < b"
    using b0 by (simp_all only: of_int_le_iff of_int_less_iff)
  have b53: "b \<le> 53"
  proof (rule ccontr)
    assume "\<not> b \<le> 53"
    then have "(2::int) ^ 53 \<le> 2 ^ nat (b - 1)" by (intro power_increasing) auto
    then show False using b(1) assms(2) by linarith
  qed
  let ?y = "Fin False (n * 2 ^ nat (53 - b)) (b - 53)"
  have "2 ^ 52 = (2::int) ^ nat (b - 1) * 2 ^ nat (53 - b)"
    using b(3) b53 by (simp flip: power_add nat_add_distrib)
  also have "\<dots> \<le> n * 2 ^ nat (53 - b)" using b(1) by (intro mult_right_mono) simp_all
  finally have lo: "2 ^ 52 \<le> n * 2 ^ nat (53 - b)" .
  have "n * 2 ^ nat (53 - b) < 2 ^ nat b * 2 ^ nat (53 - b)"
    using b(2) by (intro mult_strict_right_mono) simp_all
  also have "\<dots> = 2 ^ 53" using b(3) b53 by (simp flip: power_add nat_add_distrib)
  finally have hi: "n * 2 ^ nat (53 - b) < 2 ^ 53" .
  have "canonical ?y" using lo hi b(3) b53 assms(1) by (simp add: canonical_def)
  moreover have "fval ?y = of_int n"
    using two_powi_nat [of "53 - b"] b53 two_powi_add [of "53 - b" "b - 53"] by simp
  ultimately show ?thesis by (intro exI [of _ ?y]) simp
qed

lemma small_int_exact:
  assumes "0 < n" and "n < 2 ^ 53"
  shows "is_finite (f64_of_int n)" and "fval (f64_of_int n) = of_int n" and "to_float (PyInt n) = Inr (f64_of_int n)"
proof -
  obtain y where y: "canonical y" "is_finite y" "fval y = of_int n"
    using small_int_float [OF assms] by blast
  have le: "fle (f64_of_int n) y" "fle y (f64_of_int n)"
    using approx_le_float [OF f64_of_int_approx y(1,2), of n]
      approx_ge_float [OF f64_of_int_approx y(1,2), of n] y(3) by simp_all
  show fin: "is_finite (f64_of_int n)" using finite_between [OF le(2,1)] y(2) by simp
  show "fval (f64_of_int n) = of_int n" using le fin y by (simp add: fle_fval)
  show "to_float (PyInt n) = Inr (f64_of_int n)" using fin by (cases "f64_of_int n") simp_all
qed

text \<open>The index of a quantile \<open>q\<close> between 0 and 1.\<close>

definition rank_of :: "f64 \<Rightarrow> nat \<Rightarrow> int" where
  "rank_of q n = max 0 (\<lceil>fval (fmul q (f64_of_int (int n)))\<rceil> - 1)"

lemma rank_facts:
  assumes "canonical q" and "is_finite q" and "0 \<le> fval q" and "fval q \<le> 1"
    and "0 < n" and "int n < 2 ^ 53"
  shows "is_finite (fmul q (f64_of_int (int n)))" and "0 \<le> rank_of q n" and "rank_of q n < int n"
proof -
  have n: "is_finite (f64_of_int (int n))" "fval (f64_of_int (int n)) = of_int (int n)"
    using small_int_exact [of "int n"] assms(5,6) by simp_all
  have app: "approx (fmul q (f64_of_int (int n))) (fval q * fval (f64_of_int (int n)))"
    using assms n by (intro fmul_approx) simp_all
  have le: "fle (fmul q (f64_of_int (int n))) (f64_of_int (int n))"
    using n assms by (intro approx_le_float [OF app]) (simp_all add: mult_le_cancel_right2)
  have ge: "fle f64_zero (fmul q (f64_of_int (int n)))"
    using n assms by (intro approx_ge_float [OF app]) simp_all
  show fin: "is_finite (fmul q (f64_of_int (int n)))" using finite_between [OF ge le] n by simp
  show "0 \<le> rank_of q n" by (simp add: rank_of_def)
  have "fval (fmul q (f64_of_int (int n))) \<le> of_int (int n)" using le fin n by (simp add: fle_fval)
  then have "\<lceil>fval (fmul q (f64_of_int (int n)))\<rceil> \<le> int n" by (simp add: ceiling_le_iff)
  then show "rank_of q n < int n" using assms(5) by (simp add: rank_of_def)
qed

lemma rank_mono:
  assumes "canonical q" "is_finite q" "0 \<le> fval q" "fval q' \<le> 1" "canonical q'" "is_finite q'"
    and "fval q \<le> fval q'" and "0 < n" and "int n < 2 ^ 53"
  shows "rank_of q n \<le> rank_of q' n"
proof -
  have n: "is_finite (f64_of_int (int n))" "0 \<le> fval (f64_of_int (int n))"
    using small_int_exact [of "int n"] assms(8,9) by simp_all
  have "fle (fmul q (f64_of_int (int n))) (fmul q' (f64_of_int (int n)))"
    using assms n by (intro fmul_mono_left) (simp_all add: fle_fval)
  then have "fval (fmul q (f64_of_int (int n))) \<le> fval (fmul q' (f64_of_int (int n)))"
    using rank_facts(1) [of q n] rank_facts(1) [of q' n] assms by (simp add: fle_fval)
  then show ?thesis unfolding rank_of_def using ceiling_mono by fastforce
qed

text \<open>The three quantiles of the report.\<close>

definition quantile :: "int \<Rightarrow> f64" where
  "quantile p = fdiv (lit p 1) (lit 100 1)"

lemma quantile_order:
  "fle f64_zero (quantile 50)" "fle (quantile 50) (quantile 95)" "fle (quantile 95) (quantile 99)"
  "fle (quantile 99) (lit 1 1)"
  by code_simp+

lemma in_percents: "(50::int) \<in> {50, 95, 99}" "(95::int) \<in> {50, 95, 99}" "(99::int) \<in> {50, 95, 99}"
  by simp_all

lemma quantile_facts:
  assumes "p \<in> {50, 95, 99}"
  shows "canonical (quantile p)" and "is_finite (quantile p)" and "0 \<le> fval (quantile p)"
    and "fval (quantile p) \<le> 1"
proof -
  show "canonical (quantile p)" by (simp add: quantile_def)
  have "fle f64_zero (quantile p)" "fle (quantile p) (lit 1 1)"
    using assms quantile_order fle_trans by blast+
  moreover from this show fin: "is_finite (quantile p)" by (rule finite_between) simp_all
  ultimately show "0 \<le> fval (quantile p)" "fval (quantile p) \<le> 1" by (simp_all add: fle_fval)
qed

lemma percent_inside:
  "\<not> num_le (PyFloat (lit 50 1)) (PyInt 0) \<and> \<not> num_le (PyInt 100) (PyFloat (lit 50 1))"
  "\<not> num_le (PyFloat (lit 95 1)) (PyInt 0) \<and> \<not> num_le (PyInt 100) (PyFloat (lit 95 1))"
  "\<not> num_le (PyFloat (lit 99 1)) (PyInt 0) \<and> \<not> num_le (PyInt 100) (PyFloat (lit 99 1))"
  by code_simp+

lemma hundred_nonzero: "\<not> feq (lit 100 1) f64_zero"
  by code_simp

lemma percentile_value:
  assumes "p \<in> {50, 95, 99}" and "samples \<noteq> []" and "int (length samples) < 2 ^ 53"
  shows "percentile samples (PyFloat (lit p 1)) = Inr (samples ! nat (rank_of (quantile p) (length samples)))"
proof -
  let ?n = "length samples"
  note q = quantile_facts [OF assms(1)]
  have n: "0 < ?n" using assms(2) by simp
  note r = rank_facts [OF q n assms(3)]
  have "\<not> num_le (PyFloat (lit p 1)) (PyInt 0) \<and> \<not> num_le (PyInt 100) (PyFloat (lit p 1))"
    using assms(1) percent_inside by blast
  moreover have "num_div (PyFloat (lit p 1)) (PyFloat (lit 100 1)) = Inr (PyFloat (quantile p))"
    using hundred_nonzero by (simp add: quantile_def)
  moreover have "num_mul (PyFloat (quantile p)) (PyInt (int ?n))
      = Inr (PyFloat (fmul (quantile p) (f64_of_int (int ?n))))"
    using small_int_exact(3) [of "int ?n"] n assms(3) by (simp del: to_float.simps(2))
  ultimately show ?thesis
    using r math_ceil_ceiling [OF r(1)]
    by (simp add: percentile_def index_ns_def rank_of_def del: num_div.simps num_mul.simps)
qed

lemma sorted_ends:
  fixes ys :: "int list"
  assumes "sorted ys" and "y \<in> set ys"
  shows "ys ! 0 \<le> y" and "y \<le> ys ! (length ys - 1)"
proof -
  obtain i where i: "i < length ys" "y = ys ! i" using assms(2) by (auto simp: in_set_conv_nth)
  then show "ys ! 0 \<le> y" "y \<le> ys ! (length ys - 1)"
    using sorted_nth_mono [OF assms(1), of 0 i] sorted_nth_mono [OF assms(1), of i "length ys - 1"]
    by simp_all
qed

lemma sort_not_Nil: "xs \<noteq> [] \<Longrightarrow> sort xs \<noteq> []"
  by (metis length_0_conv length_sort)

lemma sort_hd_Min:
  assumes "xs \<noteq> []"
  shows "hd (sort xs) = Min (set (xs :: int list))"
proof -
  have ne: "sort xs \<noteq> []" using assms by (rule sort_not_Nil)
  then have "hd (sort xs) = sort xs ! 0" "hd (sort xs) \<in> set xs"
    using hd_in_set [OF ne] by (simp_all add: hd_conv_nth)
  then show ?thesis using sorted_ends(1) [of "sort xs"] by (intro Min_eqI [symmetric]) auto
qed

lemma sort_last_Max:
  assumes "xs \<noteq> []"
  shows "last (sort xs) = Max (set (xs :: int list))"
proof -
  have ne: "sort xs \<noteq> []" using assms by (rule sort_not_Nil)
  then have "last (sort xs) = sort xs ! (length (sort xs) - 1)" "last (sort xs) \<in> set xs"
    using last_in_set [OF ne] by (simp_all add: last_conv_nth)
  then show ?thesis using sorted_ends(2) [of "sort xs"] by (intro Max_eqI [symmetric]) auto
qed

text \<open>Only the mean can fail.\<close>

definition report_of :: "int list \<Rightarrow> int \<Rightarrow> int \<Rightarrow> pynum \<Rightarrow> benchmark_report" where
  "report_of ordered it wu mean =
     (let reading = \<lambda>p. ordered ! nat (rank_of (quantile p) (length ordered))
      in \<lparr>br_iterations = it, br_warmup_iterations = wu, br_samples_ns = ordered,
          br_p50_ns = reading 50, br_p95_ns = reading 95, br_p99_ns = reading 99,
          br_min_ns = hd ordered, br_max_ns = last ordered, br_mean_ns = mean,
          br_caveats = DEFAULT_CAVEATS\<rparr>)"

lemma from_samples_value:
  assumes "samples \<noteq> []" and "int (length samples) < 2 ^ 53"
  shows "from_samples samples it wu
    = rbind (fmean (sort samples)) (\<lambda>mean. Inr (report_of (sort samples) it wu mean))"
proof -
  have s: "sort samples \<noteq> []" "int (length (sort samples)) < 2 ^ 53"
    using assms sort_not_Nil by simp_all
  note p = percentile_value [OF in_percents(1) s] percentile_value [OF in_percents(2) s]
    percentile_value [OF in_percents(3) s]
  show ?thesis
    unfolding from_samples_def Let_def p rbind_simps report_of_def using s(1) by (simp add: rguard_def)
qed

text \<open>The indices of the percentiles are in range and in order.\<close>

lemma quantile_indices:
  assumes "0 < n" and "int n < 2 ^ 53"
  shows "p \<in> {50, 95, 99} \<Longrightarrow> nat (rank_of (quantile p) n) < n"
    and "nat (rank_of (quantile 50) n) \<le> nat (rank_of (quantile 95) n)"
    and "nat (rank_of (quantile 95) n) \<le> nat (rank_of (quantile 99) n)"
proof -
  show "nat (rank_of (quantile p) n) < n" if "p \<in> {50, 95, 99}"
    using rank_facts(2,3) [OF quantile_facts [OF that] assms] by linarith
  note q = quantile_facts [OF in_percents(1)] quantile_facts [OF in_percents(2)]
    quantile_facts [OF in_percents(3)]
  have "fval (quantile 50) \<le> fval (quantile 95)" "fval (quantile 95) \<le> fval (quantile 99)"
    using quantile_order(2,3) fle_fval q by blast+
  then have "rank_of (quantile 50) n \<le> rank_of (quantile 95) n"
    "rank_of (quantile 95) n \<le> rank_of (quantile 99) n"
    using rank_mono q assms by blast+
  then show "nat (rank_of (quantile 50) n) \<le> nat (rank_of (quantile 95) n)"
    "nat (rank_of (quantile 95) n) \<le> nat (rank_of (quantile 99) n)" by (simp_all only: nat_mono)
qed

text \<open>C39. The report of any non-empty sample (of fewer than \<open>2^53\<close> readings) exists unless the float
  mean overflows; it keeps the sample, sorted; its percentiles are readings of the sample and
  come in order: minimum, median, 95th, 99th, maximum.\<close>

theorem report_percentiles:
  assumes "samples \<noteq> []" and "int (length samples) < 2 ^ 53"
  shows "case from_samples samples it wu of
      Inl e \<Rightarrow> fmean (sort samples) = Inl e
    | Inr r \<Rightarrow> br_samples_ns r = sort samples
      \<and> {br_p50_ns r, br_p95_ns r, br_p99_ns r} \<subseteq> set samples
      \<and> br_min_ns r \<le> br_p50_ns r \<and> br_p50_ns r \<le> br_p95_ns r \<and> br_p95_ns r \<le> br_p99_ns r
      \<and> br_p99_ns r \<le> br_max_ns r \<and> br_min_ns r = Min (set samples) \<and> br_max_ns r = Max (set samples)"
proof -
  let ?s = "sort samples"
  let ?i = "\<lambda>p. nat (rank_of (quantile p) (length ?s))"
  have s: "?s \<noteq> []" "int (length ?s) < 2 ^ 53" using assms(1,2) sort_not_Nil by simp_all
  note form = from_samples_value [OF assms, of it wu]
  show ?thesis
  proof (cases "from_samples samples it wu")
    case (Inl e)
    then show ?thesis using form by (auto simp: rbind_eq_Inl)
  next
    case (Inr r)
    obtain mean where r': "r = report_of ?s it wu mean"
      using Inr unfolding form rbind_eq_Inr by blast
    have r: "br_samples_ns r = ?s" "br_p50_ns r = ?s ! ?i 50" "br_p95_ns r = ?s ! ?i 95"
      "br_p99_ns r = ?s ! ?i 99" "br_min_ns r = hd ?s" "br_max_ns r = last ?s"
      by (simp_all only: r' report_of_def Let_def benchmark_report.simps)
    have len: "0 < length ?s" using assms(1) by simp
    note lt = quantile_indices(1) [OF len s(2)] and le = quantile_indices(2,3) [OF len s(2)]
    have mono: "i \<le> j \<Longrightarrow> j < length ?s \<Longrightarrow> ?s ! i \<le> ?s ! j" for i j
      by (rule sorted_nth_mono) (rule sorted_sort)
    have mem: "?s ! ?i p \<in> set samples" if "p \<in> {50, 95, 99}" for p
      using nth_mem [OF lt [OF that]] unfolding set_sort .
    have ends: "hd ?s = Min (set samples)" "last ?s = Max (set samples)"
      using sort_hd_Min sort_last_Max assms(1) by blast+
    have first: "hd ?s \<le> ?s ! ?i 50"
      unfolding hd_conv_nth [OF s(1)] using lt [OF in_percents(1)] by (intro mono) simp_all
    have final: "?s ! ?i 99 \<le> last ?s"
      unfolding last_conv_nth [OF s(1)] using lt [OF in_percents(3)] by (intro mono) linarith+
    have middle: "?s ! ?i 50 \<le> ?s ! ?i 95" "?s ! ?i 95 \<le> ?s ! ?i 99"
      by (rule mono [OF le(1) lt [OF in_percents(2)]], rule mono [OF le(2) lt [OF in_percents(3)]])
    show ?thesis
      unfolding Inr sum.case r
      by (intro conjI first middle final ends refl insert_subsetI [OF mem] in_percents empty_subsetI)
  qed
qed

theorem report_percentiles_witness:
  "case from_samples [30, 10, 20] 3 0 of
      Inl e \<Rightarrow> fmean [10, 20, 30] = Inl e
    | Inr r \<Rightarrow> br_samples_ns r = [10, 20, 30] \<and> br_p99_ns r \<le> br_max_ns r \<and> br_max_ns r = 30"
proof -
  have "sort [30, 10, 20 :: int] = [10, 20, 30]" "Max (set [30, 10, 20 :: int]) = 30" by simp_all
  then show ?thesis
    using report_percentiles [of "[30, 10, 20]" 3 0] by (auto split: sum.splits)
qed

section \<open>The command\<close>

lemma floats_of_Inl: "floats_of ns = Inl e \<Longrightarrow> is_overflow e"
proof (induction ns)
  case (Cons n ns)
  then show ?case using to_float_Inl [of "PyInt n"] by (auto simp: rbind_eq_Inl simp del: to_float.simps)
qed simp

lemma count_division:
  assumes "0 < n" and "n < 2 ^ 53"
  shows "num_div (PyFloat x) (PyInt n) = Inr (PyFloat (fdiv x (f64_of_int n)))"
proof -
  have "\<not> feq (f64_of_int n) f64_zero"
    using small_int_exact [OF assms] assms(1) by (intro positive_not_feq_zero) simp_all
  then show ?thesis using small_int_exact(3) [OF assms] by (simp del: to_float.simps(2))
qed

lemma fmean_cases:
  assumes "ns \<noteq> []" and "int (length ns) < 2 ^ 53"
  shows "(\<exists>e. fmean ns = Inl e \<and> is_overflow e) \<or> (\<exists>x. fmean ns = Inr (PyFloat x))"
proof (cases "floats_of ns")
  case (Inl e)
  then show ?thesis using floats_of_Inl by (auto simp: fmean_def)
next
  case (Inr xs)
  have "0 < int (length ns)" using assms(1) by simp
  note q = count_division [OF this assms(2)]
  show ?thesis
    by (cases "f64_of_int (sum_list (map integral_value xs))")
      (simp_all add: fmean_def Inr q del: num_div.simps)
qed

text \<open>A report with a float mean can be printed in both formats.\<close>

lemma join_res_ok: "\<forall>r \<in> set rs. \<exists>s. r = Inr s \<Longrightarrow> \<exists>s. join_res sep rs = Inr s"
  by (induction sep rs rule: join_res.induct) auto

lemma report_items_sorted:
  "\<forall>kv \<in> set kvs. is_vstr (fst kv) \<Longrightarrow> \<exists>items. sorted_items kvs = Inr items \<and> set items = set kvs"
  by (auto simp: sorted_items_def set_stable_sort)

lemma to_json_ok:
  assumes "br_mean_ns r = PyFloat x"
  shows "\<exists>s. to_json r = Inr s"
proof -
  have ints: "\<exists>s. dumps_indent n (VList (map VInt ns)) = Inr s" for n ns
    using join_res_ok [of "map (dumps_indent (Suc n)) (map VInt ns)" "'','' @ line_at (Suc n)"] by auto
  have strs: "\<exists>s. dumps_indent n (VList (map VStr ss)) = Inr s" for n ss
    using join_res_ok [of "map (dumps_indent (Suc n)) (map VStr ss)" "'','' @ line_at (Suc n)"] by auto
  obtain kvs where d: "to_dict r = VDict kvs" "kvs \<noteq> []"
    and keys: "\<forall>kv \<in> set kvs. is_vstr (fst kv) \<and> (\<exists>s. dumps_indent 1 (snd kv) = Inr s)"
    using assms ints [of 1] strs [of 1] by (simp add: to_dict_def del: dumps_indent.simps(6))
  let ?kvs = "map (\<lambda>kv. (fst kv, dumps_indent 1 (snd kv))) kvs"
  have "\<forall>kv \<in> set ?kvs. is_vstr (fst kv)" using keys by simp
  then obtain items where items: "sorted_items ?kvs = Inr items" "set items = set ?kvs"
    using report_items_sorted by blast
  have "\<exists>s. join_res sep (map (\<lambda>it. rbind (json_key (fst it)) (\<lambda>k.
      rbind (snd it) (\<lambda>s. Inr (json_str k @ '': '' @ s)))) items) = Inr s" for sep
  proof (rule join_res_ok, rule ballI)
    fix y assume "y \<in> set (map (\<lambda>it. rbind (json_key (fst it)) (\<lambda>k.
      rbind (snd it) (\<lambda>s. Inr (json_str k @ '': '' @ s)))) items)"
    then obtain kv where "kv \<in> set kvs" "y = rbind (json_key (fst kv)) (\<lambda>k.
      rbind (dumps_indent 1 (snd kv)) (\<lambda>s. Inr (json_str k @ '': '' @ s)))"
      using items(2) by auto
    then show "\<exists>s. y = Inr s" using keys by (cases "fst kv") fastforce+
  qed
  from this [of "'','' @ line_at 1"] show ?thesis using d items(1) by (auto simp: to_json_def)
qed

text \<open>Given counts in range, the command prints exactly one report (in the requested format) and returns
  0, or stops with the \<open>OverflowError\<close> of a mean too large for a float.\<close>

lemma bench_main_report:
  assumes "1 \<le> iterations" and "iterations < 2 ^ 53" and "0 \<le> warmup"
  shows "case bench_main iterations warmup json warm_env timed_env clock of
      Inl e \<Rightarrow> is_overflow e
    | Inr (printed, code) \<Rightarrow> code = 0
      \<and> (\<exists>r text. run_latency_benchmark iterations warmup warm_env timed_env clock = Inr r
           \<and> printed = [text] \<and> (if json then to_json r else to_markdown r) = Inr text)"
proof -
  let ?s = "map (\<lambda>i. snd (clock i) - fst (clock i)) [0..<nat iterations]"
  have s: "?s \<noteq> []" "int (length ?s) < 2 ^ 53" using assms(1,2) by simp_all
  have run: "run_latency_benchmark iterations warmup warm_env timed_env clock
      = rbind (fmean (sort ?s)) (\<lambda>mean. Inr (report_of (sort ?s) iterations warmup mean))"
    using bench_run assms(1,3) from_samples_value [OF s] by simp
  consider (err) e where "fmean (sort ?s) = Inl e" "is_overflow e"
    | (mean) x where "fmean (sort ?s) = Inr (PyFloat x)"
    using fmean_cases [of "sort ?s"] s sort_not_Nil [OF s(1)] by auto
  then show ?thesis
  proof cases
    case (mean x)
    let ?r = "report_of (sort ?s) iterations warmup (PyFloat x)"
    have m: "br_mean_ns ?r = PyFloat x" by (simp add: report_of_def Let_def)
    have "\<exists>t. to_markdown ?r = Inr t" by (simp add: to_markdown_def m)
    then obtain t where "(if json then to_json ?r else to_markdown ?r) = Inr t"
      using to_json_ok [OF m] by (cases json) auto
    then show ?thesis by (simp add: bench_main_def run mean)
  qed (simp add: bench_main_def run)
qed

end
