(* ===== verification/BenchArgs.thy ===== *)
theory BenchArgs
  imports Benchmark ReprLaws
begin

text \<open>
  The command line of \<open>benchmark.py\<close>: \<open>main\<close> from the strings of \<open>argv\<close> to the exit status. The
  parser \<open>main\<close> builds is \<open>argparse\<close>'s (CPython 3.11): abbreviated options, \<open>--option=value\<close>, \<open>--\<close>,
  negative numbers as values and the errors that end the process with status 2. The wording of
  help and error texts is the library's; an error is kept as the kind and the strings it names.
\<close>

section \<open>The parser main builds\<close>

text \<open>\<open>-h\<close> and \<open>--help\<close> are added by \<open>ArgumentParser\<close>, the others by \<open>add_argument\<close>.\<close>

datatype action = AHelp | AIterations | AWarmup | AJson

definition option_actions :: "(string \<times> action) list" where
  "option_actions =
     [(''-h'', AHelp), (''--help'', AHelp), (''--iterations'', AIterations),
      (''--warmup-iterations'', AWarmup), (''--json'', AJson)]"

record namespace =
  ns_iterations :: int
  ns_warmup_iterations :: int
  ns_json :: bool

definition default_namespace :: namespace where
  "default_namespace = \<lparr>ns_iterations = 1000, ns_warmup_iterations = 100, ns_json = False\<rparr>"

datatype usage_error =
    AmbiguousOption string "string list"
  | ExpectedOneArgument action
  | InvalidInt action string
  | IgnoredExplicitArgument action string
  | UnrecognizedArguments "string list"

section \<open>int of a string\<close>

text \<open>\<open>int(text)\<close>: blanks around, a sign, digits with single underscores between them, and no more
  digits than the interpreter's limit.\<close>

definition int_blank :: "char \<Rightarrow> bool" where
  "int_blank c \<longleftrightarrow> of_char c \<in> {9, 10, 11, 12, 13, 32, 133, 160 :: int}"

fun underscored :: "bool \<Rightarrow> string \<Rightarrow> bool" where
  "underscored after_digit [] = after_digit"
| "underscored after_digit (c # cs) =
     (if is_digit c then underscored True cs
      else c = CHR ''_'' \<and> after_digit \<and> underscored False cs)"

definition max_str_digits :: nat where
  "max_str_digits = 4300"

definition read_digits :: "string \<Rightarrow> int option" where
  "read_digits s =
     (let ds = filter is_digit s
      in if underscored False s \<and> length ds \<le> max_str_digits then Some (digits_val ds) else None)"

definition read_int :: "string \<Rightarrow> int option" where
  "read_int s =
     (let t = rev (dropWhile int_blank (rev (dropWhile int_blank s)))
      in if take 1 t = ''-'' then map_option uminus (read_digits (drop 1 t))
         else if take 1 t = ''+'' then read_digits (drop 1 t) else read_digits t)"

section \<open>Sorting the arguments\<close>

text \<open>What \<open>argparse\<close> takes an argument for before it consumes any: an option (its action, its full
  name, and the separator and value glued to it), a string that can be a value, the marker \<open>--\<close>, or
  an option it does not know.\<close>

datatype arg_class =
    Opt action string "(string \<times> string) option"
  | Plain
  | DashDash
  | Unknown

definition before_eq :: "string \<Rightarrow> string" where
  "before_eq s = takeWhile (\<lambda>c. c \<noteq> CHR ''='') s"

definition after_eq :: "string \<Rightarrow> (string \<times> string) option" where
  "after_eq s =
     (case dropWhile (\<lambda>c. c \<noteq> CHR ''='') s of [] \<Rightarrow> None | _ # v \<Rightarrow> Some (''='', v))"

text \<open>The options the string may abbreviate or, after one dash, start with.\<close>

definition option_tuples :: "string \<Rightarrow> (action \<times> string \<times> (string \<times> string) option) list" where
  "option_tuples s =
     (if startswith ''--'' s
      then map (\<lambda>(name, a). (a, name, after_eq s))
             (filter (\<lambda>(name, a). startswith (before_eq s) name) option_actions)
      else map (\<lambda>(name, a). (a, name, if name = take 2 s then Some ([], drop 2 s) else None))
             (filter (\<lambda>(name, a). name = take 2 s \<or> startswith s name) option_actions))"

text \<open>The pattern \<open>^-\d+$|^-\d*\.\d+$\<close>; \<open>$\<close> also matches before a final newline.\<close>

definition negative_number_like :: "string \<Rightarrow> bool" where
  "negative_number_like s =
     (let t = (if s \<noteq> [] \<and> last s = char_of (10::int) then butlast s else s);
          ds = drop 1 t; fp = dropWhile is_digit ds
      in take 1 t = ''-'' \<and> (ds \<noteq> [] \<and> fp = []
          \<or> take 1 fp = ''.'' \<and> drop 1 fp \<noteq> [] \<and> list_all is_digit (drop 1 fp)))"

definition parse_optional :: "string \<Rightarrow> usage_error + arg_class" where
  "parse_optional s =
     (if take 1 s \<noteq> ''-'' then Inr Plain
      else case map_of option_actions s of Some a \<Rightarrow> Inr (Opt a s None)
      | None \<Rightarrow>
     (if length s = 1 then Inr Plain
      else case (after_eq s, map_of option_actions (before_eq s)) of
        (Some v, Some a) \<Rightarrow> Inr (Opt a (before_eq s) (Some v))
      | _ \<Rightarrow>
     (case option_tuples s of
        [] \<Rightarrow> Inr (if negative_number_like s \<or> CHR '' '' \<in> set s then Plain else Unknown)
      | [(a, name, v)] \<Rightarrow> Inr (Opt a name v)
      | ts \<Rightarrow> Inl (AmbiguousOption s (map (\<lambda>(a, name, v). name) ts)))))"

fun classify_args :: "string list \<Rightarrow> usage_error + (string \<times> arg_class) list" where
  "classify_args [] = Inr []"
| "classify_args (s # ss) =
     (if s = ''--'' then Inr ((s, DashDash) # map (\<lambda>t. (t, Plain)) ss)
      else case parse_optional s of Inl e \<Rightarrow> Inl e
      | Inr c \<Rightarrow> (case classify_args ss of Inl e \<Rightarrow> Inl e | Inr cs \<Rightarrow> Inr ((s, c) # cs)))"

section \<open>Consuming the arguments\<close>

datatype parsed = Parsed namespace | HelpExit | UsageExit usage_error

text \<open>\<open>-h\<close> with something glued to it: further single-dash options, or a value it does not take.\<close>

fun help_glued :: "string \<Rightarrow> string \<Rightarrow> parsed" where
  "help_glued sep [] = UsageExit (IgnoredExplicitArgument AHelp [])"
| "help_glued sep (c # cs) =
     (if sep = ''='' \<or> c = CHR ''-'' then UsageExit (IgnoredExplicitArgument AHelp (c # cs))
      else if c \<noteq> CHR ''h'' then HelpExit
      else case cs of [] \<Rightarrow> HelpExit
      | d # ds \<Rightarrow> if d = CHR ''='' then help_glued ''='' ds else help_glued [] (d # ds))"

definition set_int :: "action \<Rightarrow> int \<Rightarrow> namespace \<Rightarrow> namespace" where
  "set_int a n ns =
     (if a = AWarmup then ns\<lparr>ns_warmup_iterations := n\<rparr> else ns\<lparr>ns_iterations := n\<rparr>)"

fun consume_args :: "(string \<times> arg_class) list \<Rightarrow> namespace \<Rightarrow> string list \<Rightarrow> parsed" where
  "consume_args [] ns extras =
     (if extras = [] then Parsed ns else UsageExit (UnrecognizedArguments extras))"
| "consume_args ((s, Opt AHelp name None) # rest) ns extras = HelpExit"
| "consume_args ((s, Opt AHelp name (Some (sep, v))) # rest) ns extras =
     (if startswith ''--'' name then UsageExit (IgnoredExplicitArgument AHelp v) else help_glued sep v)"
| "consume_args ((s, Opt AJson name None) # rest) ns extras =
     consume_args rest (ns\<lparr>ns_json := True\<rparr>) extras"
| "consume_args ((s, Opt AJson name (Some (sep, v))) # rest) ns extras =
     UsageExit (IgnoredExplicitArgument AJson v)"
| "consume_args ((s, Opt a name (Some (sep, v))) # rest) ns extras =
     (case read_int v of None \<Rightarrow> UsageExit (InvalidInt a v)
      | Some n \<Rightarrow> consume_args rest (set_int a n ns) extras)"
| "consume_args ((s, Opt a name None) # (v, Plain) # rest) ns extras =
     (case read_int v of None \<Rightarrow> UsageExit (InvalidInt a v)
      | Some n \<Rightarrow> consume_args rest (set_int a n ns) extras)"
| "consume_args ((s, Opt a name None) # rest) ns extras = UsageExit (ExpectedOneArgument a)"
| "consume_args ((s, c) # rest) ns extras = consume_args rest ns (extras @ [s])"

definition parse_args :: "string list \<Rightarrow> parsed" where
  "parse_args argv =
     (case classify_args argv of Inl e \<Rightarrow> UsageExit e
      | Inr cs \<Rightarrow> consume_args cs default_namespace [])"

section \<open>The command\<close>

text \<open>What a run of the command comes to: the help text, a usage error, or a run of the benchmark with
  what it printed and the code \<open>main\<close> returned, or the exception it let through.\<close>

datatype cli_outcome =
    HelpShown
  | UsageFailed usage_error
  | Ran "(string list \<times> int) res"

definition main :: "string list \<Rightarrow> (nat \<Rightarrow> engine_env) \<Rightarrow> (nat \<Rightarrow> engine_env) \<Rightarrow> (nat \<Rightarrow> int \<times> int)
    \<Rightarrow> cli_outcome" where
  "main argv warm_env timed_env clock =
     (case parse_args argv of HelpExit \<Rightarrow> HelpShown | UsageExit e \<Rightarrow> UsageFailed e
      | Parsed args \<Rightarrow> Ran (bench_main (ns_iterations args) (ns_warmup_iterations args) (ns_json args)
          warm_env timed_env clock))"

text \<open>\<open>raise SystemExit(main())\<close>: the status of the process; an uncaught exception ends it with 1.\<close>

fun exit_status :: "cli_outcome \<Rightarrow> int" where
  "exit_status HelpShown = 0"
| "exit_status (UsageFailed e) = 2"
| "exit_status (Ran (Inr (printed, code))) = code"
| "exit_status (Ran (Inl e)) = 1"

section \<open>Integers on the command line\<close>

text \<open>A number whose digits are within the interpreter's limit.\<close>

definition printable_int :: "int \<Rightarrow> bool" where
  "printable_int n \<longleftrightarrow> length (str_nat \<bar>n\<bar>) \<le> max_str_digits"

lemma underscored_digits: "list_all is_digit s \<Longrightarrow> underscored b s \<longleftrightarrow> b \<or> s \<noteq> []"
  by (induction b s rule: underscored.induct) auto

lemma read_digits_str_nat:
  "0 \<le> n \<Longrightarrow> length (str_nat n) \<le> max_str_digits \<Longrightarrow> read_digits (str_nat n) = Some n"
  using str_nat_digits [of n]
  by (simp add: read_digits_def underscored_digits digits_val_str_nat filter_id_conv list_all_iff)

lemma digit_plain: "is_digit c \<Longrightarrow> \<not> int_blank c \<and> c \<noteq> CHR ''-'' \<and> c \<noteq> CHR ''+''"
  by (auto simp: is_digit_def int_blank_def)

lemma ends_not_blank:
  assumes "s \<noteq> []" and "\<not> int_blank (hd s)" and "\<not> int_blank (last s)"
  shows "rev (dropWhile int_blank (rev (dropWhile int_blank s))) = s"
proof -
  have "dropWhile int_blank s = s" using assms by (cases s) simp_all
  moreover have "dropWhile int_blank (rev s) = rev s" using assms by (cases s rule: rev_cases) simp_all
  ultimately show ?thesis by simp
qed

lemma str_nat_ends: "\<not> int_blank (last (str_nat n))" "\<not> int_blank (hd (str_nat n))"
  using str_nat_digits [of n] digit_plain by (simp_all add: list_all_iff hd_in_set last_in_set)

lemma str_nat_sign: "take 1 (str_nat n) \<noteq> ''-''" "take 1 (str_nat n) \<noteq> ''+''"
  using hd_str_nat [of n] digit_plain by (cases "str_nat n"; force)+

lemma read_int_str_int:
  assumes "printable_int n"
  shows "read_int (str_int n) = Some n"
proof (cases "n < 0")
  case True
  have "\<not> int_blank (CHR ''-'')" by (simp add: int_blank_def)
  then show ?thesis
    using True assms str_nat_ends ends_not_blank [of "''-'' @ str_nat (- n)"] read_digits_str_nat [of "- n"]
    by (simp add: read_int_def str_int_def printable_int_def)
next
  case False
  then show ?thesis
    using assms str_nat_ends ends_not_blank [of "str_nat n"] read_digits_str_nat [of n] str_nat_sign [of n]
    by (simp add: read_int_def str_int_def printable_int_def del: One_nat_def)
qed

text \<open>The parts of a string around an equals sign, where there is none and where it is the first.\<close>

lemma eq_parts:
  assumes "list_all (\<lambda>c. c \<noteq> CHR ''='') s"
  shows "before_eq s = s" and "after_eq s = None"
    and "before_eq (s @ ''='' @ v) = s" and "after_eq (s @ ''='' @ v) = Some (''='', v)"
proof -
  have s: "takeWhile (\<lambda>c. c \<noteq> CHR ''='') s = s" "dropWhile (\<lambda>c. c \<noteq> CHR ''='') s = []"
    using assms by (simp_all add: list_all_iff)
  show "before_eq s = s" "after_eq s = None" by (simp_all only: before_eq_def after_eq_def s list.case)
  show "before_eq (s @ ''='' @ v) = s" "after_eq (s @ ''='' @ v) = Some (''='', v)"
    using assms by (simp_all add: before_eq_def after_eq_def list_all_iff takeWhile_append2 dropWhile_append2)
qed

text \<open>No option starts with a digit after its dash, so a negative number is a value.\<close>

lemma digit_not_newline:
  "is_digit c \<Longrightarrow> c \<noteq> char_of (10::int)"
  "is_digit c \<Longrightarrow> c \<noteq> CHR ''=''"
proof -
  have "\<not> is_digit (char_of (10::int))" "\<not> is_digit (CHR ''='')" by code_simp+
  then show "is_digit c \<Longrightarrow> c \<noteq> char_of (10::int)" "is_digit c \<Longrightarrow> c \<noteq> CHR ''=''" by metis+
qed

lemma minus_digit_plain:
  assumes "is_digit c" and "list_all is_digit (c # cs)"
  shows "parse_optional (CHR ''-'' # c # cs) = Inr Plain"
proof -
  have c: "c \<noteq> CHR ''-''" "c \<noteq> CHR ''h''" using assms(1) by (auto simp: is_digit_def)
  have "c # cs \<noteq> []" by simp
  then have "last (c # cs) \<in> set (c # cs)" by (rule last_in_set)
  then have "is_digit (last (c # cs))" using assms(2) unfolding list_all_iff by blast
  then have last: "last (c # cs) \<noteq> char_of (10::int)" by (rule digit_not_newline(1))
  have "list_all (\<lambda>d. d \<noteq> CHR ''='') (c # cs)"
    using assms(2) digit_not_newline(2) unfolding list_all_iff by blast
  then have eq: "after_eq (CHR ''-'' # c # cs) = None" by (intro eq_parts(2)) simp
  have neg: "negative_number_like (CHR ''-'' # c # cs)"
    using last assms(2) by (simp add: negative_number_like_def Let_def list_all_iff)
  show ?thesis
    using c neg by (simp add: parse_optional_def option_actions_def eq option_tuples_def)
qed

lemma str_int_plain: "parse_optional (str_int n) = Inr Plain"
proof (cases "n < 0")
  case True
  then show ?thesis
    using str_nat_digits [of "- n"] minus_digit_plain [of "hd (str_nat (- n))" "tl (str_nat (- n))"] hd_str_nat [of "- n"]
    by (simp add: str_int_def)
next
  case False
  then show ?thesis using str_nat_sign(1) [of n] by (simp add: parse_optional_def str_int_def del: One_nat_def)
qed

lemma str_int_not_dashes: "str_int n \<noteq> ''--''"
proof
  assume "str_int n = ''--''"
  then have "str_nat (- n) = ''-'' \<or> str_nat n = ''--''" by (auto simp: str_int_def split: if_splits)
  then show False using str_nat_sign(1) by (metis take_Suc_Cons take0 One_nat_def)
qed

section \<open>What a command line says\<close>

text \<open>
  A command line as its user means it: settings in any order and number, an option written in full
  or cut to any prefix of at least three characters, its value a string of its own or after \<open>=\<close>.
\<close>

datatype setting =
    SetIterations nat bool int
  | SetWarmup nat bool int
  | SetJson nat

definition written :: "string \<Rightarrow> bool \<Rightarrow> int \<Rightarrow> string list" where
  "written opt glued n = (if glued then [opt @ ''='' @ str_int n] else [opt, str_int n])"

fun write_setting :: "setting \<Rightarrow> string list" where
  "write_setting (SetIterations k glued n) = written (take (3 + k) ''--iterations'') glued n"
| "write_setting (SetWarmup k glued n) = written (take (3 + k) ''--warmup-iterations'') glued n"
| "write_setting (SetJson k) = [take (3 + k) ''--json'']"

fun apply_setting :: "setting \<Rightarrow> namespace \<Rightarrow> namespace" where
  "apply_setting (SetIterations k glued n) ns = ns\<lparr>ns_iterations := n\<rparr>"
| "apply_setting (SetWarmup k glued n) ns = ns\<lparr>ns_warmup_iterations := n\<rparr>"
| "apply_setting (SetJson k) ns = ns\<lparr>ns_json := True\<rparr>"

fun setting_ok :: "setting \<Rightarrow> bool" where
  "setting_ok (SetIterations k glued n) = printable_int n"
| "setting_ok (SetWarmup k glued n) = printable_int n"
| "setting_ok (SetJson k) = True"

text \<open>An option cut short is that option, with and without a value.\<close>

definition reads_as :: "string \<Rightarrow> action \<Rightarrow> string \<Rightarrow> bool" where
  "reads_as s a name \<longleftrightarrow> s \<noteq> ''--'' \<and> parse_optional s = Inr (Opt a name None)
     \<and> (\<forall>v. parse_optional (s @ ''='' @ v) = Inr (Opt a name (Some (''='', v)))
          \<and> s @ ''='' @ v \<noteq> ''--'')"

text \<open>It is enough that it names the option, or that the option is the only one it abbreviates.\<close>

definition unique_prefix :: "string \<Rightarrow> action \<Rightarrow> string \<Rightarrow> bool" where
  "unique_prefix s a name \<longleftrightarrow> startswith ''--'' s \<and> 2 < length s \<and> list_all (\<lambda>c. c \<noteq> CHR ''='') s
     \<and> (case map_of option_actions s of Some b \<Rightarrow> b = a \<and> s = name
        | None \<Rightarrow> filter (\<lambda>(n, b). startswith s n) option_actions = [(name, a)])"

lemma no_eq_option: "map_of option_actions (s @ ''='' @ v) = None"
proof -
  have "list_all (\<lambda>(n, a). CHR ''='' \<notin> set n) option_actions" by code_simp
  then show ?thesis by (auto simp: map_of_eq_None_iff list_all_iff) force
qed

lemma unique_prefix_reads:
  assumes "unique_prefix s a name"
  shows "reads_as s a name"
proof -
  obtain t where s: "s = ''--'' @ t" "t \<noteq> []"
    using assms by (cases s; cases "tl s") (auto simp: unique_prefix_def startswith_def)
  have eq: "list_all (\<lambda>c. c \<noteq> CHR ''='') s" using assms by (simp add: unique_prefix_def)
  have start: "startswith ''--'' s" "startswith ''--'' (s @ ''='' @ v)" for v by (simp_all add: s)
  have dash: "take 1 s = ''-''" "take 1 (s @ ''='' @ v) = ''-''" for v by (simp_all add: s)
  have len: "length s \<noteq> 1" "length (s @ ''='' @ v) \<noteq> 1" for v by (simp_all add: s)
  have "parse_optional s = Inr (Opt a name None)
      \<and> parse_optional (s @ ''='' @ v) = Inr (Opt a name (Some (''='', v)))" for v
  proof (cases "map_of option_actions s")
    case None
    then have f: "filter (\<lambda>(n, b). startswith s n) option_actions = [(name, a)]"
      using assms by (simp add: unique_prefix_def)
    have "option_tuples s = [(a, name, None)]" "option_tuples (s @ ''='' @ v) = [(a, name, Some (''='', v))]"
      by (simp_all only: option_tuples_def start if_True eq_parts [OF eq] f list.map prod.case)
    then show ?thesis
      by (simp only: parse_optional_def dash len no_eq_option None eq_parts [OF eq] if_False simp_thms
          option.case list.case prod.case)
  next
    case (Some b)
    then have b: "b = a" "name = s" using assms by (simp_all add: unique_prefix_def)
    show ?thesis
      unfolding b(2) by (simp only: parse_optional_def dash len no_eq_option Some b(1) eq_parts [OF eq]
          if_False simp_thms option.case prod.case)
  qed
  then show ?thesis by (simp add: reads_as_def s)
qed

lemma cut_option:
  assumes "list_all (\<lambda>k. unique_prefix (take (3 + k) name) a name) [0..<length name]"
    and "unique_prefix name a name"
  shows "reads_as (take (3 + k) name) a name"
proof (cases "k < length name")
  case True
  then show ?thesis using assms(1) by (intro unique_prefix_reads) (simp add: list_all_iff)
next
  case False
  then show ?thesis using unique_prefix_reads [OF assms(2)] by simp
qed

lemma reads_options:
  "reads_as (take (3 + k) ''--iterations'') AIterations ''--iterations''"
  "reads_as (take (3 + k) ''--warmup-iterations'') AWarmup ''--warmup-iterations''"
  "reads_as (take (3 + k) ''--json'') AJson ''--json''"
  by (rule cut_option; code_simp)+

text \<open>So a setting is classified and consumed as what it means, whatever follows it.\<close>

lemma reads_asD:
  assumes "reads_as s a name"
  shows "classify_args (s # ss) = (case classify_args ss of Inl e \<Rightarrow> Inl e
      | Inr cs \<Rightarrow> Inr ((s, Opt a name None) # cs))"
    and "classify_args ((s @ ''='' @ v) # ss) = (case classify_args ss of Inl e \<Rightarrow> Inl e
      | Inr cs \<Rightarrow> Inr ((s @ ''='' @ v, Opt a name (Some (''='', v))) # cs))"
  using assms unfolding reads_as_def by (simp_all del: append.simps append_Cons)

lemma classify_str_int:
  "classify_args (str_int n # ss) = (case classify_args ss of Inl e \<Rightarrow> Inl e
     | Inr cs \<Rightarrow> Inr ((str_int n, Plain) # cs))"
  by (simp add: str_int_plain str_int_not_dashes)

lemma written_append:
  "written s True n @ ss = (s @ ''='' @ str_int n) # ss"
  "written s False n @ ss = s # str_int n # ss"
  by (simp_all add: written_def)

lemma written_step:
  assumes "reads_as s a name" and "a \<in> {AIterations, AWarmup}" and "printable_int n"
    and "classify_args ss = Inr cs"
  shows "\<exists>ds. classify_args (written s glued n @ ss) = Inr ds
    \<and> (\<forall>ns ex. consume_args ds ns ex = consume_args cs (set_int a n ns) ex)"
proof (cases glued)
  case True
  have "classify_args (written s True n @ ss)
      = Inr ((s @ ''='' @ str_int n, Opt a name (Some (''='', str_int n))) # cs)"
    by (simp only: written_append reads_asD(2) [OF assms(1)] assms(4) sum.case)
  then show ?thesis using True assms(2) read_int_str_int [OF assms(3)] by auto
next
  case False
  have "classify_args (written s False n @ ss) = Inr ((s, Opt a name None) # (str_int n, Plain) # cs)"
    by (simp only: written_append reads_asD(1) [OF assms(1)] classify_str_int assms(4) sum.case)
  then show ?thesis using False assms(2) read_int_str_int [OF assms(3)] by auto
qed

lemma setting_step:
  assumes "setting_ok t" and "classify_args ss = Inr cs"
  shows "\<exists>ds. classify_args (write_setting t @ ss) = Inr ds
    \<and> (\<forall>ns ex. consume_args ds ns ex = consume_args cs (apply_setting t ns) ex)"
proof (cases t)
  case (SetIterations k glued n)
  then show ?thesis
    using written_step [OF reads_options(1) _ _ assms(2), of n k glued] assms(1) by (simp add: set_int_def)
next
  case (SetWarmup k glued n)
  then show ?thesis
    using written_step [OF reads_options(2) _ _ assms(2), of n k glued] assms(1) by (simp add: set_int_def)
next
  case (SetJson k)
  have "classify_args (take (3 + k) ''--json'' # ss)
      = Inr ((take (3 + k) ''--json'', Opt AJson ''--json'' None) # cs)"
    by (simp only: reads_asD(1) [OF reads_options(3)] assms(2) sum.case)
  then show ?thesis
    by (simp only: SetJson write_setting.simps append_Cons append_Nil) simp
qed

lemma settings_consumed:
  assumes "list_all setting_ok ts"
  shows "\<exists>cs. classify_args (concat (map write_setting ts)) = Inr cs
    \<and> (\<forall>ns. consume_args cs ns [] = Parsed (fold apply_setting ts ns))"
  using assms
proof (induction ts)
  case (Cons t ts)
  then obtain cs where cs: "classify_args (concat (map write_setting ts)) = Inr cs"
    "\<forall>ns. consume_args cs ns [] = Parsed (fold apply_setting ts ns)" by auto
  show ?case using setting_step [OF _ cs(1), of t] Cons.prems cs(2) by auto
qed simp

lemma settings_parsed:
  "list_all setting_ok ts
     \<Longrightarrow> parse_args (concat (map write_setting ts)) = Parsed (fold apply_setting ts default_namespace)"
  using settings_consumed [of ts] by (auto simp: parse_args_def)

text \<open>C22. The command line round trip: settings written out in any order, each option whole or cut to
  three or more characters, each value apart or after an equals sign, are read back as those
  settings, the last one of a kind winning over the defaults; negative numbers included.\<close>

theorem settings_parse:
  assumes "list_all setting_ok ts"
  shows "parse_args (concat (map write_setting ts)) = Parsed (fold apply_setting ts default_namespace)"
  using assms by (rule settings_parsed)

theorem settings_parse_witness:
  "parse_args [''--it=7'', ''--warm'', ''-3'', ''--json'', ''--iterations'', ''20'']
     = Parsed \<lparr>ns_iterations = 20, ns_warmup_iterations = - 3, ns_json = True\<rparr>"
proof -
  let ?ts = "[SetIterations 1 True 7, SetWarmup 3 False (- 3), SetJson 9, SetIterations 9 False 20]"
  have "list_all setting_ok ?ts" by code_simp
  moreover have "concat (map write_setting ?ts)
      = [''--it=7'', ''--warm'', ''-3'', ''--json'', ''--iterations'', ''20'']" by code_simp
  moreover have "fold apply_setting ?ts default_namespace
      = \<lparr>ns_iterations = 20, ns_warmup_iterations = - 3, ns_json = True\<rparr>" by code_simp
  ultimately show ?thesis using settings_parse by metis
qed

section \<open>The process\<close>

text \<open>C40. The benchmark command from its command line to its exit status: with the settings written out
  it refuses a count out of range with the \<open>ValueError\<close> of that count, and otherwise prints exactly
  one report, in the format asked for, and exits with 0, or stops with the \<open>OverflowError\<close> of a mean
  too large for a float; neither the calls it times nor the printing can fail otherwise.\<close>

theorem benchmark_command:
  assumes "list_all setting_ok ts" and "ns = fold apply_setting ts default_namespace"
    and "ns_iterations ns < 2 ^ 53"
  shows "case main (concat (map write_setting ts)) warm_env timed_env clock of
      Ran (Inl e) \<Rightarrow> if ns_iterations ns < 1 then e = ValueError ''iterations must be >= 1''
        else if ns_warmup_iterations ns < 0 then e = ValueError ''warmup_iterations must be >= 0''
        else is_overflow e
    | Ran (Inr (printed, code)) \<Rightarrow> 1 \<le> ns_iterations ns \<and> 0 \<le> ns_warmup_iterations ns
        \<and> exit_status (main (concat (map write_setting ts)) warm_env timed_env clock) = 0
        \<and> (\<exists>r text. run_latency_benchmark (ns_iterations ns) (ns_warmup_iterations ns) warm_env timed_env clock = Inr r
             \<and> printed = [text] \<and> (if ns_json ns then to_json r else to_markdown r) = Inr text)
    | _ \<Rightarrow> False"
proof -
  have m: "main (concat (map write_setting ts)) warm_env timed_env clock
      = Ran (bench_main (ns_iterations ns) (ns_warmup_iterations ns) (ns_json ns) warm_env timed_env clock)"
    by (simp add: main_def settings_parsed [OF assms(1)] assms(2))
  consider "ns_iterations ns < 1" | "1 \<le> ns_iterations ns" "ns_warmup_iterations ns < 0"
    | (run) "1 \<le> ns_iterations ns" "0 \<le> ns_warmup_iterations ns" by linarith
  then show ?thesis
  proof cases
    case run
    then show ?thesis
      using bench_main_report [OF run(1) assms(3) run(2), where json = "ns_json ns" and warm_env = warm_env
          and timed_env = timed_env and clock = clock]
      by (auto simp: m split: sum.splits prod.splits)
  qed (simp_all add: m bench_main_def bench_run)
qed

theorem benchmark_command_witness:
  "case main [''--iterations'', ''2'', ''--warm=0'', ''--j''] (\<lambda>_. sample_env) (\<lambda>_. sample_env) (\<lambda>i. (0, int i)) of
      Ran (Inl e) \<Rightarrow> is_overflow e
    | Ran (Inr (printed, code)) \<Rightarrow> length printed = 1
    | _ \<Rightarrow> False"
proof -
  let ?ts = "[SetIterations 9 False 2, SetWarmup 3 True 0, SetJson 0]"
  have ok: "list_all setting_ok ?ts" by code_simp
  have ns: "\<lparr>ns_iterations = 2, ns_warmup_iterations = 0, ns_json = True\<rparr>
      = fold apply_setting ?ts default_namespace" by code_simp
  have line: "concat (map write_setting ?ts) = [''--iterations'', ''2'', ''--warm=0'', ''--j'']" by code_simp
  show ?thesis
    using benchmark_command [OF ok ns, of "\<lambda>_. sample_env" "\<lambda>_. sample_env" "\<lambda>i. (0, int i)"] unfolding line
    by (auto split: cli_outcome.splits sum.splits prod.splits)
qed

end
