(* ===== verification/Spec2Isabelle.thy ===== *)
theory Spec2Isabelle
  imports DeskGuarantee ReceiptLaws KellyAccuracy Persistence Webhook BenchArgs
begin

text \<open>
  \<^bold>\<open>The program.\<close> The \<open>trade_risk_engine\<close> package (\<open>src/src/trade_risk_engine/\<close>) decides whether a
  proposed trade may proceed. Its parts and how they meet:

  \<^item> \<open>state.py\<close> holds the immutable policy (\<open>RiskContext\<close>), positions, past trades, the decision
    object, and the versioned snapshot of a session.
  \<^item> \<open>gates.py\<close> holds five stateless gates, each a function that may write a rejection into the
    decision object and returns whether the trade passes, and three stateful desk controls:
    \<open>KillSwitch\<close>, \<open>TimedCircuitBreaker\<close>, \<open>ConsecutiveLossGate\<close>.
  \<^item> \<open>engine.py\<close> chains the gates (expected value, drawdown, loss window, concentration, cluster cap,
    latency budget) with tracing around each; \<open>RiskAuthority\<close> puts the controls in front, fires the
    \<open>on_trip\<close> callback, records results, and saves and restores itself.
  \<^item> \<open>provider.py\<close> validates a request, asks the authority, runs the gates once more independently
    for a report, and issues a receipt (\<open>provider_receipts.py\<close>) with hashes of inputs and policy.
  \<^item> \<open>config.py\<close> checks the parameters of a YAML file, \<open>kelly.py\<close> sizes a stake, \<open>webhook.py\<close> posts
    an event with retries, \<open>execution.py\<close> refuses live orders, \<open>benchmark.py\<close> measures latency.

  \<^bold>\<open>Python underneath.\<close> \<open>Prelude\<close> has the exceptions and the result type \<open>exn + 'a\<close> with \<open>rbind\<close> (a
  call that may raise) and \<open>rguard\<close> (\<open>if b: raise e\<close>). \<open>Binary64\<close> is IEEE double arithmetic, round
  to nearest even, as functions on a datatype of NaN, infinities and \<open>m * 2^e\<close>, with the lemma
  \<open>round_f64_approx\<close> that every operation rounds the exact real result, from which all bounds and
  monotonicity results follow. \<open>PyNum\<close> is the union of Python's \<open>int\<close> and \<open>float\<close> with the
  interpreter's mixed comparisons (exact) and conversions (which may overflow), because an \<open>int\<close>
  passed where a \<open>float\<close> is annotated behaves differently in this code. \<open>PyText\<close> has \<open>str\<close>, \<open>repr\<close>
  and the formats of reason codes, \<open>PyTime\<close> \<open>datetime\<close> and \<open>timedelta\<close>, \<open>IsoFormat\<close> \<open>isoformat\<close>,
  \<open>Digest\<close> SHA-256 and \<open>json.dumps\<close>; \<open>PySort\<close> shows that Python's stable sort is \<open>sort_key\<close>.

  \<^bold>\<open>The model.\<close> One group of definitions per part, in the order of the code:

  \<^item> \<open>RiskTypes\<close>, \<open>RiskState\<close>: \<open>state.py\<close>. A struct is a record, its \<open>__post_init__\<close> a function
    \<open>..._new\<close> on unvalidated Python values (\<open>pyval\<close>); \<open>RiskState_from_json\<close> takes the JSON codec as
    arguments.
  \<^item> \<open>Gates\<close>: the stateless gates. A gate maps the decision to \<open>Inr (passes, decision)\<close> or to the
    exception it raises. The locale \<open>risk_gate\<close> states what the engine needs of one (its verdict
    does not depend on the decision object; a pass changes nothing; a rejection writes exactly two
    fields and a code that starts with \<open>ERR_\<close>) and is interpreted on the four gates of the chain.
  \<^item> \<open>Controls\<close>: the desk controls, a record and one function per method. The locale \<open>desk_control\<close>
    is the contract of \<open>check\<close>, the locale \<open>snapshot\<close> that of \<open>to_state\<close> and \<open>from_state\<close>; both are
    interpreted on all three controls.
  \<^item> \<open>Engine\<close>: \<open>evaluate_stateless\<close> and the \<open>authority\<close>. Early returns are continuations
    (\<open>gate_or_return\<close>, \<open>control_or_return\<close>); the trace is a list of events, written also when a gate
    raises; the callback is a function that returns the decision as it left it and an exception that
    is dropped.
  \<^item> \<open>Kelly\<close>, \<open>ConfigLoader\<close>, \<open>Receipts\<close>, \<open>Provider\<close>, \<open>Webhook\<close> (with \<open>execution.py\<close>), \<open>Benchmark\<close>:
    the modules of those names. \<open>BenchArgs\<close>: \<open>main\<close> of \<open>benchmark.py\<close> from its command line on, with
    the parser it builds (\<open>argparse\<close>: abbreviations, \<open>--option=value\<close>, \<open>--\<close>, negative numbers, usage
    errors).

  \<^bold>\<open>What is shown.\<close> \<open>GateLaws\<close>: thresholds, soundness and monotonicity of the gates under rounding,
  and the table of the cluster cap. \<open>Rounding\<close> has the relative error of one operation, and
  \<open>ExposureLaws\<close> what an approval of the concentration gate means for the exact exposure.
  \<open>GateBounds\<close> says the same of every gate, and \<open>ApprovalSafety\<close> puts them together: what an
  approval of the whole evaluation says about the desk controls and the exact numbers. \<open>LossWindow\<close>:
  the loss window gate against a declarative count of the current losing streak (in the library's
  sort by instant), and that no timezone mixture reaches datetime arithmetic. \<open>ControlLaws\<close>: the
  breaker as a step relation with its invariant, when it trips (against an abstract run counter) and
  how long it stays tripped; the loss gate's window; the kill switch as a function of its history.
  \<open>EngineLaws\<close>: the chain equals the first rejection of a list of verdicts, what can be raised, and
  the well-nested trace. \<open>AuthorityLaws\<close>: the controls come first, a session keeps the invariants,
  when the callback fires, and what a snapshot restores. \<open>SessionLaws\<close>: a tripped kill switch or
  breaker halts every evaluation of a session until the reset or the end of the cooldown.
  \<open>Persistence\<close>: an authority stopped, written to JSON, read back strictly and restored makes every
  decision of the rest of the session unchanged. \<open>Kelly\<close>: range, bound by the fraction and
  monotonicity of the stake in float arithmetic; \<open>KellyAccuracy\<close>: its distance from the exact
  criterion. \<open>ConfigUse\<close>: a loaded file as the arguments of \<open>RiskContext\<close> and \<open>kelly_fraction\<close>.
  \<open>DeskGuarantee\<close> puts file, context, request, evaluation and receipt together: what an approval
  under a loaded policy file says, end to end. \<open>FloatText\<close> and \<open>ReprLaws\<close>: the text of a float reads
  back as that float (seventeen digits suffice; \<open>read_float\<close> is the reader). \<open>JsonCode\<close>: the text of
  \<open>json.dumps\<close> determines the JSON value; the locale \<open>text_code\<close> says what a list or mapping needs
  of the writer of its items, and is interpreted on JSON values and on the entries of a mapping.
  \<open>IsoLaws\<close>: \<open>isoformat\<close> determines the wall clock and the offset, by undoing the calendar.
  \<open>ReceiptLaws\<close> puts these together: equal hashes of two receipts mean equal inputs and policies,
  unless SHA-256 collides, and then equal reports and verdicts. \<open>Provider\<close>, \<open>Receipts\<close>,
  \<open>ConfigLoader\<close>, \<open>Webhook\<close>, \<open>Benchmark\<close>: validation boundaries, agreement of report and decision,
  irrelevance of advisory data, refusal of secrets, parameter ranges, delivery, percentiles.
  \<open>BenchArgs\<close>: a command line is read back as the settings it was written from, and what the command
  does with them up to its exit status. Some laws describe behaviour the authors may not have wanted
  (a NaN cluster cap, a tiny price, a breaker that never recovers); they are stated as the code
  behaves.

  \<^bold>\<open>Bounds and recursion.\<close> No definition uses fuel: every loop of the code runs over a list or a
  range and is structural. The search for the shortest digits of a float stops at seventeen, which
  always suffice (\<open>shortest_reads_back\<close>). Timestamps in the loss window laws are within \<open>2^61\<close>
  microseconds of year one (the range of \<open>datetime\<close> ends below \<open>2^59\<close>). The laws of the Kelly stake
  hold for prices of at least \<open>2^-1022\<close>; below that the quotients can overflow
  (\<open>kelly_tiny_price_full_stake\<close>). Samples of the benchmark law have fewer than \<open>2^53\<close> readings, so
  that their count is a float. A number on the command line has at most 4300 digits, the
  interpreter's limit.

  \<^bold>\<open>Not modelled.\<close> The \<open>msgspec\<close> codec, the YAML parser, \<open>httpx\<close>, \<open>pydantic\<close>'s validation and dump,
  OpenTelemetry and logging beyond the calls made, and the clock are arguments of the definitions
  that use them. Strings are Latin-1 (code points below 256). The interpreter's limit on the decimal
  digits of huge integers when one is printed (it is there when one is read, in \<open>read_digits\<close>),
  cancellation of asynchronous tasks, warnings turned into errors, and callbacks that change the
  authority they are called from are left out, as are the wording of the help and usage texts of the
  benchmark's command line (an error is its kind and the strings it names), the identity of a zone
  object in a receipt (its text shows the offset only), the re-exports of \<open>__init__.py\<close>, and tests,
  examples and scripts.
\<close>

end
